(* ===== verification/Twili_Prelude.thy ===== *)
theory Twili_Prelude
  imports Main "HOL-Library.Word"
begin

unbundle bit_operations_syntax

text \<open>
  Shared vocabulary of the development: the machine types of the C++ code, \<open>size_t\<close>
  subtraction, writing into the middle of a vector, little-endian images of integers, and the
  generic lemmas on lists and words that the component theories use.

  A \<open>size_t\<close> that counts elements of an object in memory is a \<open>nat\<close>: such an object
  has fewer than \<open>2 ^ 63\<close> bytes, so the sums the code forms of two such counts do not
  wrap. Differences can: \<open>size_sub\<close> is \<open>size_t\<close> subtraction with its wrap-around.
  Integers that come from the wire keep their width.
\<close>

type_synonym byte = "8 word"
type_synonym u32 = "32 word"
type_synonym u64 = "64 word"
type_synonym i64 = "64 word"

named_theorems buf_simps \<open>equations of the abstraction function of byte buffers\<close>
named_theorems le_simps \<open>little-endian encoding and decoding\<close>

section \<open>Sizes\<close>

definition size_sub :: "nat \<Rightarrow> nat \<Rightarrow> nat" where
  "size_sub a b = (if b \<le> a then a - b else a + 2 ^ 64 - b)"

lemma size_sub_le [simp]: "b \<le> a \<Longrightarrow> size_sub a b = a - b"
  by (simp add: size_sub_def)

lemma size_sub_self [simp]: "size_sub a a = 0"
  by simp

lemma size_sub_underflow: "a < b \<Longrightarrow> b < 2 ^ 64 \<Longrightarrow> size_sub a b = 2 ^ 64 - (b - a)"
  by (simp add: size_sub_def)

section \<open>Vectors\<close>

text \<open>\<open>std::copy_n (ys, n, xs.begin () + i)\<close>: the elements from index \<open>i\<close> on are
  replaced by \<open>ys\<close>.\<close>

definition overwrite :: "nat \<Rightarrow> 'a list \<Rightarrow> 'a list \<Rightarrow> 'a list" where
  "overwrite i ys xs = take i xs @ ys @ drop (i + length ys) xs"

lemma length_overwrite [simp]:
  "i + length ys \<le> length xs \<Longrightarrow> length (overwrite i ys xs) = length xs"
  by (simp add: overwrite_def)

lemma overwrite_Nil [simp]: "overwrite i [] xs = xs"
  by (simp add: overwrite_def)

lemma take_drop_overwrite:
  assumes "r \<le> i" and "i + length ys \<le> length xs"
  shows "take (i + length ys - r) (drop r (overwrite i ys xs)) = take (i - r) (drop r xs) @ ys"
  using assms by (simp add: overwrite_def drop_take)

lemma take_overwrite_before:
  assumes "r \<le> i" and "i \<le> length xs"
  shows "take (i - r) (drop r (overwrite i ys xs)) = take (i - r) (drop r xs)"
  using assms by (simp add: overwrite_def drop_take)

text \<open>\<open>std::vector::resize\<close>: new elements are value-initialised.\<close>

definition resize :: "nat \<Rightarrow> byte list \<Rightarrow> byte list" where
  "resize n xs = take n xs @ replicate (n - length xs) 0"

lemma length_resize [simp]: "length (resize n xs) = n"
  by (simp add: resize_def)

lemma take_drop_resize:
  assumes "w \<le> length xs" and "w \<le> n"
  shows "take (w - r) (drop r (resize n xs)) = take (w - r) (drop r xs)"
  using assms by (cases "r \<le> w") (simp_all add: resize_def drop_take min_def)

section \<open>Bytes and integers\<close>

lemma unat_bound: "unat (w :: 'a::len word) < 2 ^ LENGTH('a)"
  by (rule unsigned_less)

lemma unat_of_nat_u64: "n < 2 ^ 64 \<Longrightarrow> unat (of_nat n :: u64) = n"
  by (simp add: unat_of_nat take_bit_nat_eq_self)

lemma unat_of_nat_u32: "n < 2 ^ 32 \<Longrightarrow> unat (of_nat n :: u32) = n"
  by (simp add: unat_of_nat take_bit_nat_eq_self)

lemma unat_byte_bound [simp]: "unat (b :: byte) < 256"
  using unat_bound [of b] by simp

fun le_encode :: "nat \<Rightarrow> nat \<Rightarrow> byte list" where
  "le_encode 0 v = []"
| "le_encode (Suc n) v = of_nat (v mod 256) # le_encode n (v div 256)"

fun le_decode :: "byte list \<Rightarrow> nat" where
  "le_decode [] = 0"
| "le_decode (b # bs) = unat b + 256 * le_decode bs"

lemma length_le_encode [simp]: "length (le_encode n v) = n"
  by (induction n arbitrary: v) auto

lemma le_decode_encode [le_simps]: "v < 256 ^ n \<Longrightarrow> le_decode (le_encode n v) = v"
  by (induction n arbitrary: v) (auto simp: unat_of_nat less_mult_imp_div_less mult.commute)

lemma le_decode_bound: "le_decode bs < 256 ^ length bs"
proof (induction bs)
  case (Cons b bs)
  moreover have "unat b < 256" by simp
  ultimately have "unat b + 256 * le_decode bs < 256 * 256 ^ length bs" by linarith
  then show ?case by simp
qed simp

lemma le_encode_decode [le_simps]: "length bs = n \<Longrightarrow> le_encode n (le_decode bs) = bs"
proof (induction bs arbitrary: n)
  case (Cons b bs)
  have "(unat b + 256 * le_decode bs) div 256 = le_decode bs"
    and "(unat b + 256 * le_decode bs) mod 256 = unat b" by simp_all
  with Cons show ?case by auto
qed simp

text \<open>The memory image of a 32-bit and a 64-bit integer on the little-endian targets.\<close>

definition bytes32 :: "u32 \<Rightarrow> byte list" where
  "bytes32 w = le_encode 4 (unat w)"

definition bytes64 :: "u64 \<Rightarrow> byte list" where
  "bytes64 w = le_encode 8 (unat w)"

definition word32 :: "byte list \<Rightarrow> u32" where
  "word32 bs = of_nat (le_decode bs)"

definition word64 :: "byte list \<Rightarrow> u64" where
  "word64 bs = of_nat (le_decode bs)"

lemma length_bytes32 [simp]: "length (bytes32 w) = 4"
  by (simp add: bytes32_def)

lemma length_bytes64 [simp]: "length (bytes64 w) = 8"
  by (simp add: bytes64_def)

lemma word32_bytes32 [simp]: "word32 (bytes32 w) = w"
  using unat_bound [of w] by (simp add: word32_def bytes32_def le_simps)

lemma word64_bytes64 [simp]: "word64 (bytes64 w) = w"
  using unat_bound [of w] by (simp add: word64_def bytes64_def le_simps)

lemma bytes32_word32: "length bs = 4 \<Longrightarrow> bytes32 (word32 bs) = bs"
  using le_decode_bound [of bs]
  by (simp add: word32_def bytes32_def unat_of_nat le_simps)

lemma bytes64_word64: "length bs = 8 \<Longrightarrow> bytes64 (word64 bs) = bs"
  using le_decode_bound [of bs]
  by (simp add: word64_def bytes64_def unat_of_nat le_simps)

lemma bytes32_inject [simp]: "bytes32 a = bytes32 b \<longleftrightarrow> a = b"
  by (metis word32_bytes32)

lemma bytes64_inject [simp]: "bytes64 a = bytes64 b \<longleftrightarrow> a = b"
  by (metis word64_bytes64)

text \<open>The bytes of a C string literal.\<close>

definition str :: "string \<Rightarrow> byte list" where
  "str s = map of_char s"

lemma length_str [simp]: "length (str s) = length s"
  by (simp add: str_def)

lemma str_append [simp]: "str (s @ t) = str s @ str t"
  by (simp add: str_def)

section \<open>Nybbles and bytes of words\<close>

lemma and_nybble: "(x :: 'a::len word) AND 0xf = take_bit 4 x"
  by (simp add: take_bit_eq_mask mask_eq_exp_minus_1)

lemma and_byte: "(x :: 'a::len word) AND 0xff = take_bit 8 x"
  by (simp add: take_bit_eq_mask mask_eq_exp_minus_1)

lemma nybble_less: "(x :: byte) AND 0xf < 0x10"
proof -
  have "x AND 0xf \<le> 0xf" by (rule word_and_le1)
  then show ?thesis by (rule order.strict_trans1) simp
qed

lemma nybble_cases:
  assumes "(n :: byte) < 0x10"
  shows "n \<in> {0, 1, 2, 3, 4, 5, 6, 7, 8, 9, 10, 11, 12, 13, 14, 15}"
proof -
  from assms have "unat n \<in> set [0..<16]" by (simp add: word_less_nat_alt)
  then have "of_nat (unat n) \<in> (of_nat ` set [0..<16] :: byte set)" by blast
  then show ?thesis by (simp add: upt_rec)
qed

lemma nybbles_of_shift:
  "ucast (drop_bit (8 * k + 4) (n :: u64) AND 0xf) =
     drop_bit 4 (ucast (drop_bit (8 * k) n) :: byte) AND 0xf"
  "ucast (drop_bit (8 * k) (n :: u64) AND 0xf) = (ucast (drop_bit (8 * k) n) :: byte) AND 0xf"
  unfolding and_nybble by (rule bit_word_eqI, auto simp: bit_simps ac_simps)+

lemma byte_zero_of_shift:
  "drop_bit (8 * k) (n :: u64) AND 0xff = 0 \<longleftrightarrow> (ucast (drop_bit (8 * k) n) :: byte) = 0"
  unfolding and_byte by (auto simp: bit_eq_iff bit_simps)

lemma byte_of_nybbles: "push_bit 4 (drop_bit 4 b AND 0xf) OR (b AND 0xf) = (b :: byte)"
  unfolding and_nybble by (rule bit_word_eqI) (auto simp: bit_simps)

lemma shift_in_nybbles:
  "push_bit 4 (push_bit 4 (out :: u64) OR ucast (drop_bit 4 b AND 0xf :: byte)) OR ucast (b AND 0xf) =
     push_bit 8 out OR ucast b"
  unfolding and_nybble by (rule bit_word_eqI) (auto simp: bit_simps dest: bit_imp_le_length)

lemma shift_in_byte:
  "push_bit (8 * k) (push_bit 8 (out :: u64) OR ucast (ucast (drop_bit (8 * k) n) :: byte)) OR
     take_bit (8 * k) n = push_bit (8 * k + 8) out OR take_bit (8 * k + 8) n"
  by (rule bit_word_eqI) (auto simp: bit_simps)

section \<open>Fallible computations\<close>

text \<open>The sequence of two computations that may stop with an error.\<close>

fun sum_bind :: "'e + 'a \<Rightarrow> ('a \<Rightarrow> 'e + 'b) \<Rightarrow> 'e + 'b" where
  "sum_bind (Inl e) f = Inl e"
| "sum_bind (Inr x) f = f x"

lemma sum_bind_assoc: "sum_bind (sum_bind r f) g = sum_bind r (\<lambda>x. sum_bind (f x) g)"
  by (cases r) simp_all

lemma sum_bind_Inr [simp]: "sum_bind r Inr = r"
  by (cases r) simp_all

lemma sum_bind_eq_Inr:
  "sum_bind r f = Inr y \<longleftrightarrow> (\<exists>x. r = Inr x \<and> f x = Inr y)"
  by (cases r) simp_all

end
