(* ===== verification/Buffer.thy ===== *)
theory Buffer
  imports Twili_Prelude
begin

text \<open>
  \<open>util::Buffer\<close> (src/common/Buffer.hpp, src/common/Buffer.cpp): a byte vector with a read
  head and a write head and an optional size limit, used by every connection, pipe and packet of
  the program. The theory models every operation, states the contract as a bounded FIFO of bytes
  (\<open>qstate\<close> and the locale \<open>byte_fifo\<close>) and shows that the operations implement it.
\<close>

section \<open>State and operations\<close>

record Buffer =
  bdata :: "byte list"
  read_head :: nat
  write_head :: nat
  limit :: "nat option"

definition Buffer_new :: Buffer where
  "Buffer_new = \<lparr>bdata = replicate 2048 0, read_head = 0, write_head = 0, limit = None\<rparr>"

definition Buffer_limited :: "nat \<Rightarrow> Buffer" where
  "Buffer_limited l =
     \<lparr>bdata = replicate (min 2048 l) 0, read_head = 0, write_head = 0, limit = Some l\<rparr>"

definition Buffer_of_vector :: "byte list \<Rightarrow> Buffer" where
  "Buffer_of_vector v = \<lparr>bdata = v, read_head = 0, write_head = length v, limit = None\<rparr>"

definition Clear :: "Buffer \<Rightarrow> Buffer" where
  "Clear b = b\<lparr>read_head := 0, write_head := 0\<rparr>"

definition ReadAvailable :: "Buffer \<Rightarrow> nat" where
  "ReadAvailable b = size_sub (write_head b) (read_head b)"

definition WriteAvailableHint :: "Buffer \<Rightarrow> nat" where
  "WriteAvailableHint b = size_sub (length (bdata b)) (write_head b)"

definition MarkWritten :: "Buffer \<Rightarrow> nat \<Rightarrow> Buffer" where
  "MarkWritten b n = b\<lparr>write_head := write_head b + n\<rparr>"

definition MarkRead :: "Buffer \<Rightarrow> nat \<Rightarrow> Buffer" where
  "MarkRead b n = b\<lparr>read_head := read_head b + n\<rparr>"

text \<open>\<open>Buffer::Compact\<close> copies \<open>[read_head, end)\<close> to the front; the tail of the
  vector keeps its old bytes.\<close>

definition Compact :: "Buffer \<Rightarrow> Buffer" where
  "Compact b = b\<lparr>
     bdata := drop (read_head b) (bdata b) @ drop (length (bdata b) - read_head b) (bdata b),
     write_head := size_sub (write_head b) (read_head b),
     read_head := 0\<rparr>"

definition EnsureSpace :: "Buffer \<Rightarrow> nat \<Rightarrow> bool \<times> Buffer" where
  "EnsureSpace b n =
    (let b1 = (if write_head b + n > length (bdata b) then Compact b else b) in
     if write_head b1 + n > length (bdata b1) then
       (if (case limit b1 of Some l \<Rightarrow> write_head b1 + n > l | None \<Rightarrow> False)
        then (False, b1)
        else (True, b1\<lparr>bdata := resize (write_head b1 + n) (bdata b1)\<rparr>))
     else (True, b1))"

definition TryEnsureSpace :: "Buffer \<Rightarrow> nat \<Rightarrow> Buffer" where
  "TryEnsureSpace b n =
    (let b1 = (if write_head b + n > length (bdata b) then Compact b else b) in
     if write_head b1 + n > length (bdata b1) then
       (case limit b1 of
          Some l \<Rightarrow> (if write_head b1 + n > l
                     then b1\<lparr>bdata := resize l (bdata b1)\<rparr>
                     else b1\<lparr>bdata := resize (write_head b1 + n) (bdata b1)\<rparr>)
        | None \<Rightarrow> b1\<lparr>bdata := resize (write_head b1 + n) (bdata b1)\<rparr>)
     else b1)"

text \<open>\<open>Write (const uint8_t *io, size_t size)\<close>; \<open>io\<close> is the list of the bytes it
  points to. The string, vector and standard-layout overloads pass the bytes of their argument.\<close>

definition Write :: "Buffer \<Rightarrow> byte list \<Rightarrow> bool \<times> Buffer" where
  "Write b io =
    (let (ok, b1) = EnsureSpace b (length io) in
     if ok then (True, b1\<lparr>bdata := overwrite (write_head b1) io (bdata b1),
                           write_head := write_head b1 + length io\<rparr>)
     else (False, b1))"

text \<open>The caller that ignores the result, as every caller of an unlimited buffer does.\<close>

definition Put :: "Buffer \<Rightarrow> byte list \<Rightarrow> Buffer" where
  "Put b io = snd (Write b io)"

text \<open>\<open>Write (const char *str)\<close> stops at the terminating zero.\<close>

definition Write_cstr :: "Buffer \<Rightarrow> byte list \<Rightarrow> bool \<times> Buffer" where
  "Write_cstr b s = Write b (takeWhile (\<lambda>c. c \<noteq> 0) s)"

text \<open>\<open>Reserve\<close> returns the write pointer and the room behind it. The pointer is always
  \<open>data () + write_head\<close>, so only the room is returned; \<open>fill\<close> is the caller's copy
  through the pointer.\<close>

definition Reserve :: "Buffer \<Rightarrow> nat \<Rightarrow> nat \<times> Buffer" where
  "Reserve b n =
    (let b1 = TryEnsureSpace b n in (size_sub (length (bdata b1)) (write_head b1), b1))"

definition fill :: "Buffer \<Rightarrow> byte list \<Rightarrow> Buffer" where
  "fill b io = b\<lparr>bdata := overwrite (write_head b) io (bdata b)\<rparr>"

definition Read :: "Buffer \<Rightarrow> nat \<Rightarrow> (byte list \<times> Buffer) option" where
  "Read b n =
    (if read_head b + n > write_head b then None
     else Some (take n (drop (read_head b) (bdata b)), b\<lparr>read_head := read_head b + n\<rparr>))"

text \<open>\<open>Read (char &ch)\<close>, the template at one byte.\<close>

definition Read_char :: "Buffer \<Rightarrow> (byte \<times> Buffer) option" where
  "Read_char b = map_option (\<lambda>(bs, b'). (hd bs, b')) (Read b 1)"

definition Read_string :: "Buffer \<Rightarrow> nat \<Rightarrow> (byte list \<times> Buffer) option" where
  "Read_string b n =
    (if ReadAvailable b < n then None
     else Some (take n (drop (read_head b) (bdata b)), MarkRead b n))"

text \<open>\<open>Read ()[0]\<close>, the byte under the read head, of code that has checked
  \<open>ReadAvailable\<close>.\<close>

definition Peek :: "Buffer \<Rightarrow> byte" where
  "Peek b = bdata b ! read_head b"

definition GetData :: "Buffer \<Rightarrow> byte list" where
  "GetData b = take (write_head b - read_head b) (drop (read_head b) (bdata b))"

definition GetString :: "Buffer \<Rightarrow> byte list" where
  "GetString b = take (write_head b - read_head b) (drop (read_head b) (bdata b))"

text \<open>\<open>Read (Buffer &other, size_t size)\<close> copies \<open>size\<close> bytes to the pointer
  \<open>Reserve\<close> gave, whatever room that had. \<open>None\<close> is the write past the end of
  \<open>other\<close>'s vector; otherwise the result flag and both buffers.\<close>

definition Read_Buffer :: "Buffer \<Rightarrow> Buffer \<Rightarrow> nat \<Rightarrow> (bool \<times> Buffer \<times> Buffer) option" where
  "Read_Buffer b other n =
    (let (room, o1) = Reserve other n in
     case Read b n of
       None \<Rightarrow> Some (False, b, o1)
     | Some (bs, b') \<Rightarrow>
         if n \<le> room then Some (True, b', MarkWritten (fill o1 bs) n) else None)"

section \<open>Invariant and abstraction\<close>

text \<open>The contract: a queue of bytes with a bound.\<close>

definition fits :: "nat option \<Rightarrow> nat \<Rightarrow> bool" where
  "fits lim n = (case lim of Some l \<Rightarrow> n \<le> l | None \<Rightarrow> True)"

definition buf_ok :: "Buffer \<Rightarrow> bool" where
  "buf_ok b \<longleftrightarrow> read_head b \<le> write_head b \<and> write_head b \<le> length (bdata b) \<and>
     fits (limit b) (length (bdata b))"

abbreviation contents :: "Buffer \<Rightarrow> byte list" where
  "contents \<equiv> GetData"

lemmas buf_defs = buf_ok_def GetData_def

lemma buf_ok_D:
  assumes "buf_ok b"
  shows "read_head b \<le> write_head b" and "write_head b \<le> length (bdata b)"
  using assms by (simp_all add: buf_ok_def)

lemma GetString_eq [simp]: "GetString = GetData"
  by (simp add: fun_eq_iff GetString_def GetData_def)

lemma buf_ok_new [simp]: "buf_ok Buffer_new" "buf_ok (Buffer_limited l)" "buf_ok (Buffer_of_vector v)"
  by (simp_all add: buf_ok_def fits_def Buffer_new_def Buffer_limited_def Buffer_of_vector_def)

lemma contents_new [buf_simps, simp]:
  "contents Buffer_new = []" "contents (Buffer_limited l) = []"
  "contents (Buffer_of_vector v) = v"
  by (simp_all add: GetData_def Buffer_new_def Buffer_limited_def Buffer_of_vector_def)

lemma limit_new [buf_simps, simp]:
  "limit Buffer_new = None" "limit (Buffer_limited l) = Some l" "limit (Buffer_of_vector v) = None"
  by (simp_all add: Buffer_new_def Buffer_limited_def Buffer_of_vector_def)

lemma length_contents: "buf_ok b \<Longrightarrow> length (contents b) = write_head b - read_head b"
  by (auto simp: buf_defs min_def)

lemma ReadAvailable_eq [buf_simps, simp]: "buf_ok b \<Longrightarrow> ReadAvailable b = length (contents b)"
  by (simp add: length_contents ReadAvailable_def buf_ok_D)

lemma Clear_refine [buf_simps, simp]:
  "contents (Clear b) = []" "limit (Clear b) = limit b" "buf_ok b \<Longrightarrow> buf_ok (Clear b)"
  by (simp_all add: Clear_def buf_defs)

lemma MarkRead_refine [buf_simps, simp]:
  assumes "buf_ok b" and "n \<le> length (contents b)"
  shows "contents (MarkRead b n) = drop n (contents b)" and "buf_ok (MarkRead b n)"
  using assms by (auto simp: MarkRead_def buf_defs drop_take add.commute length_contents)

lemma limit_MarkRead [buf_simps, simp]: "limit (MarkRead b n) = limit b"
  by (simp add: MarkRead_def)

lemma Peek_eq [buf_simps]: "buf_ok b \<Longrightarrow> contents b \<noteq> [] \<Longrightarrow> Peek b = hd (contents b)"
  by (auto simp: Peek_def buf_defs hd_conv_nth)

lemma Compact_refine [buf_simps, simp]:
  assumes "buf_ok b"
  shows "contents (Compact b) = contents b" and "buf_ok (Compact b)"
    and "limit (Compact b) = limit b" and "length (bdata (Compact b)) = length (bdata b)"
    and "write_head (Compact b) = length (contents b)" and "read_head (Compact b) = 0"
  using assms by (auto simp: Compact_def buf_defs split: option.splits)

subsection \<open>Making room\<close>

lemma resize_refine:
  assumes "buf_ok b" and "length (bdata b) \<le> n" and "fits (limit b) n"
  shows "contents (b\<lparr>bdata := resize n (bdata b)\<rparr>) = contents b"
    and "buf_ok (b\<lparr>bdata := resize n (bdata b)\<rparr>)"
  using assms take_drop_resize [of "write_head b" "bdata b" n "read_head b"]
  by (auto simp: buf_defs fits_def split: option.splits)

lemma EnsureSpace_refine:
  assumes ok: "buf_ok b" and E: "EnsureSpace b n = (r, b')"
  shows "r \<longleftrightarrow> fits (limit b) (length (contents b) + n)"
    and "contents b' = contents b" and "buf_ok b'" and "limit b' = limit b"
    and "r \<Longrightarrow> write_head b' + n \<le> length (bdata b')"
proof -
  let ?c = "if write_head b + n > length (bdata b) then Compact b else b"
  have c: "contents ?c = contents b" "buf_ok ?c" "limit ?c = limit b"
    using ok by auto
  have len: "length (contents b) = write_head b - read_head b" using ok by (rule length_contents)
  have room: "write_head b + n \<le> length (bdata b) \<Longrightarrow> fits (limit b) (length (contents b) + n)"
    using ok len by (auto simp: fits_def buf_ok_def split: option.splits)
  have room': "write_head ?c + n \<le> length (bdata ?c) \<Longrightarrow> fits (limit b) (length (contents b) + n)"
    using ok len room by (auto simp: fits_def buf_ok_def split: option.splits if_splits)
  note rf = resize_refine [OF c(2), of "write_head ?c + n"]
  show "r \<longleftrightarrow> fits (limit b) (length (contents b) + n)"
    using E room room' ok
    by (auto simp: EnsureSpace_def Let_def fits_def split: if_splits option.splits)
  show "contents b' = contents b" "buf_ok b'" "limit b' = limit b"
    using E c rf by (auto simp: EnsureSpace_def Let_def fits_def split: if_splits option.splits)
  show "r \<Longrightarrow> write_head b' + n \<le> length (bdata b')"
    using E by (auto simp: EnsureSpace_def Let_def split: if_splits option.splits)
qed

lemma Write_refine [buf_simps]:
  assumes ok: "buf_ok b"
  shows "fst (Write b io) \<longleftrightarrow> fits (limit b) (length (contents b) + length io)"
    and "contents (snd (Write b io)) =
           (if fst (Write b io) then contents b @ io else contents b)"
    and "buf_ok (snd (Write b io))" and "limit (snd (Write b io)) = limit b"
proof -
  obtain r b1 where E: "EnsureSpace b (length io) = (r, b1)" by fastforce
  note e = EnsureSpace_refine [OF ok E]
  show "fst (Write b io) \<longleftrightarrow> fits (limit b) (length (contents b) + length io)"
    using E e(1) by (simp add: Write_def)
  show "contents (snd (Write b io)) = (if fst (Write b io) then contents b @ io else contents b)"
    using E e take_drop_overwrite [of "read_head b1" "write_head b1" io "bdata b1"]
    by (auto simp: Write_def buf_defs)
  show "buf_ok (snd (Write b io))"
    using E e by (auto simp: Write_def buf_ok_def split: option.splits)
  show "limit (snd (Write b io)) = limit b"
    using E e by (auto simp: Write_def)
qed

lemma Put_refine [buf_simps, simp]:
  assumes "buf_ok b" and "limit b = None"
  shows "contents (Put b io) = contents b @ io" and "buf_ok (Put b io)"
    and "limit (Put b io) = None"
  using assms by (simp_all add: Put_def Write_refine fits_def)

lemma Write_ok: "buf_ok b \<Longrightarrow> limit b = None \<Longrightarrow> fst (Write b io)"
  by (simp add: Write_refine fits_def)

lemma Reserve_refine:
  assumes ok: "buf_ok b" and R: "Reserve b n = (room, b')"
  shows "contents b' = contents b" and "buf_ok b'" and "limit b' = limit b"
    and "room = length (bdata b') - write_head b'"
    and "fits (limit b) (length (contents b) + n) \<Longrightarrow> n \<le> room"
    and "\<not> fits (limit b) (length (contents b) + n) \<Longrightarrow> room + length (contents b) = the (limit b)"
proof -
  let ?c = "if write_head b + n > length (bdata b) then Compact b else b"
  have c: "contents ?c = contents b" "buf_ok ?c" "limit ?c = limit b"
    using ok by auto
  have len: "length (contents b) = write_head b - read_head b" using ok by (rule length_contents)
  have b': "b' = TryEnsureSpace b n" using R by (simp add: Reserve_def Let_def)
  note rf = resize_refine [OF c(2), of "write_head ?c + n"]
  show c': "contents b' = contents b" "buf_ok b'" "limit b' = limit b"
    using c rf ok resize_refine [OF c(2), of "the (limit b)"] len
    by (auto simp: b' TryEnsureSpace_def Let_def fits_def buf_ok_def split: if_splits option.splits)
  show rm: "room = length (bdata b') - write_head b'"
    using R c'(2) by (auto simp: Reserve_def Let_def b' buf_ok_def)
  show "n \<le> room" if "fits (limit b) (length (contents b) + n)"
    unfolding rm using that ok len
    by (auto simp: b' TryEnsureSpace_def Let_def fits_def buf_ok_def split: if_splits option.splits)
  show "room + length (contents b) = the (limit b)"
    if "\<not> fits (limit b) (length (contents b) + n)"
    unfolding rm using that ok len
    by (auto simp: b' TryEnsureSpace_def Let_def fits_def buf_ok_def split: if_splits option.splits)
qed

subsection \<open>Taking bytes out, and copying through the write pointer\<close>

lemma Read_refine:
  assumes ok: "buf_ok b"
  shows "Read b n = None \<longleftrightarrow> length (contents b) < n"
    and "Read b n = Some (bs, b') \<Longrightarrow>
           bs = take n (contents b) \<and> contents b' = drop n (contents b) \<and> buf_ok b' \<and>
           limit b' = limit b \<and> n \<le> length (contents b)"
  using ok by (auto simp: Read_def buf_defs length_contents drop_take add.commute split: if_splits)

lemma Read_Some [buf_simps]:
  assumes ok: "buf_ok b" and "n \<le> length (contents b)"
  obtains b' where "Read b n = Some (take n (contents b), b')"
    "contents b' = drop n (contents b)" "buf_ok b'" "limit b' = limit b"
proof (cases "Read b n")
  case None
  then show ?thesis using Read_refine(1) [OF ok, of n] assms by simp
next
  case (Some p)
  then show ?thesis using Read_refine(2) [OF ok, of n] that by (cases p) auto
qed

lemma Read_eq:
  "buf_ok b \<Longrightarrow> Read b n =
     (if length (contents b) < n then None else Some (take n (contents b), MarkRead b n))"
  by (auto simp: Read_def MarkRead_def buf_defs length_contents drop_take add.commute)

lemma Read_string_eq: "buf_ok b \<Longrightarrow> Read_string b n = Read b n"
  by (auto simp: Read_string_def Read_def MarkRead_def ReadAvailable_def buf_ok_def)

lemma Read_char_None: "buf_ok b \<Longrightarrow> Read_char b = None \<longleftrightarrow> contents b = []"
  using Read_refine(1) [of b 1] by (auto simp: Read_char_def)

lemma Read_char_empty: "buf_ok b \<Longrightarrow> contents b = [] \<Longrightarrow> Read_char b = None"
  by (simp add: Read_char_None)

lemma Read_char_Some:
  assumes ok: "buf_ok b" and "Read_char b = Some (c, b')"
  shows "contents b = c # contents b'" and "buf_ok b'" and "limit b' = limit b"
proof -
  from assms obtain bs where bs: "Read b 1 = Some (bs, b')" "c = hd bs"
    by (auto simp: Read_char_def)
  with Read_refine(2) [OF ok bs(1)] show "contents b = c # contents b'" "buf_ok b'"
    "limit b' = limit b"
    by (cases "contents b"; simp)+
qed

lemma Read_char_Cons:
  assumes ok: "buf_ok b" and c: "contents b = c # cs"
  obtains b' where "Read_char b = Some (c, b')" "contents b' = cs" "buf_ok b'" "limit b' = limit b"
proof (cases "Read_char b")
  case None
  then show ?thesis using Read_char_None [OF ok] c by simp
next
  case (Some p)
  then show ?thesis using Read_char_Some [OF ok] that c by (cases p) auto
qed

text \<open>Code that checks \<open>ReadAvailable\<close>, looks at \<open>Read ()[0]\<close> and then calls
  \<open>MarkRead (1)\<close> takes one character.\<close>

lemma peek_consume:
  assumes ok: "buf_ok b"
  shows "(if ReadAvailable b = 0 then None else Some (Peek b, MarkRead b 1)) = Read_char b"
  using ok by (auto simp: Read_char_def Read_def MarkRead_def Peek_def buf_ok_def hd_drop_conv_nth
      length_contents)

lemma Read_char_decreases:
  "Read_char b = Some (c, b') \<Longrightarrow> write_head b' - read_head b' < write_head b - read_head b"
  by (auto simp: Read_char_def Read_def split: if_splits)

lemma fill_MarkWritten [buf_simps]:
  assumes ok: "buf_ok b" and "length io \<le> length (bdata b) - write_head b"
  shows "contents (MarkWritten (fill b io) (length io)) = contents b @ io"
    and "buf_ok (MarkWritten (fill b io) (length io))"
    and "limit (MarkWritten (fill b io) n) = limit b"
  using assms take_drop_overwrite [of "read_head b" "write_head b" io "bdata b"]
  by (auto simp: MarkWritten_def fill_def buf_defs)

text \<open>A copy through the pointer that is not marked as written leaves the queue as it was.\<close>

lemma fill_unmarked [buf_simps]:
  assumes ok: "buf_ok b" and "length io \<le> length (bdata b) - write_head b"
  shows "contents (fill b io) = contents b" and "buf_ok (fill b io)" and "limit (fill b io) = limit b"
  using assms take_overwrite_before [of "read_head b" "write_head b" "bdata b" io]
  by (auto simp: fill_def buf_defs)

section \<open>The contract as an interface\<close>

locale byte_fifo =
  fixes invar :: "'b \<Rightarrow> bool"
    and cont :: "'b \<Rightarrow> byte list"
    and cap :: "'b \<Rightarrow> nat option"
    and put :: "'b \<Rightarrow> byte list \<Rightarrow> bool \<times> 'b"
    and get :: "'b \<Rightarrow> nat \<Rightarrow> (byte list \<times> 'b) option"
  assumes put_accepts: "invar b \<Longrightarrow> fst (put b bs) \<longleftrightarrow> fits (cap b) (length (cont b) + length bs)"
    and put_cont: "invar b \<Longrightarrow> cont (snd (put b bs)) = (if fst (put b bs) then cont b @ bs else cont b)"
    and put_invar: "invar b \<Longrightarrow> invar (snd (put b bs))"
    and put_cap: "invar b \<Longrightarrow> cap (snd (put b bs)) = cap b"
    and get_None: "invar b \<Longrightarrow> get b n = None \<longleftrightarrow> length (cont b) < n"
    and get_Some: "invar b \<Longrightarrow> get b n = Some (bs, b') \<Longrightarrow>
          bs = take n (cont b) \<and> cont b' = drop n (cont b) \<and> invar b' \<and> cap b' = cap b \<and>
          n \<le> length (cont b)"
begin

lemma get_available:
  assumes "invar b" and "n \<le> length (cont b)"
  shows "\<exists>b'. get b n = Some (take n (cont b), b') \<and> cont b' = drop n (cont b) \<and> invar b' \<and> cap b' = cap b"
proof -
  from assms have "get b n \<noteq> None" using get_None by auto
  then obtain bs b' where g: "get b n = Some (bs, b')" by auto
  with get_Some [OF assms(1) g] show ?thesis by auto
qed

lemma get_splits: "invar b \<Longrightarrow> get b n = Some (bs, b') \<Longrightarrow> cont b = bs @ cont b' \<and> length bs = n"
  using get_Some by (fastforce simp: min_def)

lemma puts_unbounded:
  assumes "invar b" and "cap b = None"
  shows "cont (foldl (\<lambda>b bs. snd (put b bs)) b bss) = cont b @ concat bss \<and>
         invar (foldl (\<lambda>b bs. snd (put b bs)) b bss) \<and>
         cap (foldl (\<lambda>b bs. snd (put b bs)) b bss) = None"
  using assms
proof (induction bss arbitrary: b)
  case (Cons bs bss)
  have "fst (put b bs)" using Cons.prems put_accepts [of b bs] by (simp add: fits_def)
  then have "cont (snd (put b bs)) = cont b @ bs" using Cons.prems put_cont by simp
  moreover have "invar (snd (put b bs))" "cap (snd (put b bs)) = None"
    using Cons.prems put_invar put_cap by simp_all
  ultimately show ?case using Cons.IH [of "snd (put b bs)"] by simp
qed simp

lemma get_after_puts:
  assumes "invar b" and "cap b = None" and "cont b = []"
  shows "\<exists>b'. get (foldl (\<lambda>b bs. snd (put b bs)) b bss) (length (concat bss)) = Some (concat bss, b') \<and>
              cont b' = []"
  using get_available [of "foldl (\<lambda>b bs. snd (put b bs)) b bss" "length (concat bss)"]
    puts_unbounded [OF assms(1,2), of bss] assms(3) by auto

end

interpretation buf: byte_fifo buf_ok contents limit Write Read
proof unfold_locales
  fix b n bs b' assume "buf_ok b" "Read b n = Some (bs, b')"
  then show "bs = take n (contents b) \<and> contents b' = drop n (contents b) \<and> buf_ok b' \<and>
    limit b' = limit b \<and> n \<le> length (contents b)"
    by (rule Read_refine(2))
qed (simp_all add: Write_refine Read_refine(1))

lemma Puts_refine [buf_simps]:
  assumes "buf_ok b" and "limit b = None"
  shows "contents (foldl Put b bss) = contents b @ concat bss" and "buf_ok (foldl Put b bss)"
    and "limit (foldl Put b bss) = None"
proof -
  have eq: "(\<lambda>b bs. snd (Write b bs)) = Put" by (simp add: fun_eq_iff Put_def)
  show "contents (foldl Put b bss) = contents b @ concat bss" "buf_ok (foldl Put b bss)"
    "limit (foldl Put b bss) = None"
    using buf.puts_unbounded [OF assms, of bss] unfolding eq by simp_all
qed

section \<open>The buffer implements the bounded queue\<close>

text \<open>One call of a client: \<open>OFill\<close> is the reserve, copy, mark-written sequence of the
  socket readers, which copy at most the room they were given; \<open>OConsume\<close> is
  \<open>MarkRead\<close> of at most what is available.\<close>

datatype buf_op =
    OWrite "byte list"
  | ORead nat
  | OReadString nat
  | OFill nat "byte list"
  | OConsume nat
  | OClear
  | OCompact

datatype buf_res = RBool bool | RBytes "byte list option" | RNone

fun buf_step :: "Buffer \<Rightarrow> buf_op \<Rightarrow> buf_res \<times> Buffer" where
  "buf_step b (OWrite bs) = (let (ok, b') = Write b bs in (RBool ok, b'))"
| "buf_step b (ORead n) =
     (case Read b n of None \<Rightarrow> (RBytes None, b) | Some (bs, b') \<Rightarrow> (RBytes (Some bs), b'))"
| "buf_step b (OReadString n) =
     (case Read_string b n of None \<Rightarrow> (RBytes None, b) | Some (bs, b') \<Rightarrow> (RBytes (Some bs), b'))"
| "buf_step b (OFill n bs) =
     (let (room, b1) = Reserve b n; c = take (min n room) bs
      in (RNone, MarkWritten (fill b1 c) (length c)))"
| "buf_step b (OConsume n) = (RNone, MarkRead b (min n (ReadAvailable b)))"
| "buf_step b OClear = (RNone, Clear b)"
| "buf_step b OCompact = (RNone, Compact b)"

type_synonym qstate = "byte list \<times> nat option"

definition free :: "qstate \<Rightarrow> nat option" where
  "free q = map_option (\<lambda>l. l - length (fst q)) (snd q)"

fun q_step :: "qstate \<Rightarrow> buf_op \<Rightarrow> buf_res \<times> qstate" where
  "q_step (q, l) (OWrite bs) =
     (if fits l (length q + length bs) then (RBool True, (q @ bs, l)) else (RBool False, (q, l)))"
| "q_step (q, l) (ORead n) =
     (if n \<le> length q then (RBytes (Some (take n q)), (drop n q, l)) else (RBytes None, (q, l)))"
| "q_step (q, l) (OReadString n) =
     (if n \<le> length q then (RBytes (Some (take n q)), (drop n q, l)) else (RBytes None, (q, l)))"
| "q_step (q, l) (OFill n bs) =
     (RNone, (q @ take (case free (q, l) of Some k \<Rightarrow> min n k | None \<Rightarrow> n) bs, l))"
| "q_step (q, l) (OConsume n) = (RNone, (drop n q, l))"
| "q_step (q, l) OClear = (RNone, ([], l))"
| "q_step (q, l) OCompact = (RNone, (q, l))"

definition buf_abs :: "Buffer \<Rightarrow> qstate" where
  "buf_abs b = (contents b, limit b)"

fun run :: "('s \<Rightarrow> 'o \<Rightarrow> 'r \<times> 's) \<Rightarrow> 's \<Rightarrow> 'o list \<Rightarrow> 'r list \<times> 's" where
  "run step s [] = ([], s)"
| "run step s (o1 # os) =
     (let (r, s1) = step s o1; (rs, s2) = run step s1 os in (r # rs, s2))"

text \<open>A step function simulates another through an abstraction under an invariant: the same
  results and related states, so whole runs agree.\<close>

lemma run_simulation:
  assumes step: "\<And>s op. I s \<Longrightarrow> I (snd (f s op)) \<and> g (h s) op = (fst (f s op), h (snd (f s op)))"
    and "I s"
  shows "I (snd (run f s ops)) \<and> run g (h s) ops = (fst (run f s ops), h (snd (run f s ops)))"
  using assms(2)
proof (induction ops arbitrary: s)
  case (Cons op ops)
  then have "I (snd (f s op))" using step by blast
  from Cons.IH [OF this] step [OF Cons.prems, of op] show ?case
    by (simp add: split_beta Let_def)
qed simp

lemma fits_contents: "buf_ok b \<Longrightarrow> fits (limit b) (length (contents b))"
  by (auto simp: buf_ok_def fits_def length_contents split: option.splits)

lemma Reserve_room_iff:
  assumes ok: "buf_ok b" and R: "Reserve b n = (room, b')"
  shows "n \<le> room \<longleftrightarrow> fits (limit b) (length (contents b) + n)"
proof (cases "fits (limit b) (length (contents b) + n)")
  case True
  then show ?thesis using Reserve_refine(5) [OF assms] by simp
next
  case False
  then have "room + length (contents b) = the (limit b)" "limit b \<noteq> None"
    using Reserve_refine(6) [OF assms] by (auto simp: fits_def split: option.splits)
  with False show ?thesis by (auto simp: fits_def)
qed

lemma fill_room:
  assumes ok: "buf_ok b" and R: "Reserve b n = (room, b')"
  shows "min n room = (case free (contents b, limit b) of Some k \<Rightarrow> min n k | None \<Rightarrow> n)"
proof (cases "fits (limit b) (length (contents b) + n)")
  case True
  then have "n \<le> room" using Reserve_room_iff [OF assms] by simp
  with True show ?thesis by (auto simp: free_def fits_def min_def split: option.splits)
next
  case False
  then have "room + length (contents b) = the (limit b)" "limit b \<noteq> None"
    using Reserve_refine(6) [OF assms] by (auto simp: fits_def split: option.splits)
  then show ?thesis by (auto simp: free_def)
qed

lemma buf_step_refine:
  assumes ok: "buf_ok b"
  shows "buf_ok (snd (buf_step b op)) \<and>
         q_step (buf_abs b) op = (fst (buf_step b op), buf_abs (snd (buf_step b op)))"
proof (cases op)
  case (OWrite bs)
  then show ?thesis using Write_refine [OF ok, of bs]
    by (auto simp: buf_abs_def split_beta Let_def)
next
  case (ORead n)
  then show ?thesis using ok Read_refine [OF ok, of n]
    by (cases "Read b n") (auto simp: buf_abs_def)
next
  case (OReadString n)
  then show ?thesis using ok Read_refine [OF ok, of n] Read_string_eq [OF ok, of n]
    by (cases "Read b n") (auto simp: buf_abs_def)
next
  case (OFill n bs)
  obtain room b1 where R: "Reserve b n = (room, b1)" by fastforce
  note r = Reserve_refine [OF ok R]
  have "length (take (min n room) bs) \<le> length (bdata b1) - write_head b1" using r(4) by simp
  note f = fill_MarkWritten [OF r(2) this]
  show ?thesis using R f r fill_room [OF ok R] OFill by (simp add: buf_abs_def Let_def)
next
  case (OConsume n)
  then show ?thesis using ok by (simp add: buf_abs_def min_def)
qed (use ok in \<open>simp_all add: buf_abs_def\<close>)

text \<open>C7: every sequence of buffer operations on a new buffer, unlimited or with a limit, gives
  exactly the results and the remaining bytes of the bounded byte queue, and keeps the two heads
  in range.\<close>

theorem buffer_refines_bounded_queue:
  "run q_step ([], lim) ops =
     (let b0 = (case lim of None \<Rightarrow> Buffer_new | Some l \<Rightarrow> Buffer_limited l);
          (rs, b) = run buf_step b0 ops
      in (rs, buf_abs b)) \<and>
   buf_ok (snd (run buf_step (case lim of None \<Rightarrow> Buffer_new | Some l \<Rightarrow> Buffer_limited l) ops))"
proof -
  let ?b0 = "case lim of None \<Rightarrow> Buffer_new | Some l \<Rightarrow> Buffer_limited l"
  have b0: "buf_ok ?b0" "buf_abs ?b0 = ([], lim)"
    by (auto simp: buf_abs_def split: option.splits)
  show ?thesis
    using run_simulation [where I = buf_ok and f = buf_step and g = q_step and h = buf_abs,
        OF buf_step_refine b0(1), of ops] b0(2)
    by (simp add: split_beta Let_def)
qed

section \<open>Moving bytes from one buffer to another\<close>

lemma Read_Buffer_unlimited [buf_simps]:
  assumes b: "buf_ok b" and o: "buf_ok other" "limit other = None" and n: "n \<le> length (contents b)"
  obtains b' o' where "Read_Buffer b other n = Some (True, b', o')"
    "contents b' = drop n (contents b)" "buf_ok b'" "limit b' = limit b"
    "contents o' = contents other @ take n (contents b)" "buf_ok o'" "limit o' = None"
proof -
  obtain room o1 where R: "Reserve other n = (room, o1)" by fastforce
  note r = Reserve_refine [OF o(1) R]
  have room: "n \<le> room" using r(5) o(2) by (simp add: fits_def)
  obtain b' where b': "Read b n = Some (take n (contents b), b')"
    "contents b' = drop n (contents b)" "buf_ok b'" "limit b' = limit b"
    using Read_Some [OF b n] by blast
  have len: "length (take n (contents b)) = n" using n by simp
  have "length (take n (contents b)) \<le> length (bdata o1) - write_head o1"
    using room r(4) len by simp
  note f = fill_MarkWritten [OF r(2) this, unfolded len]
  show ?thesis
    using that [of b' "MarkWritten (fill o1 (take n (contents b))) n"] f R b' room r o
    by (simp add: Read_Buffer_def)
qed

text \<open>\<open>Read (Buffer &other, size_t size)\<close> writes past the end of \<open>other\<close> exactly
  when the source has the bytes and \<open>other\<close>'s limit leaves no room for them; in every other
  case it moves the bytes or, when the source is too short, changes neither queue.\<close>

theorem read_buffer_overflow_iff:
  assumes "buf_ok b" and "buf_ok other"
  shows "Read_Buffer b other n = None \<longleftrightarrow>
           n \<le> length (contents b) \<and> \<not> fits (limit other) (length (contents other) + n)"
proof -
  obtain room o1 where R: "Reserve other n = (room, o1)" by fastforce
  note Reserve_room_iff [OF assms(2) R]
  then show ?thesis
    using R Read_refine(1) [OF assms(1), of n]
    by (auto simp: Read_Buffer_def split: option.splits)
qed

theorem read_buffer_overflow_iff_witness:
  "Read_Buffer (Buffer_of_vector [1, 2, 3]) (Buffer_limited 2) 3 = None"
  using read_buffer_overflow_iff [of "Buffer_of_vector [1, 2, 3]" "Buffer_limited 2" 3]
  by (simp add: fits_def)

end
