(* ===== verification/Protocol.thy ===== *)
theory Protocol
  imports Buffer
begin

text \<open>
  The wire protocol (src/common/Protocol.hpp) and the result codes (src/common/err.hpp): the
  message header with its memory layout, the command numbers of the nine interfaces, and
  \<open>TWILI_RESULT\<close>.
\<close>

section \<open>Message header\<close>

text \<open>The two unions are one field each: \<open>mh_client_id\<close> is also \<open>device_id\<close>, and
  \<open>mh_command_id\<close> is also \<open>result_code\<close>. The structure is aligned to 8, so four bytes
  of padding follow \<open>object_count\<close>; they are copied with it.\<close>

record MessageHeader =
  mh_client_id :: u32
  mh_object_id :: u32
  mh_command_id :: u32
  mh_tag :: u32
  mh_payload_size :: u64
  mh_object_count :: u32
  mh_padding :: u32

definition sizeof_MessageHeader :: nat where
  "sizeof_MessageHeader = 32"

definition mh_bytes :: "MessageHeader \<Rightarrow> byte list" where
  "mh_bytes h = bytes32 (mh_client_id h) @ bytes32 (mh_object_id h) @ bytes32 (mh_command_id h) @
     bytes32 (mh_tag h) @ bytes64 (mh_payload_size h) @ bytes32 (mh_object_count h) @
     bytes32 (mh_padding h)"

definition mh_of_bytes :: "byte list \<Rightarrow> MessageHeader" where
  "mh_of_bytes bs = \<lparr>
     mh_client_id = word32 (take 4 bs),
     mh_object_id = word32 (take 4 (drop 4 bs)),
     mh_command_id = word32 (take 4 (drop 8 bs)),
     mh_tag = word32 (take 4 (drop 12 bs)),
     mh_payload_size = word64 (take 8 (drop 16 bs)),
     mh_object_count = word32 (take 4 (drop 24 bs)),
     mh_padding = word32 (take 4 (drop 28 bs))\<rparr>"

lemma length_mh_bytes [simp]: "length (mh_bytes h) = 32"
  by (simp add: mh_bytes_def)

lemma mh_of_bytes_bytes [simp]: "mh_of_bytes (mh_bytes h) = h"
  by (simp add: mh_of_bytes_def mh_bytes_def)

lemma split_at: "n \<le> m \<Longrightarrow> drop n bs = take (m - n) (drop n bs) @ drop m bs"
  by (metis append_take_drop_id drop_drop le_add_diff_inverse2)

lemma mh_bytes_of_bytes: "length bs = 32 \<Longrightarrow> mh_bytes (mh_of_bytes bs) = bs"
proof -
  assume l: "length bs = 32"
  have "bs = take 4 bs @ take 4 (drop 4 bs) @ take 4 (drop 8 bs) @ take 4 (drop 12 bs) @
      take 8 (drop 16 bs) @ take 4 (drop 24 bs) @ take 4 (drop 28 bs)"
    using split_at [of 0 4 bs] split_at [of 4 8 bs] split_at [of 8 12 bs] split_at [of 12 16 bs]
      split_at [of 16 24 bs] split_at [of 24 28 bs] split_at [of 28 32 bs] l by simp
  then show ?thesis using l by (simp add: mh_bytes_def mh_of_bytes_def bytes32_word32 bytes64_word64)
qed

text \<open>\<open>Buffer::Read (protocol::MessageHeader &)\<close>, the standard-layout template at the
  header.\<close>

definition Read_header :: "Buffer \<Rightarrow> (MessageHeader \<times> Buffer) option" where
  "Read_header b = map_option (\<lambda>(bs, b'). (mh_of_bytes bs, b')) (Read b sizeof_MessageHeader)"

lemma Read_header_Some:
  assumes ok: "buf_ok b" and c: "contents b = mh_bytes h @ rest"
  obtains b' where "Read_header b = Some (h, b')" "contents b' = rest" "buf_ok b'" "limit b' = limit b"
proof -
  have "32 \<le> length (contents b)" using c by simp
  from Read_Some [OF ok this] obtain b' where "Read b 32 = Some (take 32 (contents b), b')"
    "contents b' = drop 32 (contents b)" "buf_ok b'" "limit b' = limit b" .
  with c show ?thesis using that by (simp add: Read_header_def sizeof_MessageHeader_def)
qed

lemma Read_header_None [simp]:
  "buf_ok b \<Longrightarrow> Read_header b = None \<longleftrightarrow> length (contents b) < 32"
  using Read_refine(1) [of b 32] by (simp add: Read_header_def sizeof_MessageHeader_def)

lemma Read_header_SomeD:
  assumes ok: "buf_ok b" and "Read_header b = Some (h, b')"
  shows "contents b = mh_bytes h @ contents b'" "buf_ok b'" "limit b' = limit b"
proof -
  from assms obtain bs where r: "Read b 32 = Some (bs, b')" and h: "h = mh_of_bytes bs"
    by (auto simp: Read_header_def sizeof_MessageHeader_def)
  note f = Read_refine(2) [OF ok r]
  then have "length bs = 32" by simp
  then have "mh_bytes h = bs" unfolding h by (rule mh_bytes_of_bytes)
  with f show "contents b = mh_bytes h @ contents b'" "buf_ok b'" "limit b' = limit b" by auto
qed

section \<open>Commands\<close>

datatype MetaCommand = Meta_LIST_DEVICES | Meta_CONNECT_TCP

datatype DeviceCommand =
    Dev_CREATE_MONITORED_PROCESS | Dev_REBOOT | Dev_COREDUMP | Dev_TERMINATE | Dev_LIST_PROCESSES
  | Dev_UPGRADE_TWILI | Dev_IDENTIFY | Dev_LIST_NAMED_PIPES | Dev_OPEN_NAMED_PIPE
  | Dev_OPEN_ACTIVE_DEBUGGER | Dev_GET_MEMORY_INFO | Dev_PRINT_DEBUG_INFO
  | Dev_LAUNCH_UNMONITORED_PROCESS | Dev_OPEN_FILESYSTEM_ACCESSOR | Dev_WAIT_TO_DEBUG_APPLICATION
  | Dev_WAIT_TO_DEBUG_TITLE | Dev_REBOOT_UNSAFE

datatype PipeReaderCommand = PipeReader_READ

datatype PipeWriterCommand = PipeWriter_WRITE | PipeWriter_CLOSE

datatype DebuggerCommand =
    Dbg_QUERY_MEMORY | Dbg_READ_MEMORY | Dbg_WRITE_MEMORY | Dbg_LIST_THREADS | Dbg_GET_DEBUG_EVENT
  | Dbg_GET_THREAD_CONTEXT | Dbg_BREAK_PROCESS | Dbg_CONTINUE_DEBUG_EVENT | Dbg_SET_THREAD_CONTEXT
  | Dbg_GET_NSO_INFOS | Dbg_WAIT_EVENT | Dbg_GET_TARGET_ENTRY | Dbg_LAUNCH_DEBUG_PROCESS
  | Dbg_GET_NRO_INFOS

datatype ProcessMonitorCommand =
    PM_LAUNCH | PM_LAUNCH_SUSPENDED | PM_TERMINATE | PM_APPEND_CODE | PM_OPEN_STDIN | PM_OPEN_STDOUT
  | PM_OPEN_STDERR | PM_WAIT_STATE_CHANGE

datatype FilesystemCommand =
    FS_CREATE_FILE | FS_DELETE_FILE | FS_CREATE_DIRECTORY | FS_DELETE_DIRECTORY
  | FS_DELETE_DIRECTORY_RECURSIVELY | FS_RENAME_FILE | FS_RENAME_DIRECTORY | FS_GET_ENTRY_TYPE
  | FS_OPEN_FILE | FS_OPEN_DIRECTORY

datatype FileCommand = File_READ | File_WRITE | File_FLUSH | File_SET_SIZE | File_GET_SIZE

datatype DirectoryCommand = Dir_READ | Dir_GET_ENTRY_COUNT

fun meta_command_id :: "MetaCommand \<Rightarrow> u32" where
  "meta_command_id Meta_LIST_DEVICES = 10"
| "meta_command_id Meta_CONNECT_TCP = 11"

fun device_command_id :: "DeviceCommand \<Rightarrow> u32" where
  "device_command_id Dev_CREATE_MONITORED_PROCESS = 10"
| "device_command_id Dev_REBOOT = 11"
| "device_command_id Dev_COREDUMP = 12"
| "device_command_id Dev_TERMINATE = 13"
| "device_command_id Dev_LIST_PROCESSES = 14"
| "device_command_id Dev_UPGRADE_TWILI = 15"
| "device_command_id Dev_IDENTIFY = 16"
| "device_command_id Dev_LIST_NAMED_PIPES = 17"
| "device_command_id Dev_OPEN_NAMED_PIPE = 18"
| "device_command_id Dev_OPEN_ACTIVE_DEBUGGER = 19"
| "device_command_id Dev_GET_MEMORY_INFO = 20"
| "device_command_id Dev_PRINT_DEBUG_INFO = 21"
| "device_command_id Dev_LAUNCH_UNMONITORED_PROCESS = 22"
| "device_command_id Dev_OPEN_FILESYSTEM_ACCESSOR = 23"
| "device_command_id Dev_WAIT_TO_DEBUG_APPLICATION = 24"
| "device_command_id Dev_WAIT_TO_DEBUG_TITLE = 25"
| "device_command_id Dev_REBOOT_UNSAFE = 26"

fun pipe_reader_command_id :: "PipeReaderCommand \<Rightarrow> u32" where
  "pipe_reader_command_id PipeReader_READ = 10"

fun pipe_writer_command_id :: "PipeWriterCommand \<Rightarrow> u32" where
  "pipe_writer_command_id PipeWriter_WRITE = 10"
| "pipe_writer_command_id PipeWriter_CLOSE = 11"

fun debugger_command_id :: "DebuggerCommand \<Rightarrow> u32" where
  "debugger_command_id Dbg_QUERY_MEMORY = 10"
| "debugger_command_id Dbg_READ_MEMORY = 11"
| "debugger_command_id Dbg_WRITE_MEMORY = 12"
| "debugger_command_id Dbg_LIST_THREADS = 13"
| "debugger_command_id Dbg_GET_DEBUG_EVENT = 14"
| "debugger_command_id Dbg_GET_THREAD_CONTEXT = 15"
| "debugger_command_id Dbg_BREAK_PROCESS = 16"
| "debugger_command_id Dbg_CONTINUE_DEBUG_EVENT = 17"
| "debugger_command_id Dbg_SET_THREAD_CONTEXT = 18"
| "debugger_command_id Dbg_GET_NSO_INFOS = 19"
| "debugger_command_id Dbg_WAIT_EVENT = 20"
| "debugger_command_id Dbg_GET_TARGET_ENTRY = 21"
| "debugger_command_id Dbg_LAUNCH_DEBUG_PROCESS = 22"
| "debugger_command_id Dbg_GET_NRO_INFOS = 24"

fun process_monitor_command_id :: "ProcessMonitorCommand \<Rightarrow> u32" where
  "process_monitor_command_id PM_LAUNCH = 10"
| "process_monitor_command_id PM_LAUNCH_SUSPENDED = 11"
| "process_monitor_command_id PM_TERMINATE = 12"
| "process_monitor_command_id PM_APPEND_CODE = 13"
| "process_monitor_command_id PM_OPEN_STDIN = 14"
| "process_monitor_command_id PM_OPEN_STDOUT = 15"
| "process_monitor_command_id PM_OPEN_STDERR = 16"
| "process_monitor_command_id PM_WAIT_STATE_CHANGE = 17"

fun filesystem_command_id :: "FilesystemCommand \<Rightarrow> u32" where
  "filesystem_command_id FS_CREATE_FILE = 10"
| "filesystem_command_id FS_DELETE_FILE = 11"
| "filesystem_command_id FS_CREATE_DIRECTORY = 12"
| "filesystem_command_id FS_DELETE_DIRECTORY = 13"
| "filesystem_command_id FS_DELETE_DIRECTORY_RECURSIVELY = 14"
| "filesystem_command_id FS_RENAME_FILE = 15"
| "filesystem_command_id FS_RENAME_DIRECTORY = 16"
| "filesystem_command_id FS_GET_ENTRY_TYPE = 17"
| "filesystem_command_id FS_OPEN_FILE = 18"
| "filesystem_command_id FS_OPEN_DIRECTORY = 19"

fun file_command_id :: "FileCommand \<Rightarrow> u32" where
  "file_command_id File_READ = 10"
| "file_command_id File_WRITE = 11"
| "file_command_id File_FLUSH = 12"
| "file_command_id File_SET_SIZE = 13"
| "file_command_id File_GET_SIZE = 14"

fun directory_command_id :: "DirectoryCommand \<Rightarrow> u32" where
  "directory_command_id Dir_READ = 10"
| "directory_command_id Dir_GET_ENTRY_COUNT = 11"

text \<open>The command that closes an object, checked before an interface's own commands.\<close>

definition CLOSE_COMMAND :: u32 where
  "CLOSE_COMMAND = 0xffffffff"

section \<open>Result codes\<close>

definition TWILI_RESULT :: "nat \<Rightarrow> u32" where
  "TWILI_RESULT code = push_bit 9 (of_nat code) OR 0xEF"

definition RESULT_OK :: u32 where "RESULT_OK = 0"
definition TWILI_ERR_INVALID_NRO :: u32 where "TWILI_ERR_INVALID_NRO = TWILI_RESULT 1"
definition TWILI_ERR_UNRECOGNIZED_PID :: u32 where "TWILI_ERR_UNRECOGNIZED_PID = TWILI_RESULT 7"
definition TWILI_ERR_IO_ERROR :: u32 where "TWILI_ERR_IO_ERROR = TWILI_RESULT 10"
definition TWILI_ERR_EOF :: u32 where "TWILI_ERR_EOF = TWILI_RESULT 13"
definition TWILI_ERR_INVALID_PIPE_STATE :: u32 where
  "TWILI_ERR_INVALID_PIPE_STATE = TWILI_RESULT 14"
definition TWILI_ERR_ALREADY_WAITING :: u32 where "TWILI_ERR_ALREADY_WAITING = TWILI_RESULT 18"
definition TWILI_ERR_FATAL_BRIDGE_STATE :: u32 where
  "TWILI_ERR_FATAL_BRIDGE_STATE = TWILI_RESULT 19"
definition TWILI_ERR_APPLET_TRACKER_INVALID_STATE :: u32 where
  "TWILI_ERR_APPLET_TRACKER_INVALID_STATE = TWILI_RESULT 24"
definition TWILI_ERR_TRACKER_NO_PROCESSES_CREATED :: u32 where
  "TWILI_ERR_TRACKER_NO_PROCESSES_CREATED = TWILI_RESULT 25"
definition TWILI_ERR_MONITORED_PROCESS_ALREADY_ATTACHED :: u32 where
  "TWILI_ERR_MONITORED_PROCESS_ALREADY_ATTACHED = TWILI_RESULT 28"
definition TWILI_ERR_UNSPECIFIED :: u32 where "TWILI_ERR_UNSPECIFIED = TWILI_RESULT 37"
definition TWILI_ERR_APPLET_SHIM_NO_COMMANDS_LEFT :: u32 where
  "TWILI_ERR_APPLET_SHIM_NO_COMMANDS_LEFT = TWILI_RESULT 23"
definition TWILI_ERR_TOO_MANY_MODULES :: u32 where "TWILI_ERR_TOO_MANY_MODULES = TWILI_RESULT 31"
definition TWILI_ERR_INTERRUPTED :: u32 where "TWILI_ERR_INTERRUPTED = TWILI_RESULT 32"
definition TWILI_ERR_NO_MODULES :: u32 where "TWILI_ERR_NO_MODULES = TWILI_RESULT 34"
definition TWILI_ERR_INVALID_PROCESS_STATE :: u32 where
  "TWILI_ERR_INVALID_PROCESS_STATE = TWILI_RESULT 36"
definition TWILI_ERR_SYSTEM_VERSION_NOT_SET :: u32 where
  "TWILI_ERR_SYSTEM_VERSION_NOT_SET = TWILI_RESULT 40"
definition TWILI_ERR_SYSTEM_VERSION_ALREADY_SET :: u32 where
  "TWILI_ERR_SYSTEM_VERSION_ALREADY_SET = TWILI_RESULT 40"
definition TWILI_ERR_NO_LONGER_REQUESTED_TO_LAUNCH :: u32 where
  "TWILI_ERR_NO_LONGER_REQUESTED_TO_LAUNCH = TWILI_RESULT 44"
definition TWILI_ERR_ECS_CONFUSED :: u32 where "TWILI_ERR_ECS_CONFUSED = TWILI_RESULT 45"
definition TWILI_ERR_PROTOCOL_UNRECOGNIZED_OBJECT :: u32 where
  "TWILI_ERR_PROTOCOL_UNRECOGNIZED_OBJECT = TWILI_RESULT 1001"
definition TWILI_ERR_PROTOCOL_UNRECOGNIZED_FUNCTION :: u32 where
  "TWILI_ERR_PROTOCOL_UNRECOGNIZED_FUNCTION = TWILI_RESULT 1002"
definition TWILI_ERR_PROTOCOL_UNRECOGNIZED_DEVICE :: u32 where
  "TWILI_ERR_PROTOCOL_UNRECOGNIZED_DEVICE = TWILI_RESULT 1004"
definition TWILI_ERR_PROTOCOL_BAD_REQUEST :: u32 where
  "TWILI_ERR_PROTOCOL_BAD_REQUEST = TWILI_RESULT 1005"
definition TWILI_ERR_PROTOCOL_BAD_RESPONSE :: u32 where
  "TWILI_ERR_PROTOCOL_BAD_RESPONSE = TWILI_RESULT 1006"

text \<open>Every code the header file defines, in its order; \<open>TIPC_\<close> marks the codes of
  \<open>TWILI_TIPC_ERR_\<close>.\<close>

definition twili_errors :: "(string \<times> nat) list" where
  "twili_errors = [
    (''INVALID_NRO'', 1),
    (''NO_CRASHED_PROCESSES'', 2),
    (''FATAL_USB_TRANSFER'', 4),
    (''UNRECOGNIZED_PID'', 7),
    (''UNRECOGNIZED_HANDLE_PLACEHOLDER'', 8),
    (''IO_ERROR'', 10),
    (''WONT_DEBUG_SELF'', 11),
    (''INVALID_PIPE'', 12),
    (''EOF'', 13),
    (''INVALID_PIPE_STATE'', 14),
    (''PIPE_ALREADY_EXISTS'', 15),
    (''NO_SUCH_PIPE'', 16),
    (''ALREADY_WAITING'', 18),
    (''FATAL_BRIDGE_STATE'', 19),
    (''APPLET_SHIM_UNKNOWN_MODE'', 21),
    (''APPLET_SHIM_WRONG_MODE'', 22),
    (''APPLET_SHIM_NO_COMMANDS_LEFT'', 23),
    (''APPLET_TRACKER_INVALID_STATE'', 24),
    (''TRACKER_NO_PROCESSES_CREATED'', 25),
    (''MONITORED_PROCESS_ALREADY_ATTACHED'', 28),
    (''UNRECOGNIZED_MONITORED_PROCESS_TYPE'', 30),
    (''TOO_MANY_MODULES'', 31),
    (''INTERRUPTED'', 32),
    (''NO_MODULES'', 34),
    (''UNKNOWN_FILESYSTEM'', 35),
    (''INVALID_PROCESS_STATE'', 36),
    (''UNSPECIFIED'', 37),
    (''SYSMODULE_BEING_DEBUGGED'', 38),
    (''INVALID_DEBUGGER_STATE'', 39),
    (''SYSTEM_VERSION_NOT_SET'', 40),
    (''SYSTEM_VERSION_ALREADY_SET'', 40),
    (''OPERATION_NOT_SUPPORTED_FOR_SYSTEM_VERSION'', 41),
    (''TODO'', 42),
    (''USB_SERIAL_INIT_FAILED'', 43),
    (''NO_LONGER_REQUESTED_TO_LAUNCH'', 44),
    (''ECS_CONFUSED'', 45),
    (''WATCHDOG_EXPIRED'', 46),
    (''PROTOCOL_UNRECOGNIZED_OBJECT'', 1001),
    (''PROTOCOL_UNRECOGNIZED_FUNCTION'', 1002),
    (''PROTOCOL_TRANSFER_ERROR'', 1003),
    (''PROTOCOL_UNRECOGNIZED_DEVICE'', 1004),
    (''PROTOCOL_BAD_REQUEST'', 1005),
    (''PROTOCOL_BAD_RESPONSE'', 1006),
    (''TIPC_UNEXPECTED_RESPONSE_TAG'', 2001),
    (''TIPC_UNEXPECTED_RESPONSE_RAW_COUNT'', 2002),
    (''TIPC_UNEXPECTED_RESPONSE_SPECIAL_HEADER'', 2003),
    (''TIPC_UNEXPECTED_RESPONSE_COPY_HANDLE_COUNT'', 2004),
    (''TIPC_UNEXPECTED_RESPONSE_MOVE_HANDLE_COUNT'', 2005),
    (''TIPC_UNEXPECTED_RESPONSE_PID'', 2006)]"

lemmas twili_err_defs = TWILI_RESULT_def RESULT_OK_def TWILI_ERR_INVALID_NRO_def
  TWILI_ERR_UNRECOGNIZED_PID_def TWILI_ERR_IO_ERROR_def TWILI_ERR_EOF_def
  TWILI_ERR_INVALID_PIPE_STATE_def TWILI_ERR_ALREADY_WAITING_def TWILI_ERR_FATAL_BRIDGE_STATE_def
  TWILI_ERR_APPLET_TRACKER_INVALID_STATE_def TWILI_ERR_TRACKER_NO_PROCESSES_CREATED_def
  TWILI_ERR_MONITORED_PROCESS_ALREADY_ATTACHED_def TWILI_ERR_UNSPECIFIED_def
  TWILI_ERR_SYSTEM_VERSION_NOT_SET_def TWILI_ERR_SYSTEM_VERSION_ALREADY_SET_def
  TWILI_ERR_NO_LONGER_REQUESTED_TO_LAUNCH_def TWILI_ERR_ECS_CONFUSED_def
  TWILI_ERR_PROTOCOL_UNRECOGNIZED_OBJECT_def TWILI_ERR_PROTOCOL_UNRECOGNIZED_FUNCTION_def
  TWILI_ERR_PROTOCOL_UNRECOGNIZED_DEVICE_def TWILI_ERR_PROTOCOL_BAD_REQUEST_def
  TWILI_ERR_PROTOCOL_BAD_RESPONSE_def

section \<open>Properties\<close>

text \<open>The 32 bytes of a message header and its fields determine each other, so a header read
  from the wire and sent on again is the same bytes.\<close>

theorem message_header_roundtrip:
  "mh_of_bytes (mh_bytes h) = h \<and> length (mh_bytes h) = sizeof_MessageHeader \<and>
   (length bs = sizeof_MessageHeader \<longrightarrow> mh_bytes (mh_of_bytes bs) = bs)"
  by (simp add: mh_bytes_of_bytes sizeof_MessageHeader_def)

theorem message_header_roundtrip_witness:
  "mh_bytes (mh_of_bytes (replicate 32 7)) = replicate 32 7"
  using message_header_roundtrip [of undefined "replicate 32 7"]
  by (simp add: sizeof_MessageHeader_def)

lemma TWILI_RESULT_arith: "TWILI_RESULT c = of_nat (512 * c + 239)"
proof -
  have "(0xEF :: u32) = take_bit 9 0xEF" by simp
  then have low: "bit (0xEF :: u32) n \<Longrightarrow> n < 9" for n
    by (metis bit_take_bit_iff)
  have "push_bit 9 (of_nat c) OR 0xEF = push_bit 9 (of_nat c) + (0xEF :: u32)"
  proof (rule disjunctive_add [symmetric])
    fix n show "\<not> bit (push_bit 9 (of_nat c) :: u32) n \<or> \<not> bit (0xEF :: u32) n"
      using low [of n] unfolding bit_push_bit_iff by linarith
  qed
  then show ?thesis by (simp add: TWILI_RESULT_def push_bit_eq_mult mult.commute)
qed

lemma unat_TWILI_RESULT: "c < 2 ^ 22 \<Longrightarrow> unat (TWILI_RESULT c) = 512 * c + 239"
proof -
  assume "c < 2 ^ 22"
  then have "512 * c + 239 < 2 ^ LENGTH(32)" by simp
  then show ?thesis unfolding TWILI_RESULT_arith unat_of_nat by (rule mod_less)
qed

lemma TWILI_RESULT_inj: "inj_on TWILI_RESULT {c. c < 2 ^ 22}"
proof (rule inj_onI)
  fix c d assume cd: "c \<in> {c. c < 2 ^ 22}" "d \<in> {c. c < 2 ^ 22}" "TWILI_RESULT c = TWILI_RESULT d"
  then have "512 * c + 239 = 512 * d + 239"
    by (metis mem_Collect_eq unat_TWILI_RESULT)
  then show "c = d" by linarith
qed

lemma TWILI_RESULT_nonzero: "c < 2 ^ 22 \<Longrightarrow> TWILI_RESULT c \<noteq> 0"
  by (metis add_eq_0_iff_both_eq_0 unat_TWILI_RESULT unsigned_0 zero_neq_numeral)

text \<open>The result codes of the header file are pairwise different and none is the success
  code 0, except that \<open>SYSTEM_VERSION_NOT_SET\<close> and \<open>SYSTEM_VERSION_ALREADY_SET\<close> are the
  same number.\<close>

theorem result_codes_collide_once:
  "distinct (map (\<lambda>e. TWILI_RESULT (snd e))
     (filter (\<lambda>e. fst e \<noteq> ''SYSTEM_VERSION_ALREADY_SET'') twili_errors)) \<and>
   TWILI_ERR_SYSTEM_VERSION_NOT_SET = TWILI_ERR_SYSTEM_VERSION_ALREADY_SET \<and>
   RESULT_OK \<notin> (\<lambda>e. TWILI_RESULT (snd e)) ` set twili_errors"
proof -
  let ?es = "filter (\<lambda>e. fst e \<noteq> ''SYSTEM_VERSION_ALREADY_SET'') twili_errors"
  have "sorted_wrt (<) (map snd ?es)"
    by (simp add: twili_errors_def)
  then have d: "distinct (map snd ?es)" by (simp only: strict_sorted_iff)
  have small: "\<forall>e \<in> set twili_errors. snd e < 2 ^ 22" by (simp add: twili_errors_def)
  then have "inj_on TWILI_RESULT (set (map snd ?es))"
    by (intro inj_on_subset [OF TWILI_RESULT_inj]) auto
  with d have "distinct (map TWILI_RESULT (map snd ?es))" using distinct_map [of TWILI_RESULT "map snd ?es"] by blast
  then have "distinct (map (\<lambda>e. TWILI_RESULT (snd e)) ?es)" by (simp add: comp_def)
  moreover have "RESULT_OK \<notin> (\<lambda>e. TWILI_RESULT (snd e)) ` set twili_errors"
    using small TWILI_RESULT_nonzero by (fastforce simp: RESULT_OK_def)
  ultimately show ?thesis
    by (simp add: TWILI_ERR_SYSTEM_VERSION_NOT_SET_def TWILI_ERR_SYSTEM_VERSION_ALREADY_SET_def)
qed

end
