(* ===== verification/TwibPipe.thy ===== *)
theory TwibPipe
  imports Protocol "HOL-Library.Multiset"
begin

text \<open>
  \<open>TwibPipe\<close> (src/twili/TwibPipe.hpp, src/twili/TwibPipe.cpp): the pipe between a monitored
  process and the host, a state machine over a size-limited buffer with asynchronous callbacks.

  A callback is a value: the reader's is its identity and the number of bytes it reports to have
  consumed of those offered, the writer's is its identity. Calling one is an event. No callback of
  the program closes the pipe or starts a read, so the checks after a reader callback that the
  pipe is still write-pending are never taken. A write that the writer's callback starts is the
  next operation. \<open>twili::Abort\<close> is the error result.
\<close>

section \<open>State and operations\<close>

datatype ReadCb = ReadCb (rid: nat) (consumes: "nat \<Rightarrow> nat")

text \<open>\<open>WritePending\<close> holds the bytes from \<open>wps.data\<close> on, \<open>wps.size\<close> of them.\<close>

datatype PipeState =
    IdleState
  | WritePendingState "byte list" nat
  | ReadPendingState ReadCb

record TwibPipe =
  tp_state :: PipeState
  tp_hit_eof :: bool
  tp_buffer :: Buffer

text \<open>\<open>EvRead r offered k\<close>: reader \<open>r\<close> is called with the bytes \<open>offered\<close> and returns
  \<open>k\<close>; \<open>EvEof\<close> is the call with the null pointer; \<open>EvWrite w eof\<close> is the call of the
  writer's callback.\<close>

datatype PipeEvent = EvRead nat "byte list" nat | EvEof nat | EvWrite nat bool

type_synonym pipe_result = "u32 + TwibPipe \<times> PipeEvent list"

definition TwibPipe_new :: "nat \<Rightarrow> TwibPipe" where
  "TwibPipe_new buffer_limit =
    \<lparr>tp_state = IdleState, tp_hit_eof = False, tp_buffer = Buffer_limited buffer_limit\<rparr>"

definition IsWriterClosed :: "TwibPipe \<Rightarrow> bool" where
  "IsWriterClosed p = tp_hit_eof p"

definition ExitWritePendingState :: "TwibPipe \<Rightarrow> nat \<Rightarrow> TwibPipe \<times> PipeEvent list" where
  "ExitWritePendingState p w = (p\<lparr>tp_state := IdleState\<rparr>, [EvWrite w False])"

text \<open>\<open>FlushWritePendingState\<close>: the bytes are copied behind the write head, which is not
  moved.\<close>

definition FlushWritePendingState ::
    "TwibPipe \<Rightarrow> byte list \<Rightarrow> nat \<Rightarrow> bool \<times> TwibPipe \<times> PipeEvent list" where
  "FlushWritePendingState p wdata w =
    (let (room, b1) = Reserve (tp_buffer p) (length wdata);
         allowed = min room (length wdata);
         p1 = p\<lparr>tp_buffer := fill b1 (take allowed wdata)\<rparr>
     in if allowed < length wdata
        then (False, p1\<lparr>tp_state := WritePendingState (drop room wdata) w\<rparr>, [])
        else (True, ExitWritePendingState p1 w))"

text \<open>The branch of \<open>Read\<close> for the idle state.\<close>

definition Read_idle :: "TwibPipe \<Rightarrow> ReadCb \<Rightarrow> TwibPipe \<times> PipeEvent list" where
  "Read_idle p cb =
    (if ReadAvailable (tp_buffer p) > 0 then
       (let k = consumes cb (ReadAvailable (tp_buffer p)) in
        (p\<lparr>tp_buffer := MarkRead (tp_buffer p) k\<rparr>, [EvRead (rid cb) (contents (tp_buffer p)) k]))
     else if tp_hit_eof p then (p, [EvEof (rid cb)])
     else (p\<lparr>tp_state := ReadPendingState cb\<rparr>, []))"

text \<open>The rest of a write-pending state, as the code reads it back through \<open>wps\<close>.\<close>

definition pending_data :: "TwibPipe \<Rightarrow> byte list" where
  "pending_data p = (case tp_state p of WritePendingState d _ \<Rightarrow> d | _ \<Rightarrow> [])"

definition pipe_Read :: "TwibPipe \<Rightarrow> ReadCb \<Rightarrow> pipe_result" where
  "pipe_Read p cb =
    (case tp_state p of
       IdleState \<Rightarrow> Inr (Read_idle p cb)
     | WritePendingState wdata w \<Rightarrow>
         (let (flushed, p1, evs1) = FlushWritePendingState p wdata w in
          if flushed then (let (p2, evs2) = Read_idle p1 cb in Inr (p2, evs1 @ evs2))
          else if ReadAvailable (tp_buffer p1) > 0 then
            (let k = consumes cb (ReadAvailable (tp_buffer p1));
                 ev = EvRead (rid cb) (contents (tp_buffer p1)) k;
                 p2 = p1\<lparr>tp_buffer := MarkRead (tp_buffer p1) k\<rparr>;
                 (_, p3, evs3) = FlushWritePendingState p2 (pending_data p1) w
             in Inr (p3, evs1 @ [ev] @ evs3))
          else
            (let wd = pending_data p1;
                 k = consumes cb (length wd);
                 ev = EvRead (rid cb) wd k
             in if k > length wd then Inl TWILI_ERR_INVALID_PIPE_STATE
                else
                  (let (_, p3, evs3) = FlushWritePendingState p1 (drop k wd) w
                   in Inr (p3, evs1 @ [ev] @ evs3))))
     | ReadPendingState _ \<Rightarrow> Inl TWILI_ERR_INVALID_PIPE_STATE)"

definition pipe_Write :: "TwibPipe \<Rightarrow> byte list \<Rightarrow> nat \<Rightarrow> pipe_result" where
  "pipe_Write p wdata w =
    (if length wdata = 0 \<or> tp_hit_eof p then Inr (p, [EvWrite w (tp_hit_eof p)])
     else
       (case tp_state p of
          IdleState \<Rightarrow>
            (let (ok, b1) = Write (tp_buffer p) wdata in
             if ok then Inr (p\<lparr>tp_buffer := b1\<rparr>, [EvWrite w False])
             else Inr (p\<lparr>tp_buffer := b1, tp_state := WritePendingState wdata w\<rparr>, []))
        | WritePendingState _ _ \<Rightarrow> Inl TWILI_ERR_INVALID_PIPE_STATE
        | ReadPendingState cb \<Rightarrow>
            (let k = consumes cb (length wdata); ev = EvRead (rid cb) wdata k in
             if k < length wdata
             then Inr (p\<lparr>tp_state := WritePendingState (drop k wdata) w\<rparr>, [ev])
             else if k = length wdata
             then Inr (p\<lparr>tp_state := IdleState\<rparr>, [ev, EvWrite w False])
             else Inl TWILI_ERR_INVALID_PIPE_STATE)))"

definition CloseReader :: "TwibPipe \<Rightarrow> TwibPipe \<times> PipeEvent list" where
  "CloseReader p =
    (p\<lparr>tp_hit_eof := True, tp_state := IdleState\<rparr>,
     case tp_state p of
       IdleState \<Rightarrow> []
     | WritePendingState _ w \<Rightarrow> [EvWrite w True]
     | ReadPendingState cb \<Rightarrow> [EvEof (rid cb)])"

definition CloseWriter :: "TwibPipe \<Rightarrow> TwibPipe \<times> PipeEvent list" where
  "CloseWriter p =
    (let p1 = p\<lparr>tp_hit_eof := True\<rparr> in
     case tp_state p of
       IdleState \<Rightarrow> (p1, [])
     | WritePendingState _ _ \<Rightarrow> (p1, [])
     | ReadPendingState cb \<Rightarrow> (p1\<lparr>tp_state := IdleState\<rparr>, [EvEof (rid cb)]))"

section \<open>Runs\<close>

datatype PipeOp = PRead ReadCb | PWrite "byte list" nat | PCloseReader | PCloseWriter

fun pipe_step :: "TwibPipe \<Rightarrow> PipeOp \<Rightarrow> pipe_result" where
  "pipe_step p (PRead cb) = pipe_Read p cb"
| "pipe_step p (PWrite d w) = pipe_Write p d w"
| "pipe_step p PCloseReader = Inr (CloseReader p)"
| "pipe_step p PCloseWriter = Inr (CloseWriter p)"

fun pipe_run :: "TwibPipe \<Rightarrow> PipeOp list \<Rightarrow> pipe_result" where
  "pipe_run p [] = Inr (p, [])"
| "pipe_run p (op # ops) =
    (case pipe_step p op of
       Inl e \<Rightarrow> Inl e
     | Inr (p1, evs) \<Rightarrow>
         (case pipe_run p1 ops of Inl e \<Rightarrow> Inl e | Inr (p2, evs2) \<Rightarrow> Inr (p2, evs @ evs2)))"

definition honest :: "ReadCb \<Rightarrow> bool" where
  "honest cb \<longleftrightarrow> (\<forall>n. consumes cb n \<le> n)"

fun op_honest :: "PipeOp \<Rightarrow> bool" where
  "op_honest (PRead cb) = honest cb"
| "op_honest _ = True"

definition pipe_ok :: "TwibPipe \<Rightarrow> bool" where
  "pipe_ok p \<longleftrightarrow> buf_ok (tp_buffer p) \<and>
     (case tp_state p of
        ReadPendingState cb \<Rightarrow> honest cb \<and> contents (tp_buffer p) = [] | _ \<Rightarrow> True)"

section \<open>Invariant\<close>

lemma pipe_ok_new: "pipe_ok (TwibPipe_new l)"
  by (simp add: pipe_ok_def TwibPipe_new_def)

lemma Flush_refine:
  assumes ok: "buf_ok (tp_buffer p)" and F: "FlushWritePendingState p d w = (r, p', evs)"
  shows "buf_ok (tp_buffer p')" and "contents (tp_buffer p') = contents (tp_buffer p)"
    and "limit (tp_buffer p') = limit (tp_buffer p)" and "tp_hit_eof p' = tp_hit_eof p"
    and "r \<longleftrightarrow> fits (limit (tp_buffer p)) (length (contents (tp_buffer p)) + length d)"
    and "r \<Longrightarrow> tp_state p' = IdleState \<and> evs = [EvWrite w False]"
    and "\<not> r \<Longrightarrow> evs = [] \<and> tp_state p' = WritePendingState
           (drop (the (limit (tp_buffer p)) - length (contents (tp_buffer p))) d) w"
proof -
  obtain room b1 where R: "Reserve (tp_buffer p) (length d) = (room, b1)" by fastforce
  note rr = Reserve_refine [OF ok R]
  have len: "length (take (min room (length d)) d) \<le> length (bdata b1) - write_head b1"
    using rr(4) by simp
  note f = fill_unmarked [OF rr(2) len]
  have room: "length d \<le> room \<longleftrightarrow> fits (limit (tp_buffer p)) (length (contents (tp_buffer p)) + length d)"
    using Reserve_room_iff [OF ok R] .
  show "buf_ok (tp_buffer p')" "contents (tp_buffer p') = contents (tp_buffer p)"
    "limit (tp_buffer p') = limit (tp_buffer p)" "tp_hit_eof p' = tp_hit_eof p"
    using F R f rr by (auto simp: FlushWritePendingState_def ExitWritePendingState_def Let_def
        split: if_splits)
  show r: "r \<longleftrightarrow> fits (limit (tp_buffer p)) (length (contents (tp_buffer p)) + length d)"
    unfolding room [symmetric] using F R
    by (auto simp: FlushWritePendingState_def Let_def split: if_splits)
  show "tp_state p' = IdleState \<and> evs = [EvWrite w False]" if r
    using that F R
    by (auto simp: FlushWritePendingState_def ExitWritePendingState_def Let_def split: if_splits)
  show "evs = [] \<and> tp_state p' = WritePendingState
      (drop (the (limit (tp_buffer p)) - length (contents (tp_buffer p))) d) w" if "\<not> r"
  proof -
    have "room = the (limit (tp_buffer p)) - length (contents (tp_buffer p))"
      using rr(6) r that by simp
    then show ?thesis using that F R by (auto simp: FlushWritePendingState_def Let_def split: if_splits)
  qed
qed

lemma Flush_ok:
  assumes "pipe_ok p" and "FlushWritePendingState p d w = (r, p', evs)"
  shows "pipe_ok p'"
  using assms Flush_refine [OF _ assms(2)] by (cases r) (simp_all add: pipe_ok_def)

lemma MarkRead_pipe_ok:
  assumes "pipe_ok p" and "k \<le> length (contents (tp_buffer p))"
  shows "pipe_ok (p\<lparr>tp_buffer := MarkRead (tp_buffer p) k\<rparr>)"
  using assms by (auto simp: pipe_ok_def split: PipeState.splits)

lemma Read_idle_ok:
  assumes "pipe_ok p" and "honest cb" and "tp_state p = IdleState"
  shows "pipe_ok (fst (Read_idle p cb))"
  using assms by (auto simp: Read_idle_def Let_def pipe_ok_def honest_def)

lemma Read_idle_frame [simp]:
  "tp_hit_eof (fst (Read_idle p cb)) = tp_hit_eof p"
  "limit (tp_buffer (fst (Read_idle p cb))) = limit (tp_buffer p)"
  by (simp_all add: Read_idle_def Let_def)

text \<open>A read of a write-pending pipe, by the two questions the code asks: did the parked write
  fit, and is there anything in the buffer. Only the parts every proof needs are listed.\<close>

lemma pipe_Read_pending:
  assumes ok: "pipe_ok p" and st: "tp_state p = WritePendingState d w" and h: "honest cb"
  obtains (flushed) p1 where
      "fits (limit (tp_buffer p)) (length (contents (tp_buffer p)) + length d)"
      "pipe_ok p1" "tp_state p1 = IdleState"
      "contents (tp_buffer p1) = contents (tp_buffer p)" "limit (tp_buffer p1) = limit (tp_buffer p)"
      "tp_hit_eof p1 = tp_hit_eof p"
      "pipe_Read p cb = Inr (fst (Read_idle p1 cb), EvWrite w False # snd (Read_idle p1 cb))"
  | (parked) p1 offered d' r3 p3 evs3 k where
      "\<not> fits (limit (tp_buffer p)) (length (contents (tp_buffer p)) + length d)"
      "if contents (tp_buffer p) = []
       then offered = drop (the (limit (tp_buffer p)) - length (contents (tp_buffer p))) d \<and>
         d' = drop k offered \<and> contents (tp_buffer p1) = []
       else offered = contents (tp_buffer p) \<and>
         d' = drop (the (limit (tp_buffer p)) - length (contents (tp_buffer p))) d \<and>
         contents (tp_buffer p1) = drop k (contents (tp_buffer p))"
      "k = consumes cb (length offered)" "k \<le> length offered"
      "pipe_ok p1" "limit (tp_buffer p1) = limit (tp_buffer p)" "tp_hit_eof p1 = tp_hit_eof p"
      "FlushWritePendingState p1 d' w = (r3, p3, evs3)"
      "pipe_Read p cb = Inr (p3, EvRead (rid cb) offered k # evs3)"
proof -
  define b where "b = tp_buffer p"
  define room where "room = the (limit b) - length (contents b)"
  have bok: "buf_ok (tp_buffer p)" using ok by (simp add: pipe_ok_def)
  have k: "consumes cb n \<le> n" for n using h by (simp add: honest_def)
  obtain r p1 evs1 where F: "FlushWritePendingState p d w = (r, p1, evs1)"
    using prod_cases3 by blast
  note f = Flush_refine [OF bok F] and ok1 = Flush_ok [OF ok F]
  have b1: "buf_ok (tp_buffer p1)" using ok1 by (simp add: pipe_ok_def)
  consider r | "\<not> r" "contents b \<noteq> []" | "\<not> r" "contents b = []" by blast
  then show thesis
  proof cases
    case 1
    with st F f ok1 show thesis by (intro flushed [of p1]) (simp_all add: b_def pipe_Read_def split_beta Let_def)
  next
    case 2
    let ?k = "consumes cb (length (contents b))"
    let ?p2 = "p1\<lparr>tp_buffer := MarkRead (tp_buffer p1) ?k\<rparr>"
    have ok2: "pipe_ok ?p2" using MarkRead_pipe_ok [OF ok1, of ?k] k f(2) by (simp add: b_def)
    obtain r3 p3 evs3 where F3: "FlushWritePendingState ?p2 (drop room d) w = (r3, p3, evs3)"
      using prod_cases3 by blast
    have "pipe_Read p cb = Inr (p3, EvRead (rid cb) (contents b) ?k # evs3)"
      using 2 st F f F3 b1 by (simp add: pipe_Read_def Let_def pending_data_def b_def room_def)
    then show thesis
      using 2 f ok2 F3 k b1 by (intro parked [unfolded b_def [symmetric] room_def [symmetric], of "contents b" "drop room d" ?k ?p2 r3 p3 evs3])
        (simp_all add: b_def)
  next
    case 3
    let ?o = "drop room d"
    let ?k = "consumes cb (length ?o)"
    obtain r3 p3 evs3 where F3: "FlushWritePendingState p1 (drop ?k ?o) w = (r3, p3, evs3)"
      using prod_cases3 by blast
    have "pipe_Read p cb = Inr (p3, EvRead (rid cb) ?o ?k # evs3)"
      using 3 st F f F3 b1 k [of "length ?o"]
      by (simp add: pipe_Read_def Let_def pending_data_def b_def room_def)
    then show thesis
      using 3 f ok1 F3 k by (intro parked [unfolded b_def [symmetric] room_def [symmetric], of ?o "drop ?k ?o" ?k p1 r3 p3 evs3]) (simp_all add: b_def)
  qed
qed

lemma pipe_Read_ok:
  assumes ok: "pipe_ok p" and h: "honest cb" and R: "pipe_Read p cb = Inr (p', evs)"
  shows "pipe_ok p' \<and> limit (tp_buffer p') = limit (tp_buffer p) \<and> tp_hit_eof p' = tp_hit_eof p"
proof (cases "tp_state p")
  case IdleState
  then show ?thesis using R Read_idle_ok [OF ok h IdleState] Read_idle_frame [of p cb]
    by (auto simp: pipe_Read_def)
next
  case (ReadPendingState cb')
  then show ?thesis using R by (simp add: pipe_Read_def)
next
  case (WritePendingState d w)
  show ?thesis using ok WritePendingState h
  proof (cases rule: pipe_Read_pending)
    case (flushed p1)
    then show ?thesis using R Read_idle_ok [OF _ h, of p1] by auto
  next
    case (parked p1 offered d' r3 p3 evs3 k)
    then show ?thesis
      using R Flush_ok [OF parked(5,8)] Flush_refine [OF _ parked(8)] by (auto simp: pipe_ok_def)
  qed
qed

lemma pipe_step_frame:
  assumes ok: "pipe_ok p" and h: "op_honest op" and s: "pipe_step p op = Inr (p', evs)"
  shows "pipe_ok p'" and "limit (tp_buffer p') = limit (tp_buffer p)"
    and "tp_hit_eof p' \<longleftrightarrow> tp_hit_eof p \<or> op = PCloseWriter \<or> op = PCloseReader"
proof -
  have "pipe_ok p' \<and> limit (tp_buffer p') = limit (tp_buffer p) \<and>
    (tp_hit_eof p' \<longleftrightarrow> tp_hit_eof p \<or> op = PCloseWriter \<or> op = PCloseReader)"
  proof (cases op)
    case (PRead cb)
    then show ?thesis using assms pipe_Read_ok [of p cb p' evs] by simp
  next
    case (PWrite d w)
    then show ?thesis
      using ok s Write_refine [of "tp_buffer p" d]
      by (auto simp: pipe_Write_def pipe_ok_def Let_def split_beta split: if_splits PipeState.splits)
  qed (use ok s in \<open>auto simp: CloseReader_def CloseWriter_def pipe_ok_def Let_def
          split: PipeState.splits\<close>)
  then show "pipe_ok p'" "limit (tp_buffer p') = limit (tp_buffer p)"
    "tp_hit_eof p' \<longleftrightarrow> tp_hit_eof p \<or> op = PCloseWriter \<or> op = PCloseReader" by simp_all
qed

lemmas pipe_step_ok = pipe_step_frame(1)

lemma pipe_run_induct:
  assumes "pipe_ok p" and "list_all op_honest ops" and "pipe_run p ops = Inr (p', evs)"
    and base: "\<And>p. pipe_ok p \<Longrightarrow> P p [] p []"
    and step: "\<And>p op ops p1 evs1 p2 evs2. pipe_ok p \<Longrightarrow> op_honest op \<Longrightarrow>
      pipe_step p op = Inr (p1, evs1) \<Longrightarrow> pipe_ok p1 \<Longrightarrow> P p1 ops p2 evs2 \<Longrightarrow>
      P p (op # ops) p2 (evs1 @ evs2)"
  shows "P p ops p' evs"
  using assms(1-3)
proof (induction ops arbitrary: p evs)
  case Nil
  then show ?case using base by simp
next
  case (Cons op ops)
  obtain p1 evs1 evs2 where s: "pipe_step p op = Inr (p1, evs1)"
    "pipe_run p1 ops = Inr (p', evs2)" "evs = evs1 @ evs2"
    using Cons.prems(3) by (auto split: sum.splits)
  have ok1: "pipe_ok p1" using pipe_step_ok [OF Cons.prems(1) _ s(1)] Cons.prems(2) by simp
  then have "P p1 ops p' evs2" using Cons.IH [OF ok1 _ s(2)] Cons.prems(2) by simp
  then show ?case using step [OF Cons.prems(1) _ s(1) ok1] Cons.prems(2) s(3) by simp
qed

section \<open>Errors\<close>

text \<open>With reader callbacks that report at most what they were offered, the pipe aborts the
  process exactly when a second read is started while one is pending, or a non-empty write while
  one is pending and the pipe is open.\<close>

theorem pipe_aborts_iff:
  assumes "pipe_ok p" and "op_honest op"
  shows "(\<exists>e. pipe_step p op = Inl e) \<longleftrightarrow>
    (case op of
       PRead _ \<Rightarrow> (\<exists>cb. tp_state p = ReadPendingState cb)
     | PWrite d _ \<Rightarrow> d \<noteq> [] \<and> \<not> IsWriterClosed p \<and> (\<exists>d' w. tp_state p = WritePendingState d' w)
     | _ \<Rightarrow> False)"
proof (cases op)
  case (PRead cb)
  show ?thesis
  proof (cases "tp_state p")
    case (WritePendingState d w)
    have h: "honest cb" using assms(2) PRead by simp
    have "\<exists>x. pipe_Read p cb = Inr x"
      by (rule pipe_Read_pending [OF assms(1) WritePendingState h]) auto
    then show ?thesis using PRead WritePendingState by auto
  qed (simp_all add: PRead pipe_Read_def)
next
  case (PWrite d w)
  have "consumes cb (length d) \<le> length d" if "tp_state p = ReadPendingState cb" for cb
    using assms(1) that by (simp add: pipe_ok_def honest_def)
  then show ?thesis
    by (cases "tp_state p")
      (force simp: PWrite pipe_Write_def IsWriterClosed_def Let_def split_beta)+
qed simp_all

theorem pipe_aborts_iff_witness:
  "\<exists>e. pipe_step ((TwibPipe_new 4)\<lparr>tp_state := ReadPendingState (ReadCb 0 id)\<rparr>) (PRead (ReadCb 1 id)) = Inl e"
  using pipe_aborts_iff [of "(TwibPipe_new 4)\<lparr>tp_state := ReadPendingState (ReadCb 0 id)\<rparr>"
      "PRead (ReadCb 1 id)"]
  by (simp add: pipe_ok_def TwibPipe_new_def honest_def)

section \<open>Every callback is called once\<close>

fun write_ids :: "PipeOp list \<Rightarrow> nat multiset" where
  "write_ids [] = {#}"
| "write_ids (PWrite _ w # ops) = add_mset w (write_ids ops)"
| "write_ids (_ # ops) = write_ids ops"

fun read_ids :: "PipeOp list \<Rightarrow> nat multiset" where
  "read_ids [] = {#}"
| "read_ids (PRead cb # ops) = add_mset (rid cb) (read_ids ops)"
| "read_ids (_ # ops) = read_ids ops"

fun writer_call :: "PipeEvent \<Rightarrow> nat multiset" where
  "writer_call (EvWrite w _) = {#w#}"
| "writer_call _ = {#}"

fun reader_call :: "PipeEvent \<Rightarrow> nat multiset" where
  "reader_call (EvRead r _ _) = {#r#}"
| "reader_call (EvEof r) = {#r#}"
| "reader_call _ = {#}"

definition writer_calls :: "PipeEvent list \<Rightarrow> nat multiset" where
  "writer_calls evs = sum_list (map writer_call evs)"

definition reader_calls :: "PipeEvent list \<Rightarrow> nat multiset" where
  "reader_calls evs = sum_list (map reader_call evs)"

fun waiting_writer :: "PipeState \<Rightarrow> nat multiset" where
  "waiting_writer (WritePendingState _ w) = {#w#}"
| "waiting_writer _ = {#}"

fun waiting_reader :: "PipeState \<Rightarrow> nat multiset" where
  "waiting_reader (ReadPendingState cb) = {#rid cb#}"
| "waiting_reader _ = {#}"

lemma calls_simps [simp]:
  "writer_calls [] = {#}" "writer_calls (e # evs) = writer_call e + writer_calls evs"
  "writer_calls (evs @ evs') = writer_calls evs + writer_calls evs'"
  "reader_calls [] = {#}" "reader_calls (e # evs) = reader_call e + reader_calls evs"
  "reader_calls (evs @ evs') = reader_calls evs + reader_calls evs'"
  by (simp_all add: writer_calls_def reader_calls_def)

lemma Flush_calls:
  assumes "buf_ok (tp_buffer p)" and "FlushWritePendingState p d w = (r, p', evs)"
  shows "writer_calls evs + waiting_writer (tp_state p') = {#w#} \<and>
         reader_calls evs + waiting_reader (tp_state p') = {#}"
  using Flush_refine(6,7) [OF assms] by (cases r) auto

lemma Read_idle_calls:
  assumes "tp_state p = IdleState"
  shows "writer_calls (snd (Read_idle p cb)) + waiting_writer (tp_state (fst (Read_idle p cb))) = {#} \<and>
         reader_calls (snd (Read_idle p cb)) + waiting_reader (tp_state (fst (Read_idle p cb))) = {#rid cb#}"
  using assms by (simp add: Read_idle_def Let_def)

lemma pipe_Read_calls:
  assumes ok: "pipe_ok p" and h: "honest cb" and R: "pipe_Read p cb = Inr (p', evs)"
  shows "writer_calls evs + waiting_writer (tp_state p') = waiting_writer (tp_state p) \<and>
         reader_calls evs + waiting_reader (tp_state p') = add_mset (rid cb) (waiting_reader (tp_state p))"
proof (cases "tp_state p")
  case IdleState
  then show ?thesis using R Read_idle_calls [OF IdleState, of cb] by (auto simp: pipe_Read_def)
next
  case (ReadPendingState cb')
  then show ?thesis using R by (simp add: pipe_Read_def)
next
  case (WritePendingState d w)
  show ?thesis using ok WritePendingState h
  proof (cases rule: pipe_Read_pending)
    case (flushed p1)
    then show ?thesis using R Read_idle_calls [of p1 cb] WritePendingState by auto
  next
    case (parked p1 offered d' r3 p3 evs3 k)
    then show ?thesis
      using R Flush_calls [OF _ parked(8)] WritePendingState by (auto simp: pipe_ok_def)
  qed
qed

lemma pipe_step_calls:
  assumes ok: "pipe_ok p" and h: "op_honest op" and S: "pipe_step p op = Inr (p', evs)"
  shows "writer_calls evs + waiting_writer (tp_state p') = waiting_writer (tp_state p) + write_ids [op] \<and>
         reader_calls evs + waiting_reader (tp_state p') = waiting_reader (tp_state p) + read_ids [op]"
proof (cases op)
  case (PRead cb)
  then show ?thesis using pipe_Read_calls [OF ok] h S by simp
next
  case (PWrite d w)
  then show ?thesis
    using S by (auto simp: pipe_Write_def Let_def split_beta split: if_splits PipeState.splits)
qed (use S in \<open>auto simp: CloseReader_def CloseWriter_def Let_def split: PipeState.splits\<close>)

lemma ids_Cons:
  "write_ids (op # ops) = write_ids [op] + write_ids ops"
  "read_ids (op # ops) = read_ids [op] + read_ids ops"
  by (cases op; simp)+

text \<open>C19: in every run of a pipe, whatever the order of reads, writes and closes, each write and
  each read has its callback called exactly once, or it is the one the pipe still holds as
  pending.\<close>

theorem pipe_callbacks_exactly_once:
  assumes "list_all op_honest ops" and "pipe_run (TwibPipe_new l) ops = Inr (p, evs)"
  shows "writer_calls evs + waiting_writer (tp_state p) = write_ids ops \<and>
         reader_calls evs + waiting_reader (tp_state p) = read_ids ops"
proof -
  have "writer_calls evs + waiting_writer (tp_state p) =
        waiting_writer (tp_state (TwibPipe_new l)) + write_ids ops \<and>
      reader_calls evs + waiting_reader (tp_state p) =
        waiting_reader (tp_state (TwibPipe_new l)) + read_ids ops"
  proof (rule pipe_run_induct [OF pipe_ok_new assms, where
        P = "\<lambda>p ops p' evs. writer_calls evs + waiting_writer (tp_state p') =
            waiting_writer (tp_state p) + write_ids ops \<and>
          reader_calls evs + waiting_reader (tp_state p') =
            waiting_reader (tp_state p) + read_ids ops"])
    fix p op ops p1 evs1 p2 evs2
    assume a: "pipe_ok p" "op_honest op" "pipe_step p op = Inr (p1, evs1)"
      and IH: "writer_calls evs2 + waiting_writer (tp_state p2) =
            waiting_writer (tp_state p1) + write_ids ops \<and>
          reader_calls evs2 + waiting_reader (tp_state p2) =
            waiting_reader (tp_state p1) + read_ids ops"
    show "writer_calls (evs1 @ evs2) + waiting_writer (tp_state p2) =
            waiting_writer (tp_state p) + write_ids (op # ops) \<and>
          reader_calls (evs1 @ evs2) + waiting_reader (tp_state p2) =
            waiting_reader (tp_state p) + read_ids (op # ops)"
      using pipe_step_calls [OF a] IH unfolding ids_Cons [of op ops] calls_simps
      by (metis add.assoc)
  qed simp
  then show ?thesis by (simp add: TwibPipe_new_def)
qed

theorem pipe_callbacks_exactly_once_witness:
  "\<exists>p evs. pipe_run (TwibPipe_new 0) [PWrite [1, 2] 7, PRead (ReadCb 3 id)] = Inr (p, evs) \<and>
     writer_calls evs + waiting_writer (tp_state p) = {#7#}"
proof -
  obtain p evs where r: "pipe_run (TwibPipe_new 0) [PWrite [1, 2] 7, PRead (ReadCb 3 id)] = Inr (p, evs)"
    by (simp add: TwibPipe_new_def Buffer_limited_def pipe_Write_def pipe_Read_def Write_def
        EnsureSpace_def Compact_def FlushWritePendingState_def Reserve_def TryEnsureSpace_def
        ExitWritePendingState_def resize_def fill_def overwrite_def ReadAvailable_def pending_data_def)
  then show ?thesis
    using pipe_callbacks_exactly_once [OF _ r] by (auto simp: honest_def)
qed

section \<open>The bytes\<close>

fun taken :: "PipeEvent \<Rightarrow> byte list" where
  "taken (EvRead _ offered k) = take k offered"
| "taken _ = []"

definition delivered :: "PipeEvent list \<Rightarrow> byte list" where
  "delivered evs = concat (map taken evs)"

lemma delivered_simps [simp]:
  "delivered [] = []" "delivered (e # evs) = taken e @ delivered evs"
  "delivered (evs @ evs') = delivered evs @ delivered evs'"
  by (simp_all add: delivered_def)

text \<open>The bytes a run writes before the writer's end is closed.\<close>

fun accepted :: "PipeOp list \<Rightarrow> byte list" where
  "accepted [] = []"
| "accepted (PWrite d _ # ops) = d @ accepted ops"
| "accepted (PCloseWriter # ops) = []"
| "accepted (_ # ops) = accepted ops"

text \<open>The bytes the pipe holds: those in the buffer and those of a pending write.\<close>

definition held :: "TwibPipe \<Rightarrow> byte list" where
  "held p = contents (tp_buffer p) @ pending_data p"

text \<open>A run that never leaves a write pending, unless the pipe has no buffer at all.\<close>

definition no_overflow :: "TwibPipe \<Rightarrow> bool" where
  "no_overflow p \<longleftrightarrow> limit (tp_buffer p) = Some 0 \<or> (\<forall>d w. tp_state p \<noteq> WritePendingState d w)"

fun run_no_overflow :: "TwibPipe \<Rightarrow> PipeOp list \<Rightarrow> bool" where
  "run_no_overflow p [] = no_overflow p"
| "run_no_overflow p (op # ops) =
    (no_overflow p \<and> (case pipe_step p op of Inl _ \<Rightarrow> True | Inr (p1, _) \<Rightarrow> run_no_overflow p1 ops))"

lemma limit_0_empty: "buf_ok b \<Longrightarrow> limit b = Some 0 \<Longrightarrow> contents b = []"
  using fits_contents [of b] by (simp add: fits_def)

lemma Read_idle_held:
  assumes "pipe_ok p" and "honest cb" and "tp_state p = IdleState"
  shows "delivered (snd (Read_idle p cb)) @ held (fst (Read_idle p cb)) = held p"
  using assms by (auto simp: Read_idle_def held_def pending_data_def pipe_ok_def honest_def Let_def)

lemma pipe_step_held:
  assumes ok: "pipe_ok p" and h: "op_honest op" and S: "pipe_step p op = Inr (p', evs)"
    and no: "no_overflow p" and "op \<noteq> PCloseReader"
  shows "delivered evs @ held p' = held p @ (if tp_hit_eof p then [] else accepted [op])"
proof (cases op)
  case (PRead cb)
  have hc: "honest cb" using h PRead by simp
  show ?thesis
  proof (cases "tp_state p")
    case IdleState
    then show ?thesis using Read_idle_held [OF ok hc IdleState] S PRead by (auto simp: pipe_Read_def)
  next
    case (WritePendingState d w)
    have b: "buf_ok (tp_buffer p)" using ok by (simp add: pipe_ok_def)
    have l0: "limit (tp_buffer p) = Some 0" using no WritePendingState by (simp add: no_overflow_def)
    then have e: "contents (tp_buffer p) = []" by (rule limit_0_empty [OF b])
    have hp: "held p = d" using e WritePendingState by (simp add: held_def pending_data_def)
    show ?thesis using ok WritePendingState hc
    proof (cases rule: pipe_Read_pending)
      case (flushed p1)
      then have "held p1 = []" "d = []" using e l0 by (simp_all add: held_def pending_data_def fits_def)
      then show ?thesis
        using flushed Read_idle_held [OF flushed(2) hc flushed(3)] S PRead hp by auto
    next
      case (parked p1 offered d' r3 p3 evs3 k)
      then have p1: "buf_ok (tp_buffer p1)" "contents (tp_buffer p1) = []" "limit (tp_buffer p1) = Some 0"
        "offered = d" "d' = drop k d"
        using e l0 by (simp_all add: pipe_ok_def)
      note f3 = Flush_refine [OF p1(1) parked(8)]
      have "held p3 = drop k d \<and> delivered evs3 = []"
        using f3 p1 by (cases r3) (auto simp: held_def pending_data_def fits_def)
      then show ?thesis using parked p1 S PRead hp by auto
    qed
  qed (use S PRead in \<open>simp add: pipe_Read_def\<close>)
next
  case (PWrite d w)
  have b: "buf_ok (tp_buffer p)" using ok by (simp add: pipe_ok_def)
  show ?thesis
  proof (cases "tp_state p")
    case IdleState
    then show ?thesis using PWrite S Write_refine(2) [OF b, of d]
      by (auto simp: pipe_Write_def held_def pending_data_def Let_def split_beta split: if_splits)
  next
    case (WritePendingState d' w')
    then show ?thesis using PWrite S
      by (auto simp: pipe_Write_def held_def pending_data_def split: if_splits)
  next
    case (ReadPendingState cb)
    then have "contents (tp_buffer p) = []" using ok by (simp add: pipe_ok_def)
    then show ?thesis using PWrite S ReadPendingState
      by (auto simp: pipe_Write_def held_def pending_data_def Let_def split: if_splits)
  qed
next
  case PCloseReader
  then show ?thesis using assms(5) by simp
next
  case PCloseWriter
  then show ?thesis using S
    by (auto simp: CloseWriter_def held_def pending_data_def Let_def split: PipeState.splits)
qed

lemma pipe_run_held:
  assumes "pipe_ok p" and "list_all op_honest ops" and "pipe_run p ops = Inr (p', evs)"
    and "run_no_overflow p ops" and "PCloseReader \<notin> set ops"
  shows "delivered evs @ held p' = held p @ (if tp_hit_eof p then [] else accepted ops)"
  using assms
proof (induction ops arbitrary: p evs)
  case (Cons op ops)
  obtain p1 evs1 evs2 where s: "pipe_step p op = Inr (p1, evs1)"
    "pipe_run p1 ops = Inr (p', evs2)" "evs = evs1 @ evs2"
    using Cons.prems(3) by (auto split: sum.splits)
  have h: "op_honest op" "op \<noteq> PCloseReader" using Cons.prems by auto
  have ok1: "pipe_ok p1" using pipe_step_ok [OF Cons.prems(1) h(1) s(1)] .
  have "delivered evs2 @ held p' = held p1 @ (if tp_hit_eof p1 then [] else accepted ops)"
    using Cons.IH [OF ok1 _ s(2)] Cons.prems s(1) by simp
  moreover have "delivered evs1 @ held p1 = held p @ (if tp_hit_eof p then [] else accepted [op])"
    using pipe_step_held [OF Cons.prems(1) h(1) s(1) _ h(2)] Cons.prems(4) by simp
  moreover have "tp_hit_eof p1 \<longleftrightarrow> tp_hit_eof p \<or> op = PCloseWriter"
    using pipe_step_frame(3) [OF Cons.prems(1) h(1) s(1)] h(2) by simp
  moreover have "(if tp_hit_eof p then [] else accepted [op]) @
      (if tp_hit_eof p \<or> op = PCloseWriter then [] else accepted ops) =
      (if tp_hit_eof p then [] else accepted (op # ops))"
    by (cases op) auto
  ultimately show ?case
    unfolding s(3) delivered_simps append.assoc by (simp only: append.assoc [symmetric]) (simp only: append.assoc)
qed simp



text \<open>A buffered pipe that has to park a write loses it. The buffer holds \<open>a\<close>, the write of
  \<open>b\<close> does not fit and is parked; the next read delivers \<open>a\<close>, reports the second write as
  done, and leaves the pipe empty: no byte of \<open>b\<close> is ever delivered.\<close>

theorem parked_write_lost:
  assumes "a \<noteq> []" and "length a \<le> l" and "l < length a + length b" and "length a + length b \<le> 2 * l"
    and "consumes cb (length a) = length a"
  shows "\<exists>p. pipe_run (TwibPipe_new l) [PWrite a 1, PWrite b 2, PRead cb] =
           Inr (p, [EvWrite 1 False, EvRead (rid cb) a (length a), EvWrite 2 False]) \<and>
           held p = [] \<and> tp_state p = IdleState"
proof -
  let ?p0 = "TwibPipe_new l"
  have l0: "limit (tp_buffer ?p0) = Some l" "contents (tp_buffer ?p0) = []" "buf_ok (tp_buffer ?p0)"
    by (simp_all add: TwibPipe_new_def)
  obtain b1 where w1: "Write (tp_buffer ?p0) a = (True, b1)" and b1: "contents b1 = a" "buf_ok b1"
      "limit b1 = Some l"
    using Write_refine [OF l0(3), of a] l0 assms(2) by (cases "Write (tp_buffer ?p0) a") (auto simp: fits_def)
  let ?p1 = "?p0\<lparr>tp_buffer := b1\<rparr>"
  obtain b2 where w2: "Write b1 b = (False, b2)" and b2: "contents b2 = a" "buf_ok b2" "limit b2 = Some l"
    using Write_refine [OF b1(2), of b] b1 assms(3) by (cases "Write b1 b") (auto simp: fits_def)
  let ?p2 = "?p1\<lparr>tp_buffer := b2, tp_state := WritePendingState b 2\<rparr>"
  have s1: "pipe_Write ?p0 a 1 = Inr (?p1, [EvWrite 1 False])"
    using assms(1) w1 by (simp add: pipe_Write_def TwibPipe_new_def)
  have s2: "pipe_Write ?p1 b 2 = Inr (?p2, [])"
    using assms(2,3) w2 by (auto simp: pipe_Write_def TwibPipe_new_def)
  obtain r p3 e3 where F: "FlushWritePendingState ?p2 b 2 = (r, p3, e3)" using prod_cases3 by blast
  have "\<not> r" using Flush_refine(5) [OF _ F] b2 assms(3) by (simp add: fits_def)
  note f = Flush_refine [OF _ F, simplified, OF b2(2)]
  have p3: "pending_data p3 = drop (l - length a) b" "e3 = []"
    using f(7) [OF \<open>\<not> r\<close>] b2 by (simp_all add: pending_data_def)
  let ?p4 = "p3\<lparr>tp_buffer := MarkRead (tp_buffer p3) (length a)\<rparr>"
  have p4: "buf_ok (tp_buffer ?p4)" "contents (tp_buffer ?p4) = []" "limit (tp_buffer ?p4) = Some l"
    using f(1-3) b2 by simp_all
  obtain r4 p5 e5 where F4: "FlushWritePendingState ?p4 (drop (l - length a) b) 2 = (r4, p5, e5)"
    using prod_cases3 by blast
  have "r4" using Flush_refine(5) [OF p4(1) F4] p4 assms(4) by (simp add: fits_def)
  note f4 = Flush_refine [OF p4(1) F4]
  have "pipe_Read ?p2 cb = Inr (p5, [EvRead (rid cb) a (length a), EvWrite 2 False])"
    using F F4 \<open>\<not> r\<close> f(1,2) b2 p3 assms(1,5) f4(6) [OF \<open>r4\<close>]
    by (simp add: pipe_Read_def Let_def)
  moreover have "held p5 = []" "tp_state p5 = IdleState"
    using f4(2) f4(6) [OF \<open>r4\<close>] p4 by (simp_all add: held_def pending_data_def)
  ultimately show ?thesis using s1 s2 by simp
qed

theorem parked_write_lost_witness:
  "\<exists>p. pipe_run (TwibPipe_new 3) [PWrite [1, 2] 1, PWrite [3, 4] 2, PRead (ReadCb 9 id)] =
     Inr (p, [EvWrite 1 False, EvRead 9 [1, 2] 2, EvWrite 2 False]) \<and> held p = []"
  using parked_write_lost [of "[1, 2]" 3 "[3, 4]" "ReadCb 9 id"] by auto

end
