(* ===== verification/Response.thy ===== *)
theory Response
  imports Protocol
begin

text \<open>
  The response side of the bridge (src/twili/bridge): \<open>detail::ResponseState\<close>,
  \<open>ResponseOpener\<close>, \<open>ResponseWriter\<close>, the packing of values (Packing.hpp), and the two
  transports that carry a response, tcp/ResponseState.cpp and usb/ResponseState.cpp with
  \<open>USBBridge::PostBufferSync\<close>.

  The virtual functions of \<open>ResponseState\<close> are a record of functions over a transport
  state \<open>'t\<close>; the locale \<open>response_transport\<close> states what a transport promises, the
  properties of the opener are proved from it once, and both transports interpret it.
  \<open>twili::Abort\<close> is the error result. Sizes are natural numbers.
\<close>

section \<open>ResponseState, ResponseOpener, ResponseWriter\<close>

text \<open>\<open>rs_objects\<close> lists the \<open>object_id\<close> of each object.\<close>

record ResponseState =
  rs_client_id :: u32
  rs_tag :: u32
  rs_objects :: "u32 list"
  transferred_size :: nat
  total_size :: nat
  object_count :: u32
  has_begun :: bool

definition ResponseState_new :: "u32 \<Rightarrow> u32 \<Rightarrow> ResponseState" where
  "ResponseState_new client_id tag =
    \<lparr>rs_client_id = client_id, rs_tag = tag, rs_objects = [], transferred_size = 0,
     total_size = 0, object_count = 0, has_begun = False\<rparr>"

type_synonym 't response = "ResponseState \<times> 't"

record ('t, 'o) ResponseOps =
  GetMaxTransferSize :: "'t \<Rightarrow> nat"
  SendHeader :: "MessageHeader \<Rightarrow> 't response \<Rightarrow> u32 + 't response"
  SendData :: "byte list \<Rightarrow> 't response \<Rightarrow> u32 + 't response"
  Finalize :: "'t response \<Rightarrow> u32 + 't response"
  ReserveObjectId :: "'t \<Rightarrow> u32 \<times> 't"
  InsertObject :: "u32 \<Rightarrow> 'o \<Rightarrow> 't \<Rightarrow> 't"

text \<open>\<open>hdr0\<close> is the uninitialised header of \<open>BeginError\<close>: \<open>object_id\<close> and the
  padding are sent as they are.\<close>

definition BeginError ::
    "('t, 'o) ResponseOps \<Rightarrow> MessageHeader \<Rightarrow> u32 \<Rightarrow> nat \<Rightarrow> u32 \<Rightarrow> 't response \<Rightarrow> u32 + 't response" where
  "BeginError ops hdr0 code payload_size objects = (\<lambda>(rs, t).
    if has_begun rs then Inl TWILI_ERR_FATAL_BRIDGE_STATE
    else if unat objects * 4 > GetMaxTransferSize ops t then Inl TWILI_ERR_FATAL_BRIDGE_STATE
    else
      (let hdr = hdr0\<lparr>mh_client_id := rs_client_id rs, mh_command_id := code, mh_tag := rs_tag rs,
                      mh_payload_size := of_nat payload_size, mh_object_count := objects\<rparr>;
           rs1 = rs\<lparr>has_begun := True, total_size := payload_size, object_count := objects\<rparr>
       in SendHeader ops hdr (rs1, t)))"

definition BeginOk ::
    "('t, 'o) ResponseOps \<Rightarrow> MessageHeader \<Rightarrow> nat \<Rightarrow> u32 \<Rightarrow> 't response \<Rightarrow> u32 + 't response" where
  "BeginOk ops hdr0 payload_size objects = BeginError ops hdr0 RESULT_OK payload_size objects"

definition RespondError ::
    "('t, 'o) ResponseOps \<Rightarrow> MessageHeader \<Rightarrow> u32 \<Rightarrow> 't response \<Rightarrow> u32 + 't response" where
  "RespondError ops hdr0 code s = sum_bind (BeginError ops hdr0 code 0 0 s) (Finalize ops)"

text \<open>\<open>ResponseWriter::Object\<close>: the object is remembered and its index returned.\<close>

definition Writer_Object :: "u32 \<Rightarrow> 't response \<Rightarrow> u32 \<times> 't response" where
  "Writer_Object obj = (\<lambda>(rs, t).
    (of_nat (length (rs_objects rs)), (rs\<lparr>rs_objects := rs_objects rs @ [obj]\<rparr>, t)))"

definition MakeObject :: "('t, 'o) ResponseOps \<Rightarrow> (u32 \<Rightarrow> 'o) \<Rightarrow> 't \<Rightarrow> u32 \<times> 't" where
  "MakeObject ops construct t =
    (let (object_id, t1) = ReserveObjectId ops t
     in (object_id, InsertObject ops object_id (construct object_id) t1))"

section \<open>Packing\<close>

text \<open>A packed value, one constructor per specialisation of \<open>PackingHelper\<close>. A POD value is
  its bytes; a vector of PODs has the element size and the elements' bytes; an object is its id;
  a \<open>msgpack11::MsgPack\<close> value is what its \<open>dump ()\<close> returns.\<close>

datatype PackVal =
    PPodVec nat "byte list list"
  | PBuffer Buffer
  | PString "byte list"
  | PVector "PackVal list"
  | PObject u32
  | PMsgPack "byte list"
  | PPod "byte list"

fun GetSize :: "PackVal \<Rightarrow> nat" where
  "GetSize (PPodVec sz elems) = length elems * sz + 8"
| "GetSize (PBuffer b) = 8 + ReadAvailable b"
| "GetSize (PString s) = 8 + length s"
| "GetSize (PVector vs) = 8 + sum_list (map GetSize vs)"
| "GetSize (PObject _) = 4"
| "GetSize (PMsgPack ser) = 8 + length ser"
| "GetSize (PPod val) = length val"

fun GetObjectCount :: "PackVal \<Rightarrow> u32" where
  "GetObjectCount (PVector vs) = sum_list (map GetObjectCount vs)"
| "GetObjectCount (PObject _) = 1"
| "GetObjectCount _ = 0"

text \<open>\<open>Pack\<close>, with the loop over the elements of a vector, which is also the fold of
  \<open>RespondOk\<close> over its arguments, as \<open>Pack_all\<close>.\<close>

fun Pack :: "('t, 'o) ResponseOps \<Rightarrow> PackVal \<Rightarrow> 't response \<Rightarrow> u32 + 't response"
  and Pack_all :: "('t, 'o) ResponseOps \<Rightarrow> PackVal list \<Rightarrow> 't response \<Rightarrow> u32 + 't response" where
  "Pack ops (PPodVec sz elems) s =
    sum_bind (SendData ops (bytes64 (of_nat (length elems))) s) (SendData ops (concat elems))"
| "Pack ops (PBuffer b) s =
    sum_bind (SendData ops (bytes64 (of_nat (ReadAvailable b))) s) (SendData ops (GetData b))"
| "Pack ops (PString val) s =
    sum_bind (SendData ops (bytes64 (of_nat (length val))) s) (SendData ops val)"
| "Pack ops (PVector vs) s =
    sum_bind (SendData ops (bytes64 (of_nat (length vs))) s) (Pack_all ops vs)"
| "Pack ops (PObject obj) s =
    (let (index, s1) = Writer_Object obj s in SendData ops (bytes32 index) s1)"
| "Pack ops (PMsgPack ser) s =
    sum_bind (SendData ops (bytes64 (of_nat (length ser))) s) (SendData ops ser)"
| "Pack ops (PPod val) s = SendData ops val s"
| "Pack_all ops [] s = Inr s"
| "Pack_all ops (v # vs) s = sum_bind (Pack ops v s) (Pack_all ops vs)"

definition RespondOk ::
    "('t, 'o) ResponseOps \<Rightarrow> MessageHeader \<Rightarrow> PackVal list \<Rightarrow> 't response \<Rightarrow> u32 + 't response" where
  "RespondOk ops hdr0 args s =
    sum_bind (BeginOk ops hdr0 (sum_list (map GetSize args)) (sum_list (map GetObjectCount args)) s)
      (\<lambda>w. sum_bind (Pack_all ops args w) (Finalize ops))"

section \<open>The TCP transport\<close>

text \<open>What the response side uses of a \<open>Connection\<close>. The \<open>i\<close>-th call of
  \<open>bsd_send\<close> with \<open>n\<close> bytes returns \<open>tl_send i n\<close>; \<open>tl_wire\<close> are the bytes the
  socket took.\<close>

record 'o TcpLink =
  tl_deletion_flag :: bool
  tl_closed :: bool
  tl_wire :: "byte list"
  tl_calls :: nat
  tl_send :: "nat \<Rightarrow> nat \<Rightarrow> int"
  tl_next_object_id :: u32
  tl_objects :: "u32 \<rightharpoonup> 'o"

definition Panic :: "'o TcpLink \<Rightarrow> 'o TcpLink" where
  "Panic t = t\<lparr>tl_deletion_flag := True, tl_closed := True\<rparr>"

text \<open>\<open>send\<close> takes at most the bytes it is given, so the loop ends.\<close>

function tcp_Send :: "byte list \<Rightarrow> 'o TcpLink \<Rightarrow> 'o TcpLink" where
  "tcp_Send data t =
    (if tl_deletion_flag t \<or> data = [] then t
     else
       (let r = tl_send t (tl_calls t) (length data); t1 = t\<lparr>tl_calls := Suc (tl_calls t)\<rparr> in
        if r \<le> 0 then Panic (t1\<lparr>tl_deletion_flag := True\<rparr>)
        else tcp_Send (drop (nat r) data) (t1\<lparr>tl_wire := tl_wire t1 @ take (nat r) data\<rparr>)))"
  by pat_completeness auto
termination
  by (relation "measure (\<lambda>(data, t). length data)") auto

definition tcp_SendHeader :: "MessageHeader \<Rightarrow> 'o TcpLink response \<Rightarrow> u32 + 'o TcpLink response" where
  "tcp_SendHeader hdr = (\<lambda>(rs, t). Inr (rs, tcp_Send (mh_bytes hdr) t))"

definition tcp_SendData :: "byte list \<Rightarrow> 'o TcpLink response \<Rightarrow> u32 + 'o TcpLink response" where
  "tcp_SendData data = (\<lambda>(rs, t).
    Inr (rs\<lparr>transferred_size := transferred_size rs + length data\<rparr>, tcp_Send data t))"

definition tcp_Finalize :: "'o TcpLink response \<Rightarrow> u32 + 'o TcpLink response" where
  "tcp_Finalize = (\<lambda>(rs, t).
    if transferred_size rs \<noteq> total_size rs then Inl TWILI_ERR_PROTOCOL_BAD_RESPONSE
    else if length (rs_objects rs) \<noteq> unat (object_count rs) then Inl TWILI_ERR_PROTOCOL_BAD_RESPONSE
    else if object_count rs > 0 then Inr (rs, tcp_Send (concat (map bytes32 (rs_objects rs))) t)
    else Inr (rs, t))"

definition tcp_ReserveObjectId :: "'o TcpLink \<Rightarrow> u32 \<times> 'o TcpLink" where
  "tcp_ReserveObjectId t = (tl_next_object_id t, t\<lparr>tl_next_object_id := tl_next_object_id t + 1\<rparr>)"

text \<open>\<open>std::map::insert\<close> leaves an entry that is already there.\<close>

definition map_insert :: "'k \<Rightarrow> 'v \<Rightarrow> ('k \<rightharpoonup> 'v) \<Rightarrow> ('k \<rightharpoonup> 'v)" where
  "map_insert k v m = (case m k of None \<Rightarrow> m(k \<mapsto> v) | Some _ \<Rightarrow> m)"

definition tcp_InsertObject :: "u32 \<Rightarrow> 'o \<Rightarrow> 'o TcpLink \<Rightarrow> 'o TcpLink" where
  "tcp_InsertObject object_id obj t = t\<lparr>tl_objects := map_insert object_id obj (tl_objects t)\<rparr>"

definition tcp_ops :: "('o TcpLink, 'o) ResponseOps" where
  "tcp_ops = \<lparr>GetMaxTransferSize = (\<lambda>_. 16384), SendHeader = tcp_SendHeader,
     SendData = tcp_SendData, Finalize = tcp_Finalize, ReserveObjectId = tcp_ReserveObjectId,
     InsertObject = tcp_InsertObject\<rparr>"

section \<open>The USB transport\<close>

datatype UsbEndpoint = ResponseMeta | ResponseData

text \<open>What the response side uses of a \<open>USBBridge\<close>: its transfers, its objects, and the
  request reader's current state and handler (of type \<open>'h\<close>; \<open>None\<close> is the discarding
  one), which a response header resets. \<open>ub_sched i\<close> tells how the transfers of the
  \<open>i\<close>-th \<open>PostBufferSync\<close> go: each moves some bytes, or fails with the code the code
  aborts with; when the list ends, the rest goes in one transfer.\<close>

record ('o, 'h) UsbBridge =
  ub_transfers :: "(UsbEndpoint \<times> byte list) list"
  ub_posts :: nat
  ub_sched :: "nat \<Rightarrow> (u32 + nat) list"
  ub_object_id :: u32
  ub_objects :: "u32 \<rightharpoonup> 'o"
  ub_current_state :: bool
  ub_current_handler :: "'h option"

definition TRANSFER_BUFFER_SIZE :: nat where
  "TRANSFER_BUFFER_SIZE = 64 * 1024"

text \<open>The transfers of one \<open>PostBufferSync\<close>; a transfer of fewer bytes is followed by
  another for the rest.\<close>

fun post_transfers :: "(u32 + nat) list \<Rightarrow> byte list \<Rightarrow> u32 + byte list list" where
  "post_transfers [] data = Inr [data]"
| "post_transfers (Inl e # _) data = Inl e"
| "post_transfers (Inr k # rest) data =
    (if k < length data
     then sum_bind (post_transfers rest (drop k data)) (\<lambda>ts. Inr (take k data # ts))
     else Inr [data])"

definition PostBufferSync ::
    "UsbEndpoint \<Rightarrow> byte list \<Rightarrow> ('o, 'h) UsbBridge \<Rightarrow> u32 + ('o, 'h) UsbBridge" where
  "PostBufferSync ep data t =
    sum_bind (post_transfers (ub_sched t (ub_posts t)) data)
      (\<lambda>ts. Inr (t\<lparr>ub_posts := Suc (ub_posts t),
                   ub_transfers := ub_transfers t @ map (Pair ep) ts\<rparr>))"

definition usb_ResetHandler :: "('o, 'h) UsbBridge \<Rightarrow> ('o, 'h) UsbBridge" where
  "usb_ResetHandler t = t\<lparr>ub_current_state := False, ub_current_handler := None\<rparr>"

definition usb_SendHeader ::
    "MessageHeader \<Rightarrow> ('o, 'h) UsbBridge response \<Rightarrow> u32 + ('o, 'h) UsbBridge response" where
  "usb_SendHeader hdr = (\<lambda>(rs, t).
    sum_bind (PostBufferSync ResponseMeta (mh_bytes hdr) (usb_ResetHandler t)) (\<lambda>t1. Inr (rs, t1)))"

function usb_SendData ::
    "byte list \<Rightarrow> ('o, 'h) UsbBridge response \<Rightarrow> u32 + ('o, 'h) UsbBridge response" where
  "usb_SendData data s =
    (if length data = 0 then Inr s
     else if length data > TRANSFER_BUFFER_SIZE then
       sum_bind (usb_SendData (take TRANSFER_BUFFER_SIZE data) s)
         (\<lambda>s1. usb_SendData (drop TRANSFER_BUFFER_SIZE data) s1)
     else
       sum_bind (PostBufferSync ResponseData data (snd s))
         (\<lambda>t1. Inr ((fst s)\<lparr>transferred_size := transferred_size (fst s) + length data\<rparr>, t1)))"
  by pat_completeness auto
termination
  by (relation "measure (\<lambda>(data, s). length data)") (auto simp: TRANSFER_BUFFER_SIZE_def)

definition usb_Finalize :: "('o, 'h) UsbBridge response \<Rightarrow> u32 + ('o, 'h) UsbBridge response" where
  "usb_Finalize = (\<lambda>(rs, t).
    if transferred_size rs \<noteq> total_size rs then Inl TWILI_ERR_PROTOCOL_BAD_RESPONSE
    else if length (rs_objects rs) \<noteq> unat (object_count rs) then Inl TWILI_ERR_PROTOCOL_BAD_RESPONSE
    else if object_count rs > 0 then
      sum_bind (PostBufferSync ResponseData (concat (map bytes32 (rs_objects rs))) t)
        (\<lambda>t1. Inr (rs, t1))
    else Inr (rs, t))"

definition usb_ReserveObjectId :: "('o, 'h) UsbBridge \<Rightarrow> u32 \<times> ('o, 'h) UsbBridge" where
  "usb_ReserveObjectId t = (ub_object_id t, t\<lparr>ub_object_id := ub_object_id t + 1\<rparr>)"

definition usb_InsertObject :: "u32 \<Rightarrow> 'o \<Rightarrow> ('o, 'h) UsbBridge \<Rightarrow> ('o, 'h) UsbBridge" where
  "usb_InsertObject object_id obj t = t\<lparr>ub_objects := map_insert object_id obj (ub_objects t)\<rparr>"

definition usb_ops :: "(('o, 'h) UsbBridge, 'o) ResponseOps" where
  "usb_ops = \<lparr>GetMaxTransferSize = (\<lambda>_. TRANSFER_BUFFER_SIZE), SendHeader = usb_SendHeader,
     SendData = usb_SendData, Finalize = usb_Finalize, ReserveObjectId = usb_ReserveObjectId,
     InsertObject = usb_InsertObject\<rparr>"

declare tcp_Send.simps [simp del] usb_SendData.simps [simp del]

section \<open>What a packed value looks like on the wire\<close>

text \<open>The object ids of a value in order, and its bytes when \<open>i\<close> objects precede it.\<close>

fun val_objects :: "PackVal \<Rightarrow> u32 list" where
  "val_objects (PVector vs) = concat (map val_objects vs)"
| "val_objects (PObject obj) = [obj]"
| "val_objects _ = []"

abbreviation vals_objects :: "PackVal list \<Rightarrow> u32 list" where
  "vals_objects vs \<equiv> concat (map val_objects vs)"

fun val_bytes :: "nat \<Rightarrow> PackVal \<Rightarrow> byte list"
  and vals_bytes :: "nat \<Rightarrow> PackVal list \<Rightarrow> byte list" where
  "val_bytes i (PPodVec sz elems) = bytes64 (of_nat (length elems)) @ concat elems"
| "val_bytes i (PBuffer b) = bytes64 (of_nat (length (contents b))) @ contents b"
| "val_bytes i (PString s) = bytes64 (of_nat (length s)) @ s"
| "val_bytes i (PVector vs) = bytes64 (of_nat (length vs)) @ vals_bytes i vs"
| "val_bytes i (PObject _) = bytes32 (of_nat i)"
| "val_bytes i (PMsgPack ser) = bytes64 (of_nat (length ser)) @ ser"
| "val_bytes i (PPod val) = val"
| "vals_bytes i [] = []"
| "vals_bytes i (v # vs) = val_bytes i v @ vals_bytes (i + length (val_objects v)) vs"

fun val_ok :: "PackVal \<Rightarrow> bool" where
  "val_ok (PPodVec sz elems) = list_all (\<lambda>e. length e = sz) elems"
| "val_ok (PBuffer b) = buf_ok b"
| "val_ok (PVector vs) = list_all val_ok vs"
| "val_ok _ = True"

lemma length_concat_elems:
  "list_all (\<lambda>e. length e = sz) elems \<Longrightarrow> length (concat elems) = length elems * sz"
  by (induction elems) auto

lemma GetSize_val_bytes:
  "val_ok v \<Longrightarrow> GetSize v = length (val_bytes i v)"
  "list_all val_ok vs \<Longrightarrow> sum_list (map GetSize vs) = length (vals_bytes i vs)"
  by (induction i v and i vs rule: val_bytes_vals_bytes.induct)
    (simp_all add: length_concat_elems)

lemma sum_list_of_lengths:
  assumes "\<And>v. v \<in> set vs \<Longrightarrow> f v = of_nat (length (g v))"
  shows "sum_list (map f vs) = of_nat (length (concat (map g vs)))"
  using assms by (induction vs) simp_all

lemma GetObjectCount_val_objects: "GetObjectCount v = of_nat (length (val_objects v))"
  by (induction v rule: GetObjectCount.induct) (auto intro: sum_list_of_lengths)

lemmas GetObjectCount_vals_objects =
  sum_list_of_lengths [of _ GetObjectCount val_objects, OF GetObjectCount_val_objects]

section \<open>What a transport promises, and what the opener makes of it\<close>

text \<open>The computation adds the objects \<open>os\<close> to the response and carries the bytes \<open>bs\<close>.\<close>

definition sends ::
    "('t \<Rightarrow> bool) \<Rightarrow> ('t \<Rightarrow> byte list) \<Rightarrow> ('t response \<Rightarrow> u32 + 't response) \<Rightarrow> u32 list \<Rightarrow> byte list \<Rightarrow>
     ResponseState \<Rightarrow> 't \<Rightarrow> bool" where
  "sends up sent f os bs rs t \<longleftrightarrow>
    (\<exists>t'. f (rs, t) = Inr (rs\<lparr>rs_objects := rs_objects rs @ os,
            transferred_size := transferred_size rs + length bs\<rparr>, t') \<and>
       up t' \<and> sent t' = sent t @ bs)"

lemma sends_seq:
  assumes "sends up sent f os bs rs t"
    and "\<And>rs' t'. rs_objects rs' = rs_objects rs @ os \<Longrightarrow> up t' \<Longrightarrow> sends up sent g os' bs' rs' t'"
  shows "sends up sent (\<lambda>s. sum_bind (f s) g) (os @ os') (bs @ bs') rs t"
proof -
  from assms(1) obtain t1 where f: "f (rs, t) = Inr (rs\<lparr>rs_objects := rs_objects rs @ os,
      transferred_size := transferred_size rs + length bs\<rparr>, t1)" "up t1" "sent t1 = sent t @ bs"
    by (auto simp: sends_def)
  from assms(2) [OF _ f(2), of "rs\<lparr>rs_objects := rs_objects rs @ os,
      transferred_size := transferred_size rs + length bs\<rparr>"] f show ?thesis
    by (auto simp: sends_def add.assoc)
qed

text \<open>\<open>sent\<close> are the bytes the transport has carried, \<open>up\<close> says that it is still able to.\<close>

locale response_transport =
  fixes ops :: "('t, 'o) ResponseOps"
    and sent :: "'t \<Rightarrow> byte list"
    and up :: "'t \<Rightarrow> bool"
    and max_size :: nat
    and objects :: "'t \<Rightarrow> u32 \<rightharpoonup> 'o"
    and next_id :: "'t \<Rightarrow> u32"
  assumes max_transfer: "GetMaxTransferSize ops t = max_size"
    and send_header: "up t \<Longrightarrow> \<exists>t'. SendHeader ops hdr (rs, t) = Inr (rs, t') \<and> up t' \<and>
          sent t' = sent t @ mh_bytes hdr"
    and send_data: "up t \<Longrightarrow> \<exists>t'. SendData ops d (rs, t) =
          Inr (rs\<lparr>transferred_size := transferred_size rs + length d\<rparr>, t') \<and> up t' \<and>
          sent t' = sent t @ d"
    and finalize: "up t \<Longrightarrow> transferred_size rs = total_size rs \<Longrightarrow>
          length (rs_objects rs) = unat (object_count rs) \<Longrightarrow> unat (object_count rs) * 4 \<le> max_size \<Longrightarrow>
          \<exists>t'. Finalize ops (rs, t) = Inr (rs, t') \<and> up t' \<and>
            sent t' = sent t @ concat (map bytes32 (rs_objects rs))"
    and finalize_mismatch: "transferred_size rs \<noteq> total_size rs \<or>
          length (rs_objects rs) \<noteq> unat (object_count rs) \<Longrightarrow>
          Finalize ops (rs, t) = Inl TWILI_ERR_PROTOCOL_BAD_RESPONSE"
    and reserve: "ReserveObjectId ops t = (i, t') \<Longrightarrow>
          i = next_id t \<and> next_id t' = next_id t + 1 \<and> objects t' = objects t"
    and insert: "objects (InsertObject ops i x t) = map_insert i x (objects t) \<and>
          next_id (InsertObject ops i x t) = next_id t"
begin

lemma begin_sends_header:
  assumes "up t" and "\<not> has_begun rs" and "unat n * 4 \<le> max_size"
  shows "\<exists>t'. BeginError ops hdr0 code sz n (rs, t) =
      Inr (rs\<lparr>has_begun := True, total_size := sz, object_count := n\<rparr>, t') \<and> up t' \<and>
      sent t' = sent t @ mh_bytes (hdr0\<lparr>mh_client_id := rs_client_id rs, mh_command_id := code,
        mh_tag := rs_tag rs, mh_payload_size := of_nat sz, mh_object_count := n\<rparr>)"
  using assms send_header [OF assms(1)] by (simp add: BeginError_def max_transfer Let_def)

lemma data_sends: "up t \<Longrightarrow> sends up sent (SendData ops d) [] d rs t"
  using send_data [of t d rs] by (auto simp: sends_def)

lemma counted_sends:
  assumes "up t"
  shows "sends up sent (\<lambda>s. sum_bind (SendData ops (bytes64 n) s) (SendData ops d)) [] (bytes64 n @ d) rs t"
  using assms sends_seq [where os = "[]" and os' = "[]", OF data_sends data_sends] by simp

lemma pack_sends:
  "up t \<Longrightarrow> val_ok v \<Longrightarrow> length (rs_objects rs) = i \<Longrightarrow>
     sends up sent (Pack ops v) (val_objects v) (val_bytes i v) rs t"
  "up t \<Longrightarrow> list_all val_ok vs \<Longrightarrow> length (rs_objects rs) = i \<Longrightarrow>
     sends up sent (Pack_all ops vs) (vals_objects vs) (vals_bytes i vs) rs t"
proof (induction i v and i vs arbitrary: rs t and rs t rule: val_bytes_vals_bytes.induct)
  case (4 i vs)
  have "sends up sent (\<lambda>s. sum_bind (SendData ops (bytes64 (of_nat (length vs))) s) (Pack_all ops vs))
      ([] @ vals_objects vs) (bytes64 (of_nat (length vs)) @ vals_bytes i vs) rs t"
    using 4 by (intro sends_seq data_sends) auto
  then show ?case by (simp add: sends_def)
next
  case (5 i obj)
  then show ?case
    using send_data [OF 5(1), of "bytes32 (of_nat i)" "rs\<lparr>rs_objects := rs_objects rs @ [obj]\<rparr>"]
    by (simp add: sends_def Writer_Object_def)
next
  case (9 i v vs)
  have "sends up sent (\<lambda>s. sum_bind (Pack ops v s) (Pack_all ops vs))
      (val_objects v @ vals_objects vs) (val_bytes i v @ vals_bytes (i + length (val_objects v)) vs) rs t"
    using 9 by (intro sends_seq) auto
  then show ?case by (simp add: sends_def)
next
  case (2 i b)
  then show ?case using counted_sends [OF 2(1), of "of_nat (length (contents b))" "contents b" rs]
    by (simp add: GetData_def sends_def)
qed (use counted_sends data_sends in \<open>simp_all add: sends_def\<close>)

text \<open>A response that has not begun.\<close>

lemma respond_ok:
  assumes "up t" and "list_all val_ok args" and "length (vals_objects args) * 4 \<le> max_size"
    and "length (vals_objects args) < 2 ^ 32"
  shows "\<exists>rs' t'. RespondOk ops hdr0 args (ResponseState_new c tag, t) = Inr (rs', t') \<and>
      has_begun rs' \<and> up t' \<and>
      sent t' = sent t @ mh_bytes (hdr0\<lparr>mh_client_id := c, mh_command_id := RESULT_OK, mh_tag := tag,
          mh_payload_size := of_nat (length (vals_bytes 0 args)),
          mh_object_count := of_nat (length (vals_objects args))\<rparr>) @
        vals_bytes 0 args @ concat (map bytes32 (vals_objects args))"
proof -
  let ?n = "of_nat (length (vals_objects args)) :: u32"
  let ?l = "length (vals_bytes 0 args)"
  have n: "unat ?n = length (vals_objects args)" using assms(4) by (simp add: unat_of_nat)
  note sizes = GetSize_val_bytes(2) [OF assms(2), of 0] GetObjectCount_vals_objects
  obtain t1 where b: "BeginError ops hdr0 RESULT_OK ?l ?n (ResponseState_new c tag, t) =
      Inr ((ResponseState_new c tag)\<lparr>has_begun := True, total_size := ?l, object_count := ?n\<rparr>, t1)"
    "up t1" and s1: "sent t1 = sent t @ mh_bytes (hdr0\<lparr>mh_client_id := c, mh_command_id := RESULT_OK,
      mh_tag := tag, mh_payload_size := of_nat ?l, mh_object_count := ?n\<rparr>)"
    using begin_sends_header [OF assms(1), of "ResponseState_new c tag" ?n hdr0 RESULT_OK ?l] assms(3) n
    by (auto simp: ResponseState_new_def)
  let ?rs1 = "(ResponseState_new c tag)\<lparr>has_begun := True, total_size := ?l, object_count := ?n\<rparr>"
  let ?rs2 = "?rs1\<lparr>rs_objects := vals_objects args, transferred_size := ?l\<rparr>"
  obtain t2 where p: "Pack_all ops args (?rs1, t1) = Inr (?rs2, t2)" "up t2"
      "sent t2 = sent t1 @ vals_bytes 0 args"
    using pack_sends(2) [OF b(2) assms(2), of ?rs1 0] by (auto simp: sends_def ResponseState_new_def)
  obtain t3 where "Finalize ops (?rs2, t2) = Inr (?rs2, t3)" "up t3"
      "sent t3 = sent t2 @ concat (map bytes32 (vals_objects args))"
    using finalize [OF p(2), of ?rs2] assms(3) n by (auto simp: ResponseState_new_def)
  with b p s1 show ?thesis unfolding RespondOk_def BeginOk_def sizes by simp
qed

lemma respond_error:
  assumes "up t"
  shows "\<exists>rs' t'. RespondError ops hdr0 code (ResponseState_new c tag, t) = Inr (rs', t') \<and>
      has_begun rs' \<and> up t' \<and>
      sent t' = sent t @ mh_bytes (hdr0\<lparr>mh_client_id := c, mh_command_id := code, mh_tag := tag,
          mh_payload_size := 0, mh_object_count := 0\<rparr>)"
proof -
  obtain t1 where b: "BeginError ops hdr0 code 0 0 (ResponseState_new c tag, t) =
      Inr ((ResponseState_new c tag)\<lparr>has_begun := True, total_size := 0, object_count := 0\<rparr>, t1)"
    "up t1" and s1: "sent t1 = sent t @ mh_bytes (hdr0\<lparr>mh_client_id := c, mh_command_id := code,
      mh_tag := tag, mh_payload_size := 0, mh_object_count := 0\<rparr>)"
    using begin_sends_header [OF assms(1), of "ResponseState_new c tag" 0 hdr0 code 0]
    by (auto simp: ResponseState_new_def)
  then show ?thesis
    using finalize [OF b(2), of "(ResponseState_new c tag)\<lparr>has_begun := True, total_size := 0, object_count := 0\<rparr>"]
    by (auto simp: RespondError_def ResponseState_new_def)
qed

lemma begun_aborts:
  assumes "has_begun rs"
  shows "RespondOk ops hdr0 args (rs, t) = Inl TWILI_ERR_FATAL_BRIDGE_STATE \<and>
    RespondError ops hdr0 code (rs, t) = Inl TWILI_ERR_FATAL_BRIDGE_STATE"
  using assms by (simp add: RespondOk_def RespondError_def BeginOk_def BeginError_def)

text \<open>Object ids are handed out in increasing order, so an id is fresh until the counter wraps.\<close>

lemma made_object_fresh:
  assumes "dom (objects t) \<subseteq> {i. i < next_id t}" and "next_id t + 1 \<noteq> 0"
  shows "let (i, t') = MakeObject ops f t in
     i \<notin> dom (objects t) \<and> objects t' = (objects t)(i \<mapsto> f i) \<and> dom (objects t') \<subseteq> {i. i < next_id t'}"
proof -
  obtain i t1 where r: "ReserveObjectId ops t = (i, t1)" by fastforce
  note l = reserve [OF r] insert [of i "f i" t1]
  have "1 + next_id t \<noteq> 0" using assms(2) by (simp add: add.commute)
  then have lt: "next_id t < next_id t + 1" by (simp add: word_less_nat_alt unatSuc add.commute)
  have "i \<notin> dom (objects t)" using assms(1) l by auto
  moreover have "j < next_id t + 1" if "j < next_id t" for j using that lt by (rule less_trans)
  ultimately show ?thesis
    using assms(1) l lt by (auto simp: MakeObject_def r map_insert_def Let_def split: option.splits)
qed

end

section \<open>Both transports keep the promise\<close>

definition tcp_up :: "'o TcpLink \<Rightarrow> bool" where
  "tcp_up t \<longleftrightarrow> \<not> tl_deletion_flag t \<and> (\<forall>i n. 0 < n \<longrightarrow> 0 < tl_send t i n \<and> tl_send t i n \<le> int n)"

lemma tcp_Send_up:
  "tcp_up t \<Longrightarrow> tcp_up (tcp_Send d t) \<and> tl_wire (tcp_Send d t) = tl_wire t @ d"
proof (induction d t rule: tcp_Send.induct)
  case (1 d t)
  have "\<not> tl_deletion_flag t" using 1(2) by (simp add: tcp_up_def)
  moreover have "\<not> tl_send t (tl_calls t) (length d) \<le> 0" if "d \<noteq> []"
    using 1(2) that by (simp add: tcp_up_def not_le)
  ultimately show ?case
    using 1 by (cases "d = []"; subst (1 2) tcp_Send.simps) (simp_all add: tcp_up_def Let_def)
qed

lemma tcp_Send_frame [simp]:
  "tl_objects (tcp_Send d t) = tl_objects t" "tl_next_object_id (tcp_Send d t) = tl_next_object_id t"
  by (induction d t rule: tcp_Send.induct; subst tcp_Send.simps; simp add: Panic_def Let_def)+

interpretation tcp: response_transport tcp_ops tl_wire tcp_up 16384 tl_objects tl_next_object_id
  by unfold_locales
    (auto simp: tcp_ops_def tcp_SendHeader_def tcp_SendData_def tcp_Finalize_def
      tcp_ReserveObjectId_def tcp_InsertObject_def tcp_Send_up word_gt_0)

definition usb_up :: "('o, 'h) UsbBridge \<Rightarrow> bool" where
  "usb_up t \<longleftrightarrow> (\<forall>i. list_all (\<lambda>r. \<not> isl r) (ub_sched t i))"

definition usb_sent :: "('o, 'h) UsbBridge \<Rightarrow> byte list" where
  "usb_sent t = concat (map snd (ub_transfers t))"

lemma post_transfers_concat:
  "list_all (\<lambda>r. \<not> isl r) sched \<Longrightarrow> \<exists>ts. post_transfers sched d = Inr ts \<and> concat ts = d"
proof (induction sched d rule: post_transfers.induct)
  case (3 k rest d)
  then show ?case by (cases "k < length d") fastforce+
qed auto

lemma PostBufferSync_up:
  assumes "usb_up t"
  shows "\<exists>t'. PostBufferSync ep d t = Inr t' \<and> usb_up t' \<and> usb_sent t' = usb_sent t @ d"
proof -
  obtain ts where "post_transfers (ub_sched t (ub_posts t)) d = Inr ts" "concat ts = d"
    using post_transfers_concat assms unfolding usb_up_def by blast
  then show ?thesis using assms by (simp add: PostBufferSync_def usb_up_def usb_sent_def comp_def)
qed

lemma usb_ResetHandler_frame [simp]:
  "usb_up (usb_ResetHandler t) = usb_up t" "usb_sent (usb_ResetHandler t) = usb_sent t"
  by (simp_all add: usb_ResetHandler_def usb_up_def usb_sent_def)

lemma usb_SendData_up:
  assumes "usb_up t"
  shows "\<exists>t'. usb_SendData d (rs, t) = Inr (rs\<lparr>transferred_size := transferred_size rs + length d\<rparr>, t') \<and>
    usb_up t' \<and> usb_sent t' = usb_sent t @ d"
  using assms
proof (induction "length d" arbitrary: d rs t rule: less_induct)
  case less
  consider "length d = 0" | "0 < length d" "length d \<le> TRANSFER_BUFFER_SIZE"
    | "TRANSFER_BUFFER_SIZE < length d" by linarith
  then show ?case
  proof cases
    case 1
    then show ?thesis using less(2) by (subst usb_SendData.simps) simp
  next
    case 2
    then show ?thesis
      using PostBufferSync_up [OF less(2), of ResponseData d] by (subst usb_SendData.simps) auto
  next
    case 3
    let ?a = "take TRANSFER_BUFFER_SIZE d" and ?b = "drop TRANSFER_BUFFER_SIZE d"
    have ne: "length d \<noteq> 0" "\<not> length d \<le> TRANSFER_BUFFER_SIZE" using 3 by auto
    have pos: "0 < TRANSFER_BUFFER_SIZE" by (simp add: TRANSFER_BUFFER_SIZE_def)
    obtain t1 where t1: "usb_SendData ?a (rs, t) =
        Inr (rs\<lparr>transferred_size := transferred_size rs + length ?a\<rparr>, t1)" "usb_up t1"
        "usb_sent t1 = usb_sent t @ ?a"
      using less(1) [of ?a t rs] less(2) 3 by auto
    have "length ?b < length d" using pos ne(1) by simp
    from less(1) [OF this t1(2), of "rs\<lparr>transferred_size := transferred_size rs + length ?a\<rparr>"]
    obtain t2 where "usb_SendData ?b (rs\<lparr>transferred_size := transferred_size rs + length ?a\<rparr>, t1) =
        Inr (rs\<lparr>transferred_size := transferred_size rs + length ?a + length ?b\<rparr>, t2)" "usb_up t2"
        "usb_sent t2 = usb_sent t1 @ ?b" by auto
    with t1 ne show ?thesis by (subst usb_SendData.simps) (simp add: not_le)
  qed
qed

interpretation usb: response_transport usb_ops usb_sent usb_up TRANSFER_BUFFER_SIZE ub_objects ub_object_id
proof (unfold_locales, goal_cases)
  case (2 t hdr rs)
  then show ?case
    using PostBufferSync_up [of "usb_ResetHandler t" ResponseMeta "mh_bytes hdr"]
    by (auto simp: usb_ops_def usb_SendHeader_def)
next
  case (3 t d rs)
  then show ?case using usb_SendData_up by (auto simp: usb_ops_def)
next
  case (4 t rs)
  then show ?case
    using PostBufferSync_up [OF 4(1), of ResponseData "concat (map bytes32 (rs_objects rs))"]
    by (auto simp: usb_ops_def usb_Finalize_def word_gt_0)
qed (auto simp: usb_ops_def usb_Finalize_def usb_ReserveObjectId_def usb_InsertObject_def)

section \<open>Properties\<close>

text \<open>The bytes of a whole response.\<close>

definition response_wire :: "MessageHeader \<Rightarrow> u32 \<Rightarrow> u32 \<Rightarrow> PackVal list \<Rightarrow> byte list" where
  "response_wire hdr0 c tag args =
    mh_bytes (hdr0\<lparr>mh_client_id := c, mh_command_id := RESULT_OK, mh_tag := tag,
      mh_payload_size := of_nat (length (vals_bytes 0 args)),
      mh_object_count := of_nat (length (vals_objects args))\<rparr>) @
    vals_bytes 0 args @ concat (map bytes32 (vals_objects args))"

lemma response_sent:
  assumes "list_all val_ok args" and "length (vals_objects args) * 4 \<le> 16384"
  shows "tcp_up t \<Longrightarrow> \<exists>rs' t'. RespondOk tcp_ops hdr0 args (ResponseState_new c tag, t) = Inr (rs', t') \<and>
      has_begun rs' \<and> tl_wire t' = tl_wire t @ response_wire hdr0 c tag args"
    and "usb_up u \<Longrightarrow> \<exists>rs' u'. RespondOk usb_ops hdr0 args (ResponseState_new c tag, u) = Inr (rs', u') \<and>
      has_begun rs' \<and> usb_sent u' = usb_sent u @ response_wire hdr0 c tag args"
proof -
  have n: "length (vals_objects args) < 2 ^ 32" "length (vals_objects args) * 4 \<le> TRANSFER_BUFFER_SIZE"
    using assms(2) by (simp_all add: TRANSFER_BUFFER_SIZE_def)
  show "tcp_up t \<Longrightarrow> \<exists>rs' t'. RespondOk tcp_ops hdr0 args (ResponseState_new c tag, t) = Inr (rs', t') \<and>
      has_begun rs' \<and> tl_wire t' = tl_wire t @ response_wire hdr0 c tag args"
    using tcp.respond_ok [OF _ assms n(1)] unfolding response_wire_def by blast
  show "usb_up u \<Longrightarrow> \<exists>rs' u'. RespondOk usb_ops hdr0 args (ResponseState_new c tag, u) = Inr (rs', u') \<and>
      has_begun rs' \<and> usb_sent u' = usb_sent u @ response_wire hdr0 c tag args"
    using usb.respond_ok [OF _ assms(1) n(2,1)] unfolding response_wire_def by blast
qed

text \<open>C16: a successful response, over either transport while it is up, is exactly one header, the
  packed arguments, and the ids of the objects among them. The header announces the size and
  the number of objects that follow, so \<open>GetSize\<close> and \<open>Pack\<close> agree for every argument
  list, and the size check of \<open>Finalize\<close> never fires. The tag and the client id are those of
  the request.\<close>

theorem response_wire_format:
  fixes t :: "'o TcpLink" and u :: "('o, 'h) UsbBridge"
  assumes "list_all val_ok args" and "length (vals_objects args) * 4 \<le> 16384"
    and "tcp_up t" and "usb_up u"
  shows "(\<exists>rs' t'. RespondOk tcp_ops hdr0 args (ResponseState_new c tag, t) = Inr (rs', t') \<and>
           tl_wire t' = tl_wire t @ response_wire hdr0 c tag args) \<and>
         (\<exists>rs' u'. RespondOk usb_ops hdr0 args (ResponseState_new c tag, u) = Inr (rs', u') \<and>
           usb_sent u' = usb_sent u @ response_wire hdr0 c tag args)"
  using response_sent(1) [OF assms(1-3)] response_sent(2) [OF assms(1,2,4)] by blast

text \<open>Links for the witnesses: the socket takes one byte, then all the rest, and so on; the USB host
  takes at most three bytes of the first transfer of each buffer.\<close>

definition example_tcp :: "nat TcpLink" where
  "example_tcp = \<lparr>tl_deletion_flag = False, tl_closed = False, tl_wire = [], tl_calls = 0,
     tl_send = (\<lambda>i n. if even i then 1 else int n), tl_next_object_id = 1, tl_objects = [0 \<mapsto> 0]\<rparr>"

definition example_usb :: "(nat, nat) UsbBridge" where
  "example_usb = \<lparr>ub_transfers = [], ub_posts = 0, ub_sched = (\<lambda>i. [Inr 3, Inr 0]), ub_object_id = 1,
     ub_objects = [0 \<mapsto> 0], ub_current_state = False, ub_current_handler = None\<rparr>"

lemma example_links_up: "tcp_up example_tcp" "usb_up example_usb"
  by (simp_all add: tcp_up_def example_tcp_def usb_up_def example_usb_def)

theorem response_wire_format_witness:
  "(\<exists>rs' t'. RespondOk tcp_ops (mh_of_bytes []) [PPod [1, 2], PObject 7, PString [65]]
       (ResponseState_new 3 9, example_tcp) = Inr (rs', t') \<and> length (tl_wire t') = 32 + 15 + 4)"
  using response_wire_format [OF _ _ example_links_up, of "[PPod [1, 2], PObject 7, PString [65]]" "mh_of_bytes []" 3 9]
  by (auto simp: response_wire_def example_tcp_def)

text \<open>A request is answered at most once: after a response, over either transport, any other
  response on the same state aborts.\<close>

theorem second_response_aborts:
  fixes t :: "'o TcpLink" and u :: "('o, 'h) UsbBridge"
  assumes "list_all val_ok args" and "length (vals_objects args) * 4 \<le> 16384"
    and "tcp_up t" and "usb_up u"
  shows "sum_bind (RespondOk tcp_ops h args (ResponseState_new c tag, t)) (RespondError tcp_ops h' e) =
           Inl TWILI_ERR_FATAL_BRIDGE_STATE \<and>
         sum_bind (RespondOk usb_ops h args (ResponseState_new c tag, u)) (RespondError usb_ops h' e) =
           Inl TWILI_ERR_FATAL_BRIDGE_STATE \<and>
         sum_bind (RespondError tcp_ops h e (ResponseState_new c tag, t)) (RespondOk tcp_ops h' args') =
           Inl TWILI_ERR_FATAL_BRIDGE_STATE \<and>
         sum_bind (RespondError usb_ops h e (ResponseState_new c tag, u)) (RespondOk usb_ops h' args') =
           Inl TWILI_ERR_FATAL_BRIDGE_STATE"
proof -
  have "sum_bind (RespondOk tcp_ops h args (ResponseState_new c tag, t)) (RespondError tcp_ops h' e) =
      Inl TWILI_ERR_FATAL_BRIDGE_STATE"
    using response_sent(1) [OF assms(1-3), of h c tag] tcp.begun_aborts by fastforce
  moreover have "sum_bind (RespondOk usb_ops h args (ResponseState_new c tag, u)) (RespondError usb_ops h' e) =
      Inl TWILI_ERR_FATAL_BRIDGE_STATE"
    using response_sent(2) [OF assms(1,2,4), of h c tag] usb.begun_aborts by fastforce
  moreover have "sum_bind (RespondError tcp_ops h e (ResponseState_new c tag, t)) (RespondOk tcp_ops h' args') =
      Inl TWILI_ERR_FATAL_BRIDGE_STATE"
    using tcp.respond_error [OF assms(3), of h e c tag] tcp.begun_aborts by fastforce
  moreover have "sum_bind (RespondError usb_ops h e (ResponseState_new c tag, u)) (RespondOk usb_ops h' args') =
      Inl TWILI_ERR_FATAL_BRIDGE_STATE"
    using usb.respond_error [OF assms(4), of h e c tag] usb.begun_aborts by fastforce
  ultimately show ?thesis by blast
qed

theorem second_response_aborts_witness:
  "sum_bind (RespondOk tcp_ops (mh_of_bytes []) [] (ResponseState_new 3 9, example_tcp))
     (RespondError tcp_ops (mh_of_bytes []) 5) = Inl TWILI_ERR_FATAL_BRIDGE_STATE"
  using second_response_aborts [OF _ _ example_links_up, of "[]" "mh_of_bytes []" 3 9] by simp

text \<open>An object made for a response gets an id that no live object has, is found under it, and
  keeps the ids below the counter, over either transport until the 32-bit counter wraps.\<close>

theorem make_object_fresh:
  fixes t :: "'o TcpLink" and u :: "('o, 'h) UsbBridge"
  assumes "dom (tl_objects t) \<subseteq> {i. i < tl_next_object_id t}" and "tl_next_object_id t + 1 \<noteq> 0"
    and "dom (ub_objects u) \<subseteq> {i. i < ub_object_id u}" and "ub_object_id u + 1 \<noteq> 0"
  shows "(let (i, t') = MakeObject tcp_ops f t in i \<notin> dom (tl_objects t) \<and>
            tl_objects t' = (tl_objects t)(i \<mapsto> f i) \<and> dom (tl_objects t') \<subseteq> {i. i < tl_next_object_id t'}) \<and>
         (let (i, u') = MakeObject usb_ops f u in i \<notin> dom (ub_objects u) \<and>
            ub_objects u' = (ub_objects u)(i \<mapsto> f i) \<and> dom (ub_objects u') \<subseteq> {i. i < ub_object_id u'})"
  using tcp.made_object_fresh [OF assms(1,2), of f] usb.made_object_fresh [OF assms(3,4), of f] by blast

theorem make_object_fresh_witness:
  "let (i, t') = MakeObject tcp_ops (\<lambda>i. 5) example_tcp in i = 1 \<and> tl_objects t' 1 = Some 5"
  using make_object_fresh [of example_tcp example_usb "\<lambda>i. 5"]
  by (simp add: example_tcp_def example_usb_def MakeObject_def tcp_ops_def tcp_ReserveObjectId_def Let_def split_beta)

end
