(* ===== verification/Request.thy ===== *)
theory Request
  imports Response
begin

text \<open>
  The request side of the bridge (src/twili/bridge): incremental unpacking of the arguments of a
  command (Unpacking.hpp), \<open>SmartRequestHandler\<close>, \<open>DiscardingRequestHandler\<close> and
  \<open>SmartRequestDispatcher\<close> (RequestHandler.hpp, RequestHandler.cpp).

  A command's parameter list is a list of slots, one per argument. What a handler does outside
  itself is an event: the call of the command, the error response \<open>PROTOCOL_BAD_REQUEST\<close>, the
  calls of the input stream's callbacks. The locale \<open>request_handler\<close> states the contract
  written in RequestHandler.hpp; both handlers interpret it.
\<close>

section \<open>Arguments\<close>

text \<open>One constructor per specialisation of \<open>UnpackingHelper\<close> that is instantiated; a POD
  type is its size, a vector has the size of its elements. (The helper for vectors of other types
  calls its element helper without an output argument, so no command can use it.)\<close>

datatype ArgType = APod nat | AVec nat | AString | AStream

datatype ArgVal = VPod "byte list" | VVec nat "byte list" | VString "byte list" | VStream nat

record Slot =
  sl_type :: ArgType
  sl_has_value :: bool
  sl_value :: ArgVal
  sl_has_size :: bool
  sl_size :: nat

definition Slot_new :: "ArgType \<Rightarrow> Slot" where
  "Slot_new ty = \<lparr>sl_type = ty, sl_has_value = False, sl_value = VPod [], sl_has_size = False, sl_size = 0\<rparr>"

text \<open>\<open>LengthError\<close>: \<open>std::vector\<close> refuses more than \<open>PTRDIFF_MAX\<close> bytes.\<close>

datatype UnpackRes = Pending | Done | LengthError

definition MAX_ALLOC :: nat where
  "MAX_ALLOC = 2 ^ 63 - 1"

text \<open>The rest of \<open>UnpackingHelper<std::vector<T>>::Unpack\<close>, once the size is known.\<close>

definition Unpack_elems ::
    "nat \<Rightarrow> (nat \<Rightarrow> byte list \<Rightarrow> ArgVal) \<Rightarrow> Slot \<Rightarrow> Buffer \<Rightarrow> UnpackRes \<times> Slot \<times> Buffer" where
  "Unpack_elems sz mk s b =
    (if sl_size s * sz > MAX_ALLOC then (LengthError, s, b)
     else (case Read b (sz * sl_size s) of
             None \<Rightarrow> (Pending, s, b)
           | Some (bs, b1) \<Rightarrow> (Done, s\<lparr>sl_value := mk (sl_size s) bs\<rparr>, b1)))"

definition Unpack_vector ::
    "nat \<Rightarrow> (nat \<Rightarrow> byte list \<Rightarrow> ArgVal) \<Rightarrow> Slot \<Rightarrow> Buffer \<Rightarrow> UnpackRes \<times> Slot \<times> Buffer" where
  "Unpack_vector sz mk s b =
    (if sl_has_size s then Unpack_elems sz mk s b
     else (case Read b 8 of
             None \<Rightarrow> (Pending, s, b)
           | Some (bs, b1) \<Rightarrow>
               Unpack_elems sz mk (s\<lparr>sl_size := unat (word64 bs), sl_has_size := True\<rparr>) b1))"

definition Unpack_stream :: "Slot \<Rightarrow> Buffer \<Rightarrow> UnpackRes \<times> Slot \<times> Buffer" where
  "Unpack_stream s b =
    (if sl_has_size s then (Done, s, b)
     else (case Read b 8 of
             None \<Rightarrow> (Pending, s, b)
           | Some (bs, b1) \<Rightarrow>
               (Done, s\<lparr>sl_value := VStream (unat (word64 bs)), sl_has_size := True\<rparr>, b1)))"

definition Unpack_pod :: "nat \<Rightarrow> Slot \<Rightarrow> Buffer \<Rightarrow> UnpackRes \<times> Slot \<times> Buffer" where
  "Unpack_pod n s b =
    (case Read b n of
       None \<Rightarrow> (Pending, s, b)
     | Some (bs, b1) \<Rightarrow> (Done, s\<lparr>sl_value := VPod bs\<rparr>, b1))"

definition Unpack_value :: "Slot \<Rightarrow> Buffer \<Rightarrow> UnpackRes \<times> Slot \<times> Buffer" where
  "Unpack_value s b =
    (case sl_type s of
       APod n \<Rightarrow> Unpack_pod n s b
     | AVec sz \<Rightarrow> Unpack_vector sz VVec s b
     | AString \<Rightarrow> Unpack_vector 1 (\<lambda>_. VString) s b
     | AStream \<Rightarrow> Unpack_stream s b)"

text \<open>\<open>UnpackingHolder::Unpack\<close>: every argument in turn, from where the last call stopped.\<close>

fun Unpack :: "Slot list \<Rightarrow> Buffer \<Rightarrow> UnpackRes \<times> Slot list \<times> Buffer" where
  "Unpack [] b = (Done, [], b)"
| "Unpack (s # ss) b =
    (if sl_has_value s then (let (r, ss1, b1) = Unpack ss b in (r, s # ss1, b1))
     else
       (case Unpack_value s b of
          (Done, s1, b1) \<Rightarrow>
            (let (r, ss1, b2) = Unpack ss b1 in (r, s1\<lparr>sl_has_value := True\<rparr> # ss1, b2))
        | (r, s1, b1) \<Rightarrow> (r, s1 # ss, b1)))"

fun GetStream :: "Slot list \<Rightarrow> nat option" where
  "GetStream [] = None"
| "GetStream (s # ss) =
    (if sl_type s = AStream then (case sl_value s of VStream n \<Rightarrow> Some n | _ \<Rightarrow> Some 0)
     else GetStream ss)"

definition GetValues :: "Slot list \<Rightarrow> ArgVal list" where
  "GetValues ss = map sl_value ss"

section \<open>Handlers\<close>

datatype HandlerEvent =
    HInvoke "ArgVal list"
  | HBadRequest
  | HReceive "byte list" nat
  | HFinish "byte list"

datatype Stop = Aborted u32 | LengthErrorThrown

record SmartRequestHandler =
  sh_has_signaled_bad_request :: bool
  sh_slots :: "Slot list"
  sh_consumed_size :: nat
  sh_payload_size :: nat
  sh_streaming :: bool

type_synonym 'h flushed = "Stop + 'h \<times> Buffer \<times> HandlerEvent list"

definition SmartRequestHandler_new :: "ArgType list \<Rightarrow> nat \<Rightarrow> SmartRequestHandler" where
  "SmartRequestHandler_new tys payload_size =
    \<lparr>sh_has_signaled_bad_request = False, sh_slots = map Slot_new tys, sh_consumed_size = 0,
     sh_payload_size = payload_size, sh_streaming = False\<rparr>"

definition SignalBadRequest :: "SmartRequestHandler \<Rightarrow> Buffer \<Rightarrow> SmartRequestHandler flushed" where
  "SignalBadRequest h b =
    (if sh_has_signaled_bad_request h then Inl (Aborted TWILI_ERR_FATAL_BRIDGE_STATE)
     else Inr (h\<lparr>sh_has_signaled_bad_request := True\<rparr>, b, [HBadRequest]))"

definition Discard :: "Buffer \<Rightarrow> Buffer" where
  "Discard b = MarkRead b (ReadAvailable b)"

text \<open>\<open>receive bs\<close> is the number of bytes the stream's \<open>receive\<close> callback reads of those in
  the buffer.\<close>

definition FlushReceiveBuffer ::
    "(byte list \<Rightarrow> nat) \<Rightarrow> SmartRequestHandler \<Rightarrow> Buffer \<Rightarrow> SmartRequestHandler flushed" where
  "FlushReceiveBuffer receive h b =
    (if sh_has_signaled_bad_request h then Inr (h, Discard b, [])
     else if \<not> sh_streaming h then
       (let (r, ss, b1) = Unpack (sh_slots h) b;
            h1 = h\<lparr>sh_slots := ss,
                   sh_consumed_size := sh_consumed_size h + (ReadAvailable b - ReadAvailable b1)\<rparr>
        in case r of
             LengthError \<Rightarrow> Inl LengthErrorThrown
           | Pending \<Rightarrow> Inr (h1, b1, [])
           | Done \<Rightarrow>
               (case GetStream ss of
                  Some expected_size \<Rightarrow>
                    if expected_size \<noteq> size_sub (sh_payload_size h1) (sh_consumed_size h1)
                    then SignalBadRequest h1 b1
                    else Inr (h1\<lparr>sh_streaming := True\<rparr>, b1, [HInvoke (GetValues ss)])
                | None \<Rightarrow>
                    if sh_consumed_size h1 < sh_payload_size h1 then SignalBadRequest h1 b1
                    else Inr (h1\<lparr>sh_streaming := True\<rparr>, b1, [HInvoke (GetValues ss)])))
     else if GetStream (sh_slots h) \<noteq> None then
       (let k = receive (GetData b) in Inr (h, MarkRead b k, [HReceive (GetData b) k]))
     else if ReadAvailable b > 0 then SignalBadRequest h b
     else Inr (h, b, []))"

definition Handler_Finalize ::
    "(byte list \<Rightarrow> nat) \<Rightarrow> (byte list \<Rightarrow> nat) \<Rightarrow> SmartRequestHandler \<Rightarrow> Buffer \<Rightarrow> SmartRequestHandler flushed" where
  "Handler_Finalize receive finish h b =
    sum_bind (FlushReceiveBuffer receive h b) (\<lambda>(h1, b1, evs).
      if sh_streaming h1 \<and> GetStream (sh_slots h1) \<noteq> None
      then Inr (h1, MarkRead b1 (finish (GetData b1)), evs @ [HFinish (GetData b1)])
      else Inr (h1, b1, evs))"

text \<open>\<open>SmartRequestDispatcher::SmartDispatchImpl\<close>: the expansion compares the command id with
  that of every command of the interface and keeps the last match. Without one the request is
  answered with an error and its payload discarded (\<open>None\<close>).\<close>

definition SmartDispatchImpl :: "(u32 \<times> 'c) list \<Rightarrow> u32 \<Rightarrow> 'c option" where
  "SmartDispatchImpl commands command_id =
    foldl (\<lambda>handler (cmd, c). if command_id = cmd then Some c else handler) None commands"

lemma SmartDispatchImpl_map_of: "SmartDispatchImpl commands command_id = map_of (rev commands) command_id"
proof -
  have "foldl (\<lambda>handler (cmd, c). if command_id = cmd then Some c else handler) h commands =
      (case map_of (rev commands) command_id of None \<Rightarrow> h | Some c \<Rightarrow> Some c)" for h
    by (induction commands arbitrary: h) (auto simp: map_add_def split: option.splits)
  then show ?thesis by (simp add: SmartDispatchImpl_def split: option.splits)
qed

section \<open>Parsing a whole payload\<close>

text \<open>The reference: the arguments read from a byte list in one go, and the bytes left over.\<close>

datatype 'a Parsed = Short | TooLong | Parsed 'a "byte list"

definition parse_elems ::
    "nat \<Rightarrow> (nat \<Rightarrow> byte list \<Rightarrow> ArgVal) \<Rightarrow> nat \<Rightarrow> byte list \<Rightarrow> ArgVal Parsed" where
  "parse_elems sz mk n bs =
    (if n * sz > MAX_ALLOC then TooLong
     else if length bs < n * sz then Short
     else Parsed (mk n (take (n * sz) bs)) (drop (n * sz) bs))"

definition parse_counted ::
    "nat \<Rightarrow> (nat \<Rightarrow> byte list \<Rightarrow> ArgVal) \<Rightarrow> byte list \<Rightarrow> ArgVal Parsed" where
  "parse_counted sz mk bs =
    (if length bs < 8 then Short else parse_elems sz mk (unat (word64 (take 8 bs))) (drop 8 bs))"

fun parse_arg :: "ArgType \<Rightarrow> byte list \<Rightarrow> ArgVal Parsed" where
  "parse_arg (APod n) bs = (if length bs < n then Short else Parsed (VPod (take n bs)) (drop n bs))"
| "parse_arg (AVec sz) bs = parse_counted sz VVec bs"
| "parse_arg AString bs = parse_counted 1 (\<lambda>_. VString) bs"
| "parse_arg AStream bs =
    (if length bs < 8 then Short else Parsed (VStream (unat (word64 (take 8 bs)))) (drop 8 bs))"

fun parse_args :: "ArgType list \<Rightarrow> byte list \<Rightarrow> ArgVal list Parsed" where
  "parse_args [] bs = Parsed [] bs"
| "parse_args (ty # tys) bs =
    (case parse_arg ty bs of
       Short \<Rightarrow> Short
     | TooLong \<Rightarrow> TooLong
     | Parsed v rest \<Rightarrow>
         (case parse_args tys rest of
            Short \<Rightarrow> Short | TooLong \<Rightarrow> TooLong | Parsed vs rest2 \<Rightarrow> Parsed (v # vs) rest2))"

text \<open>The same from a slot that has got somewhere already.\<close>

definition parse_slot :: "Slot \<Rightarrow> byte list \<Rightarrow> ArgVal Parsed" where
  "parse_slot s bs =
    (if sl_has_value s then Parsed (sl_value s) bs
     else (case (sl_has_size s, sl_type s) of
             (True, AVec sz) \<Rightarrow> parse_elems sz VVec (sl_size s) bs
           | (True, AString) \<Rightarrow> parse_elems 1 (\<lambda>_. VString) (sl_size s) bs
           | (_, ty) \<Rightarrow> parse_arg ty bs))"

fun parse_slots :: "Slot list \<Rightarrow> byte list \<Rightarrow> ArgVal list Parsed" where
  "parse_slots [] bs = Parsed [] bs"
| "parse_slots (s # ss) bs =
    (case parse_slot s bs of
       Short \<Rightarrow> Short
     | TooLong \<Rightarrow> TooLong
     | Parsed v rest \<Rightarrow>
         (case parse_slots ss rest of
            Short \<Rightarrow> Short | TooLong \<Rightarrow> TooLong | Parsed vs rest2 \<Rightarrow> Parsed (v # vs) rest2))"

definition slot_ok :: "Slot \<Rightarrow> bool" where
  "slot_ok s \<longleftrightarrow> (sl_type s = AStream \<longrightarrow> sl_has_size s = sl_has_value s \<and>
     (sl_has_value s \<longrightarrow> (\<exists>n. sl_value s = VStream n)))"

lemma parse_slots_new: "parse_slots (map Slot_new tys) bs = parse_args tys bs"
  by (induction tys arbitrary: bs) (simp_all add: parse_slot_def Slot_new_def split: Parsed.splits)

text \<open>A step from the bytes \<open>c\<close> to the bytes \<open>c'\<close> that turns the parser \<open>P\<close> into
  \<open>P'\<close> commutes with any bytes \<open>ext\<close> that arrive later.\<close>

definition resumes ::
    "UnpackRes \<Rightarrow> (byte list \<Rightarrow> 'a Parsed) \<Rightarrow> (byte list \<Rightarrow> 'a Parsed) \<Rightarrow> 'a \<Rightarrow> byte list \<Rightarrow> byte list \<Rightarrow> bool" where
  "resumes r P P' v c c' =
    (case r of
       Done \<Rightarrow> (\<forall>ext. P (c @ ext) = Parsed v (c' @ ext))
     | Pending \<Rightarrow> P c = Short \<and> (\<forall>ext. P (c @ ext) = P' (c' @ ext))
     | LengthError \<Rightarrow> (\<forall>ext. P (c @ ext) = TooLong))"

definition reads :: "Buffer \<Rightarrow> Buffer \<Rightarrow> bool" where
  "reads b b' \<longleftrightarrow> (\<exists>k \<le> length (contents b). b' = MarkRead b k)"

lemma reads_refl [simp]: "reads b b"
  unfolding reads_def by (rule exI [of _ 0]) (simp add: MarkRead_def)

lemma reads_trans:
  assumes "buf_ok b" and "reads b b1" and "reads b1 b2"
  shows "reads b b2"
proof -
  obtain k k' where k: "k \<le> length (contents b)" "b1 = MarkRead b k" "k' \<le> length (contents b1)"
    "b2 = MarkRead b1 k'" using assms by (auto simp: reads_def)
  then have "b2 = MarkRead b (k + k')" by (simp add: MarkRead_def)
  moreover have "k + k' \<le> length (contents b)" using k assms(1) by auto
  ultimately show ?thesis by (auto simp: reads_def)
qed

lemma reads_D:
  assumes "buf_ok b" and "reads b b'"
  shows "buf_ok b'" and "limit b' = limit b"
    and "\<exists>k. contents b' = drop k (contents b)" and "length (contents b') \<le> length (contents b)"
  using assms by (auto simp: reads_def)

lemma reads_MarkRead [intro]: "k \<le> length (contents b) \<Longrightarrow> reads b (MarkRead b k)"
  by (auto simp: reads_def)

text \<open>What a call of \<open>Unpack\<close> on one slot promises.\<close>

definition slot_step :: "Slot \<Rightarrow> Buffer \<Rightarrow> UnpackRes \<times> Slot \<times> Buffer \<Rightarrow> bool" where
  "slot_step s b = (\<lambda>(r, s', b').
    reads b b' \<and> sl_type s' = sl_type s \<and> \<not> sl_has_value s' \<and>
    slot_ok (if r = Done then s'\<lparr>sl_has_value := True\<rparr> else s') \<and>
    resumes r (parse_slot s) (parse_slot s') (sl_value s') (contents b) (contents b'))"

lemma slot_step_trans:
  assumes "buf_ok b" and "reads b b1" and "sl_type s1 = sl_type s"
    and "\<And>ext. parse_slot s (contents b @ ext) = parse_slot s1 (contents b1 @ ext)"
    and "slot_step s1 b1 x"
  shows "slot_step s b x"
proof -
  have "parse_slot s (contents b) = parse_slot s1 (contents b1)" using assms(4) [of "[]"] by simp
  then show ?thesis using assms reads_trans [OF assms(1,2)]
    by (simp add: slot_step_def resumes_def split_beta split: UnpackRes.splits)
qed

lemma Unpack_elems_step:
  assumes ok: "buf_ok b" and P: "parse_slot s = parse_elems sz mk (sl_size s)"
    and s: "\<not> sl_has_value s" "sl_type s \<noteq> AStream"
  shows "slot_step s b (Unpack_elems sz mk s b)"
proof -
  let ?n = "sl_size s * sz"
  consider "?n > MAX_ALLOC" | "\<not> ?n > MAX_ALLOC" "length (contents b) < ?n"
    | "\<not> ?n > MAX_ALLOC" "\<not> length (contents b) < ?n" by blast
  then show ?thesis
    by cases (use s ok in \<open>simp_all add: slot_step_def Unpack_elems_def Read_eq resumes_def P
        parse_elems_def slot_ok_def mult.commute reads_MarkRead\<close>)
qed

lemma Unpack_vector_step:
  assumes ok: "buf_ok b" and s: "\<not> sl_has_value s" "sl_type s \<noteq> AStream"
    and P: "\<And>bs. parse_slot s bs = (if sl_has_size s then parse_elems sz mk (sl_size s) bs else parse_counted sz mk bs)"
    and P1: "\<And>n bs. parse_slot (s\<lparr>sl_size := n, sl_has_size := True\<rparr>) bs = parse_elems sz mk n bs"
  shows "slot_step s b (Unpack_vector sz mk s b)"
proof -
  let ?s1 = "s\<lparr>sl_size := unat (word64 (take 8 (contents b))), sl_has_size := True\<rparr>"
  consider "sl_has_size s" | "\<not> sl_has_size s" "length (contents b) < 8"
    | "\<not> sl_has_size s" "\<not> length (contents b) < 8" by blast
  then show ?thesis
  proof cases
    case 1
    with P have "parse_slot s = parse_elems sz mk (sl_size s)" by (simp add: fun_eq_iff)
    then show ?thesis using Unpack_elems_step [OF ok _ s] 1 by (simp add: Unpack_vector_def)
  next
    case 2
    then show ?thesis using ok s
      by (simp add: slot_step_def Unpack_vector_def Read_eq resumes_def slot_ok_def P parse_counted_def)
  next
    case 3
    have b1: "buf_ok (MarkRead b 8)" "contents (MarkRead b 8) = drop 8 (contents b)" "reads b (MarkRead b 8)"
      using ok 3 by auto
    have "parse_slot ?s1 = parse_elems sz mk (sl_size ?s1)" using P1 by (simp add: fun_eq_iff)
    from Unpack_elems_step [OF b1(1) this] have st: "slot_step ?s1 (MarkRead b 8) (Unpack_elems sz mk ?s1 (MarkRead b 8))"
      using s by simp
    have "parse_slot s (contents b @ ext) = parse_slot ?s1 (contents (MarkRead b 8) @ ext)" for ext
      using 3 by (simp add: P P1 parse_counted_def b1(2))
    from slot_step_trans [OF ok b1(3) _ this st] show ?thesis
      using 3 ok by (simp add: Unpack_vector_def Read_eq)
  qed
qed

lemma Unpack_value_step:
  assumes ok: "buf_ok b" and s: "\<not> sl_has_value s" "slot_ok s"
  shows "slot_step s b (Unpack_value s b)"
proof (cases "sl_type s")
  case (APod n)
  then show ?thesis using ok s
    by (cases "length (contents b) < n") (simp_all add: Unpack_value_def Unpack_pod_def Read_eq
        slot_step_def resumes_def slot_ok_def parse_slot_def reads_MarkRead split: bool.split)
next
  case (AVec sz)
  then show ?thesis
    using Unpack_vector_step [OF ok s(1), of sz VVec] s by (simp add: Unpack_value_def parse_slot_def)
next
  case AString
  then show ?thesis
    using Unpack_vector_step [OF ok s(1), of 1 "\<lambda>_. VString"] s by (simp add: Unpack_value_def parse_slot_def)
next
  case AStream
  then show ?thesis using ok s
    by (cases "length (contents b) < 8") (simp_all add: Unpack_value_def Unpack_stream_def Read_eq
        slot_step_def resumes_def slot_ok_def parse_slot_def reads_MarkRead)
qed

text \<open>The same for the whole parameter list.\<close>

definition slots_step :: "Slot list \<Rightarrow> Buffer \<Rightarrow> UnpackRes \<times> Slot list \<times> Buffer \<Rightarrow> bool" where
  "slots_step ss b = (\<lambda>(r, ss', b').
    reads b b' \<and> map sl_type ss' = map sl_type ss \<and> list_all slot_ok ss' \<and>
    (r = Done \<longrightarrow> list_all sl_has_value ss') \<and>
    resumes r (parse_slots ss) (parse_slots ss') (GetValues ss') (contents b) (contents b'))"

lemma parse_slot_value: "sl_has_value s \<Longrightarrow> parse_slot s bs = Parsed (sl_value s) bs"
  by (simp add: parse_slot_def)

lemma parse_slots_Cons_value:
  "sl_has_value s \<Longrightarrow> parse_slots (s # ss) bs =
     (case parse_slots ss bs of Short \<Rightarrow> Short | TooLong \<Rightarrow> TooLong | Parsed vs rest \<Rightarrow> Parsed (sl_value s # vs) rest)"
  by (simp add: parse_slot_def)

lemma Unpack_step:
  "buf_ok b \<Longrightarrow> list_all slot_ok ss \<Longrightarrow> slots_step ss b (Unpack ss b)"
proof (induction ss b rule: Unpack.induct)
  case (1 b)
  then show ?case by (simp add: slots_step_def resumes_def GetValues_def)
next
  case (2 s ss b)
  show ?case
  proof (cases "sl_has_value s")
    case True
    obtain r ss1 b1 where u: "Unpack ss b = (r, ss1, b1)" using prod_cases3 by blast
    have "slots_step ss b (r, ss1, b1)" using 2(1) [OF True] 2(3,4) u by simp
    then show ?thesis using True 2(4) u
      by (auto simp: slots_step_def resumes_def GetValues_def parse_slots_Cons_value
          simp del: parse_slots.simps split: UnpackRes.splits)
  next
    case False
    obtain r s1 b1 where v: "Unpack_value s b = (r, s1, b1)" using prod_cases3 by blast
    have sv: "slot_step s b (r, s1, b1)" using Unpack_value_step [OF 2(3) False] 2(4) v by simp
    show ?thesis
    proof (cases "r = Done")
      case dn: True
      obtain r2 ss2 b2 where u: "Unpack ss b1 = (r2, ss2, b2)" using prod_cases3 by blast
      have b1: "buf_ok b1" using sv reads_D [OF 2(3)] by (auto simp: slot_step_def)
      have "slots_step ss b1 (r2, ss2, b2)" using 2(2) [OF False v [symmetric] dn] b1 2(4) u dn by simp
      moreover have p: "\<forall>ext. parse_slot s (contents b @ ext) = Parsed (sl_value s1) (contents b1 @ ext)"
        using sv dn by (simp add: slot_step_def resumes_def)
      moreover have "parse_slot s (contents b) = Parsed (sl_value s1) (contents b1)"
        using spec [OF p, of "[]"] by simp
      ultimately show ?thesis using False v u dn sv reads_trans [OF 2(3), of b1 b2]
        by (auto simp: slots_step_def slot_step_def resumes_def GetValues_def parse_slot_value
            split: UnpackRes.splits)
    next
      case nd: False
      then show ?thesis using False v sv 2(4)
        by (cases r) (auto simp: slots_step_def slot_step_def resumes_def split: Parsed.splits)
    qed
  qed
qed

section \<open>A request from its first byte to its last\<close>

text \<open>The connection appends what has arrived to the payload buffer and flushes, as often as data
  arrives, and finalizes the request after the last byte.\<close>

fun feed ::
    "(byte list \<Rightarrow> nat) \<Rightarrow> SmartRequestHandler \<Rightarrow> Buffer \<Rightarrow> byte list list \<Rightarrow> SmartRequestHandler flushed" where
  "feed receive h b [] = Inr (h, b, [])"
| "feed receive h b (c # cs) =
    sum_bind (FlushReceiveBuffer receive h (Put b c)) (\<lambda>(h1, b1, evs1).
      sum_bind (feed receive h1 b1 cs) (\<lambda>(h2, b2, evs2). Inr (h2, b2, evs1 @ evs2)))"

definition run_request ::
    "(byte list \<Rightarrow> nat) \<Rightarrow> (byte list \<Rightarrow> nat) \<Rightarrow> ArgType list \<Rightarrow> byte list list \<Rightarrow> SmartRequestHandler flushed" where
  "run_request receive finish tys chunks =
    sum_bind (feed receive (SmartRequestHandler_new tys (length (concat chunks))) Buffer_new chunks)
      (\<lambda>(h, b, evs). sum_bind (Handler_Finalize receive finish h b)
         (\<lambda>(h1, b1, evs1). Inr (h1, b1, evs @ evs1)))"

fun stream_of :: "ArgType list \<Rightarrow> ArgVal list \<Rightarrow> nat option" where
  "stream_of (ty # tys) (v # vs) =
    (if ty = AStream then (case v of VStream n \<Rightarrow> Some n | _ \<Rightarrow> Some 0) else stream_of tys vs)"
| "stream_of _ _ = None"

text \<open>A request is good when its payload is exactly its arguments, or when what follows them has
  the size its stream announces.\<close>

definition accepts :: "ArgType list \<Rightarrow> ArgVal list \<Rightarrow> byte list \<Rightarrow> bool" where
  "accepts tys vs rest \<longleftrightarrow>
    (case stream_of tys vs of None \<Rightarrow> rest = [] | Some n \<Rightarrow> n = length rest)"

fun streamed_bytes :: "HandlerEvent \<Rightarrow> byte list" where
  "streamed_bytes (HReceive offered k) = take k offered"
| "streamed_bytes (HFinish offered) = offered"
| "streamed_bytes _ = []"

fun is_receive :: "HandlerEvent \<Rightarrow> bool" where
  "is_receive (HReceive _ _) = True"
| "is_receive _ = False"

definition streamed :: "HandlerEvent list \<Rightarrow> byte list" where
  "streamed evs = concat (map streamed_bytes evs)"

lemma streamed_simps [simp]:
  "streamed [] = []" "streamed (e # evs) = streamed_bytes e @ streamed evs"
  "streamed (evs @ evs') = streamed evs @ streamed evs'"
  by (simp_all add: streamed_def)

lemma GetStream_stream_of: "GetStream ss = stream_of (map sl_type ss) (GetValues ss)"
  by (induction ss) (simp_all add: GetValues_def split: ArgVal.splits)

text \<open>The three phases of a request with payload \<open>p\<close> of which \<open>f\<close> has arrived: reading its
  arguments, refused, and called.\<close>

definition reading :: "ArgType list \<Rightarrow> SmartRequestHandler \<Rightarrow> Buffer \<Rightarrow> byte list \<Rightarrow> bool" where
  "reading tys h b f \<longleftrightarrow>
    \<not> sh_has_signaled_bad_request h \<and> \<not> sh_streaming h \<and> list_all slot_ok (sh_slots h) \<and>
    sh_consumed_size h + length (contents b) = length f \<and>
    (\<forall>ext. parse_args tys (f @ ext) = parse_slots (sh_slots h) (contents b @ ext))"

definition refused :: "ArgType list \<Rightarrow> byte list \<Rightarrow> SmartRequestHandler \<Rightarrow> bool" where
  "refused tys p h \<longleftrightarrow> sh_has_signaled_bad_request h \<and> \<not> sh_streaming h \<and>
    (\<exists>vs rest. parse_args tys p = Parsed vs rest \<and> \<not> accepts tys vs rest)"

definition called ::
    "ArgType list \<Rightarrow> byte list \<Rightarrow> byte list \<Rightarrow> SmartRequestHandler \<Rightarrow> Buffer \<Rightarrow> HandlerEvent list \<Rightarrow> bool" where
  "called tys p todo h b evs \<longleftrightarrow> \<not> sh_has_signaled_bad_request h \<and> sh_streaming h \<and>
    (\<exists>vs rest evs'. parse_args tys p = Parsed vs rest \<and> accepts tys vs rest \<and> evs = HInvoke vs # evs' \<and>
       GetStream (sh_slots h) = stream_of tys vs \<and> list_all is_receive evs' \<and>
       (stream_of tys vs = None \<longrightarrow> evs' = []) \<and> streamed evs' @ contents b @ todo = rest)"

definition req_inv ::
    "ArgType list \<Rightarrow> byte list \<Rightarrow> byte list \<Rightarrow> SmartRequestHandler \<Rightarrow> Buffer \<Rightarrow> HandlerEvent list \<Rightarrow> bool" where
  "req_inv tys f todo h b evs \<longleftrightarrow>
    sh_payload_size h = length (f @ todo) \<and> buf_ok b \<and> limit b = None \<and>
    map sl_type (sh_slots h) = tys \<and>
    (reading tys h b f \<and> evs = [] \<or> refused tys (f @ todo) h \<and> evs = [HBadRequest] \<or>
     called tys (f @ todo) todo h b evs)"

lemma req_inv_new: "req_inv tys [] p (SmartRequestHandler_new tys (length p)) Buffer_new []"
  by (auto simp: req_inv_def reading_def SmartRequestHandler_new_def parse_slots_new
      comp_def Slot_new_def slot_ok_def list_all_iff)

lemma req_inv_whole:
  "buf_ok b \<Longrightarrow> limit b = None \<Longrightarrow>
    req_inv tys (contents b) [] (SmartRequestHandler_new tys (length (contents b))) b []"
  by (auto simp: req_inv_def reading_def SmartRequestHandler_new_def parse_slots_new
      comp_def Slot_new_def slot_ok_def list_all_iff)

lemma req_inv_arrival: "req_inv tys f (c @ todo) h b evs \<Longrightarrow> req_inv tys (f @ c) todo h (Put b c) evs"
  by (simp add: req_inv_def reading_def called_def) blast

lemma SignalBadRequest_fresh:
  "\<not> sh_has_signaled_bad_request h \<Longrightarrow>
    SignalBadRequest h b = Inr (h\<lparr>sh_has_signaled_bad_request := True\<rparr>, b, [HBadRequest])"
  by (simp add: SignalBadRequest_def)

text \<open>A call of \<open>FlushReceiveBuffer\<close> either throws, because an announced size is too long for
  a vector, or keeps the request in one of its phases.\<close>

lemma flush_reading:
  assumes inv: "req_inv tys f todo h b []" and r: "reading tys h b f"
  shows "case FlushReceiveBuffer receive h b of
           Inl e \<Rightarrow> e = LengthErrorThrown \<and> parse_args tys (f @ todo) = TooLong
         | Inr (h', b', evs) \<Rightarrow> req_inv tys f todo h' b' evs \<and> (reading tys h' b' f \<longrightarrow> parse_args tys f = Short)"
proof -
  obtain u ss b1 where U: "Unpack (sh_slots h) b = (u, ss, b1)" using prod_cases3 by blast
  have ok: "buf_ok b" "limit b = None" and pay: "sh_payload_size h = length (f @ todo)"
    and ty: "map sl_type (sh_slots h) = tys" using inv by (auto simp: req_inv_def)
  have R: "\<not> sh_has_signaled_bad_request h" "\<not> sh_streaming h" "list_all slot_ok (sh_slots h)"
    "sh_consumed_size h + length (contents b) = length f"
    "\<And>ext. parse_args tys (f @ ext) = parse_slots (sh_slots h) (contents b @ ext)"
    using r by (auto simp: reading_def)
  have st: "slots_step (sh_slots h) b (u, ss, b1)" using Unpack_step [OF ok(1) R(3)] U by simp
  then have rd: "reads b b1" and ss: "map sl_type ss = tys" "list_all slot_ok ss"
    and res: "resumes u (parse_slots (sh_slots h)) (parse_slots ss) (GetValues ss) (contents b) (contents b1)"
    using ty by (auto simp: slots_step_def)
  note d = reads_D [OF ok(1) rd]
  let ?c = "sh_consumed_size h + (length (contents b) - length (contents b1))"
  have c: "?c + length (contents b1) = length f" using R(4) d(4) by linarith
  let ?h1 = "h\<lparr>sh_slots := ss, sh_consumed_size := ?c\<rparr>"
  show ?thesis
  proof (cases u)
    case Pending
    have "parse_args tys f = Short" using res Pending R(5) [of "[]"] by (simp add: resumes_def)
    moreover have "reading tys ?h1 b1 f" using Pending res R c ss by (simp add: reading_def resumes_def)
    ultimately show ?thesis using U R d ok Pending ss pay
      by (simp add: FlushReceiveBuffer_def req_inv_def)
  next
    case LengthError
    then show ?thesis using U R res by (simp add: FlushReceiveBuffer_def resumes_def)
  next
    case Done
    let ?rest = "contents b1 @ todo"
    have p: "parse_args tys (f @ todo) = Parsed (GetValues ss) ?rest"
      using res Done R(5) by (simp add: resumes_def)
    have g: "GetStream ss = stream_of tys (GetValues ss)" using GetStream_stream_of [of ss] ss by simp
    have left: "size_sub (length f + length todo) ?c = length ?rest" using c by simp
    have good: "accepts tys (GetValues ss) ?rest \<longleftrightarrow> (case GetStream ss of
        Some n \<Rightarrow> n = size_sub (sh_payload_size ?h1) ?c | None \<Rightarrow> \<not> ?c < sh_payload_size ?h1)"
      using c pay g left by (auto simp: accepts_def split: option.split)
    have F: "FlushReceiveBuffer receive h b =
        (if accepts tys (GetValues ss) ?rest
         then Inr (?h1\<lparr>sh_streaming := True\<rparr>, b1, [HInvoke (GetValues ss)])
         else Inr (?h1\<lparr>sh_has_signaled_bad_request := True\<rparr>, b1, [HBadRequest]))"
      using U R(1,2) Done ok d(1) unfolding good
      by (simp add: FlushReceiveBuffer_def SignalBadRequest_fresh split: option.split)
    show ?thesis unfolding F using p g d ok ss pay R(1,2)
      by (auto simp: req_inv_def refused_def called_def reading_def)
  qed
qed

lemma flush_refused:
  assumes "req_inv tys f todo h b evs" and "refused tys (f @ todo) h"
  shows "\<exists>b'. FlushReceiveBuffer receive h b = Inr (h, b', []) \<and> req_inv tys f todo h b' evs"
  using assms by (auto simp: FlushReceiveBuffer_def Discard_def req_inv_def refused_def reading_def called_def)

lemma flush_called:
  assumes inv: "req_inv tys f todo h b evs" and c: "called tys (f @ todo) todo h b evs"
    and k: "\<And>bs. receive bs \<le> length bs"
  shows "\<exists>b' evs'. FlushReceiveBuffer receive h b = Inr (h, b', evs') \<and>
    req_inv tys f todo h b' (evs @ evs') \<and> called tys (f @ todo) todo h b' (evs @ evs')"
proof -
  obtain vs rest evs' where C: "\<not> sh_has_signaled_bad_request h" "sh_streaming h"
    "parse_args tys (f @ todo) = Parsed vs rest" "accepts tys vs rest" "evs = HInvoke vs # evs'"
    "GetStream (sh_slots h) = stream_of tys vs" "list_all is_receive evs'"
    "stream_of tys vs = None \<longrightarrow> evs' = []" "streamed evs' @ contents b @ todo = rest"
    using c by (auto simp: called_def)
  have ok: "buf_ok b" "limit b = None" using inv by (auto simp: req_inv_def)
  show ?thesis
  proof (cases "stream_of tys vs")
    case None
    then have "contents b = []" using C(4,9) by (simp add: accepts_def)
    then have "FlushReceiveBuffer receive h b = Inr (h, b, [])"
      using C None ok by (simp add: FlushReceiveBuffer_def)
    then show ?thesis using inv c by auto
  next
    case (Some n)
    let ?k = "receive (contents b)"
    let ?b = "MarkRead b ?k"
    have b: "contents ?b = drop ?k (contents b)" "buf_ok ?b" using ok k by auto
    have F: "FlushReceiveBuffer receive h b = Inr (h, ?b, [HReceive (contents b) ?k])"
      using C Some by (simp add: FlushReceiveBuffer_def Let_def)
    have e: "take ?k (contents b) @ contents ?b @ todo = contents b @ todo"
      by (simp only: b(1) append_assoc [symmetric] append_take_drop_id)
    have "streamed evs' @ take ?k (contents b) @ contents ?b @ todo = rest"
      using C(9) by (simp only: e)
    then have "called tys (f @ todo) todo h ?b (evs @ [HReceive (contents b) ?k])"
      unfolding called_def using C Some by simp
    then show ?thesis using F inv b ok by (auto simp: req_inv_def)
  qed
qed

lemma flush_inv:
  assumes inv: "req_inv tys f todo h b evs" and k: "\<And>bs. receive bs \<le> length bs"
  shows "case FlushReceiveBuffer receive h b of
           Inl e \<Rightarrow> e = LengthErrorThrown \<and> parse_args tys (f @ todo) = TooLong
         | Inr (h', b', evs') \<Rightarrow> req_inv tys f todo h' b' (evs @ evs') \<and>
             (reading tys h' b' f \<longrightarrow> parse_args tys f = Short)"
proof -
  consider "reading tys h b f" "evs = []" | "refused tys (f @ todo) h" | "called tys (f @ todo) todo h b evs"
    using inv by (auto simp: req_inv_def)
  then show ?thesis
  proof cases
    case 1
    then show ?thesis using flush_reading [of tys f todo h b receive] inv
      by (simp split: sum.splits prod.splits)
  next
    case 2
    then show ?thesis using flush_refused [OF inv 2, of receive] by (auto simp: reading_def refused_def)
  next
    case 3
    then show ?thesis using flush_called [OF inv 3, of receive] k by (fastforce simp: reading_def called_def)
  qed
qed

lemma feed_inv:
  assumes "req_inv tys f (concat cs) h b evs" and k: "\<And>bs. receive bs \<le> length bs"
  shows "case feed receive h b cs of
           Inl e \<Rightarrow> e = LengthErrorThrown \<and> parse_args tys (f @ concat cs) = TooLong
         | Inr (h', b', evs') \<Rightarrow> req_inv tys (f @ concat cs) [] h' b' (evs @ evs')"
  using assms(1)
proof (induction cs arbitrary: f h b evs)
  case (Cons c cs)
  have a: "req_inv tys (f @ c) (concat cs) h (Put b c) evs"
    using req_inv_arrival Cons.prems by simp
  note fl = flush_inv [OF a k]
  show ?case
  proof (cases "FlushReceiveBuffer receive h (Put b c)")
    case (Inl e)
    then show ?thesis using fl by simp
  next
    case (Inr x)
    obtain h1 b1 e1 where x: "x = (h1, b1, e1)" using prod_cases3 by blast
    have "req_inv tys (f @ c) (concat cs) h1 b1 (evs @ e1)" using fl Inr x by simp
    from Cons.IH [OF this] show ?thesis using Inr x
      by (cases "feed receive h1 b1 cs") (auto split: prod.splits)
  qed
qed simp

text \<open>What the handler of a command with parameters \<open>tys\<close> does with the payload \<open>p\<close>.\<close>

definition request_outcome :: "ArgType list \<Rightarrow> byte list \<Rightarrow> SmartRequestHandler flushed \<Rightarrow> bool" where
  "request_outcome tys p res =
    (case parse_args tys p of
       TooLong \<Rightarrow> res = Inl LengthErrorThrown
     | Short \<Rightarrow> (\<exists>h b. res = Inr (h, b, []))
     | Parsed vs rest \<Rightarrow>
         if \<not> accepts tys vs rest then (\<exists>h b. res = Inr (h, b, [HBadRequest]))
         else if stream_of tys vs = None then (\<exists>h b. res = Inr (h, b, [HInvoke vs]))
         else (\<exists>h b evs last. res = Inr (h, b, HInvoke vs # evs @ [HFinish last]) \<and>
                 list_all is_receive evs \<and> streamed (evs @ [HFinish last]) = rest))"

lemma finalize_outcome:
  assumes inv: "req_inv tys p [] h b evs" and k: "\<And>bs. receive bs \<le> length bs"
  shows "request_outcome tys p (sum_bind (Handler_Finalize receive finish h b)
    (\<lambda>(h1, b1, evs1). Inr (h1, b1, evs @ evs1)))"
proof (cases "FlushReceiveBuffer receive h b")
  case (Inl e)
  then show ?thesis using flush_inv [OF inv k] by (simp add: Handler_Finalize_def request_outcome_def)
next
  case (Inr x)
  obtain h1 b1 e1 where x: "x = (h1, b1, e1)" using prod_cases3 by blast
  have inv1: "req_inv tys p [] h1 b1 (evs @ e1)" and short: "reading tys h1 b1 p \<Longrightarrow> parse_args tys p = Short"
    using flush_inv [OF inv k] Inr x by auto
  consider "reading tys h1 b1 p" "evs @ e1 = []" | "refused tys p h1" "evs @ e1 = [HBadRequest]"
    | "called tys p [] h1 b1 (evs @ e1)" using inv1 by (auto simp: req_inv_def)
  then show ?thesis
  proof cases
    case 1
    then show ?thesis using short Inr x
      by (simp add: Handler_Finalize_def request_outcome_def reading_def)
  next
    case 2
    then show ?thesis using Inr x
      by (auto simp: Handler_Finalize_def request_outcome_def refused_def)
  next
    case 3
    then obtain vs rest evs' where C: "sh_streaming h1" "parse_args tys p = Parsed vs rest"
      "accepts tys vs rest" "evs @ e1 = HInvoke vs # evs'" "GetStream (sh_slots h1) = stream_of tys vs"
      "list_all is_receive evs'" "stream_of tys vs = None \<longrightarrow> evs' = []" "streamed evs' @ contents b1 = rest"
      by (auto simp: called_def)
    show ?thesis
    proof (cases "stream_of tys vs")
      case None
      then show ?thesis using C Inr x by (simp add: Handler_Finalize_def request_outcome_def)
    next
      case (Some n)
      have "evs @ e1 @ [HFinish (contents b1)] = HInvoke vs # evs' @ [HFinish (contents b1)]"
        using C(4) by simp
      then show ?thesis using C(1-3,5,6,8) Some Inr x by (simp add: Handler_Finalize_def request_outcome_def)
    qed
  qed
qed

lemma run_request_outcome:
  assumes "\<And>bs. receive bs \<le> length bs"
  shows "request_outcome tys (concat chunks) (run_request receive finish tys chunks)"
proof -
  note f = feed_inv [OF req_inv_new [of tys "concat chunks"] assms, simplified]
  show ?thesis
  proof (cases "feed receive (SmartRequestHandler_new tys (length (concat chunks))) Buffer_new chunks")
    case (Inl e)
    then show ?thesis using f by (simp add: run_request_def request_outcome_def)
  next
    case (Inr x)
    obtain h b evs where "x = (h, b, evs)" using prod_cases3 by blast
    then show ?thesis using f Inr finalize_outcome [OF _ assms] by (simp add: run_request_def)
  qed
qed

text \<open>C2: the handler of a command, whatever its parameters and however its payload is split on
  arrival, does what parsing the whole payload at once says: it calls the command exactly once,
  with the parsed arguments, when the payload is exactly them, and hands the bytes after them to
  the input stream in order, none lost, with one final \<open>finish\<close>; it answers
  \<open>PROTOCOL_BAD_REQUEST\<close> exactly once, and does not call, when the sizes do not add up; it throws
  when a vector's announced size is too long; and it does nothing at all, so that the host waits
  for ever, when the payload ends before the arguments do. It never aborts.\<close>

theorem request_handled:
  assumes "\<And>bs. receive bs \<le> length bs"
  shows "request_outcome tys (concat chunks) (run_request receive finish tys chunks)"
  by (rule run_request_outcome [OF assms])

theorem request_handled_witness:
  "request_outcome [APod 4, AStream] (concat [[1, 0], [0, 0, 2, 0, 0, 0], [0, 0, 0, 0, 65], [66]])
     (run_request (\<lambda>bs. length bs - 1) length [APod 4, AStream] [[1, 0], [0, 0, 2, 0, 0, 0], [0, 0, 0, 0, 65], [66]])"
  by (rule request_handled) simp

end
