(* ===== verification/TcpConnection.thy ===== *)
theory TcpConnection
  imports Request
begin

text \<open>
  \<open>TCPBridge::Connection\<close> (src/twili/bridge/tcp/Connection.cpp): the framing of requests on a
  TCP stream. The objects and their request handlers are behind virtual functions; here they are a
  record of functions over a type of objects \<open>'o\<close> and one of handlers \<open>'h\<close> (\<open>None\<close> is
  the discarding handler). The I/O thread hands every task to the main thread and waits for it, so
  a task is a call. \<open>deletion_flag\<close>, the socket, the objects and the object counter are those of
  the link the responses use.
\<close>

section \<open>The connection\<close>

record ('o, 'h) Connection =
  cn_link :: "'o TcpLink"
  cn_in_buffer :: Buffer
  cn_has_current_mh :: bool
  cn_has_current_payload :: bool
  cn_current_mh :: MessageHeader
  cn_payload_size :: nat
  cn_payload_buffer :: Buffer
  cn_current_object :: "'o option"
  cn_current_handler :: "'h option"

type_synonym ('o, 'h) conn_result = "Stop + ('o, 'h) Connection"

text \<open>\<open>Object::OpenRequest\<close> and \<open>Object::FinalizeCommand\<close>, \<open>RequestHandler\<close>'s
  \<open>FlushReceiveBuffer\<close> and \<open>Finalize\<close>. The opener is the state of the new response; the
  link is what a handler may respond over.\<close>

record ('o, 'h) BridgeOps =
  bo_OpenRequest :: "'o \<Rightarrow> u32 \<Rightarrow> nat \<Rightarrow> 'o TcpLink response \<Rightarrow> Stop + 'h option \<times> 'o TcpLink"
  bo_FinalizeCommand :: "'o \<Rightarrow> 'o TcpLink \<Rightarrow> 'o TcpLink"
  bo_Flush :: "'h \<Rightarrow> Buffer \<Rightarrow> 'o TcpLink \<Rightarrow> Stop + 'h \<times> Buffer \<times> 'o TcpLink"
  bo_Finalize :: "'h \<Rightarrow> Buffer \<Rightarrow> 'o TcpLink \<Rightarrow> Stop + 'h \<times> Buffer \<times> 'o TcpLink"

text \<open>The members without an initialiser start with whatever is in memory: \<open>mh0\<close> and
  \<open>size0\<close>.\<close>

definition Connection_new ::
    "MessageHeader \<Rightarrow> nat \<Rightarrow> (nat \<Rightarrow> nat \<Rightarrow> int) \<Rightarrow> 'o \<Rightarrow> ('o, 'h) Connection" where
  "Connection_new mh0 size0 send object_zero =
    \<lparr>cn_link = \<lparr>tl_deletion_flag = False, tl_closed = False, tl_wire = [], tl_calls = 0, tl_send = send,
       tl_next_object_id = 1, tl_objects = [0 \<mapsto> object_zero]\<rparr>,
     cn_in_buffer = Buffer_new, cn_has_current_mh = False, cn_has_current_payload = False,
     cn_current_mh = mh0, cn_payload_size = size0, cn_payload_buffer = Buffer_new,
     cn_current_object = None, cn_current_handler = None\<rparr>"

text \<open>\<open>received\<close> is what \<open>bsd_recv\<close> stored, at most the room \<open>Reserve\<close> found, and
  \<open>None\<close> when it returned zero or less.\<close>

definition PumpInput :: "byte list option \<Rightarrow> ('o, 'h) Connection \<Rightarrow> ('o, 'h) Connection" where
  "PumpInput recvd c =
    (let (room, b) = Reserve (cn_in_buffer c) 8192 in
     case recvd of
       None \<Rightarrow> c\<lparr>cn_in_buffer := b, cn_link := Panic (cn_link c)\<rparr>
     | Some bs \<Rightarrow> c\<lparr>cn_in_buffer := MarkWritten (fill b bs) (length bs)\<rparr>)"

definition ResetHandler :: "('o, 'h) Connection \<Rightarrow> ('o, 'h) Connection" where
  "ResetHandler c = c\<lparr>cn_current_handler := None\<rparr>"

fun answer :: "('o, 'h) Connection \<Rightarrow> u32 + 'o TcpLink response \<Rightarrow> ('o, 'h) conn_result" where
  "answer c (Inl e) = Inl (Aborted e)"
| "answer c (Inr (rs, t)) = Inr (c\<lparr>cn_link := t\<rparr>)"

definition BeginProcessingCommandImpl ::
    "('o, 'h) BridgeOps \<Rightarrow> MessageHeader \<Rightarrow> ('o, 'h) Connection \<Rightarrow> ('o, 'h) conn_result" where
  "BeginProcessingCommandImpl ops hdr0 c =
    (let mh = cn_current_mh c;
         t = cn_link c;
         state = ResponseState_new (mh_client_id mh) (mh_tag mh)
     in case tl_objects t (mh_object_id mh) of
          None \<Rightarrow> answer c (RespondError tcp_ops hdr0 TWILI_ERR_PROTOCOL_UNRECOGNIZED_OBJECT (state, t))
        | Some obj \<Rightarrow>
            if mh_command_id mh = CLOSE_COMMAND then
              (let t1 = (if mh_object_id mh = 0 then t
                         else t\<lparr>tl_objects := (tl_objects t)(mh_object_id mh := None)\<rparr>)
               in answer c (RespondOk tcp_ops hdr0 [] (state, t1)))
            else
              sum_bind (bo_OpenRequest ops obj (mh_command_id mh) (unat (mh_payload_size mh)) (state, t))
                (\<lambda>(handler, t1). Inr (c\<lparr>cn_current_object := Some obj, cn_current_handler := handler,
                                       cn_link := t1\<rparr>)))"

definition Sync_Flush :: "('o, 'h) BridgeOps \<Rightarrow> ('o, 'h) Connection \<Rightarrow> ('o, 'h) conn_result" where
  "Sync_Flush ops c =
    (case cn_current_handler c of
       None \<Rightarrow> Inr (c\<lparr>cn_payload_buffer := Discard (cn_payload_buffer c)\<rparr>)
     | Some h \<Rightarrow>
         sum_bind (bo_Flush ops h (cn_payload_buffer c) (cn_link c)) (\<lambda>(h1, b1, t1).
           Inr (c\<lparr>cn_current_handler := Some h1, cn_payload_buffer := b1, cn_link := t1\<rparr>)))"

definition Sync_Finalize :: "('o, 'h) BridgeOps \<Rightarrow> ('o, 'h) Connection \<Rightarrow> ('o, 'h) conn_result" where
  "Sync_Finalize ops c =
    sum_bind
      (case cn_current_handler c of
         None \<Rightarrow> Inr (c\<lparr>cn_payload_buffer := Discard (cn_payload_buffer c)\<rparr>)
       | Some h \<Rightarrow>
           sum_bind (bo_Finalize ops h (cn_payload_buffer c) (cn_link c)) (\<lambda>(h1, b1, t1).
             Inr (c\<lparr>cn_payload_buffer := b1, cn_link := t1\<rparr>)))
      (\<lambda>c1. Inr (ResetHandler
         (case cn_current_object c1 of
            None \<Rightarrow> c1
          | Some obj \<Rightarrow> c1\<lparr>cn_link := bo_FinalizeCommand ops obj (cn_link c1), cn_current_object := None\<rparr>)))"

text \<open>The first half of the loop of \<open>Process\<close>.\<close>

definition Process_header ::
    "('o, 'h) BridgeOps \<Rightarrow> MessageHeader \<Rightarrow> ('o, 'h) Connection \<Rightarrow> ('o, 'h) conn_result" where
  "Process_header ops hdr0 c =
    (if cn_has_current_mh c then Inr c
     else (case Read_header (cn_in_buffer c) of
             Some (mh, b) \<Rightarrow>
               BeginProcessingCommandImpl ops hdr0
                 (c\<lparr>cn_in_buffer := b, cn_current_mh := mh, cn_has_current_mh := True,
                    cn_payload_size := 0, cn_payload_buffer := Clear (cn_payload_buffer c),
                    cn_has_current_payload := False\<rparr>)
           | None \<Rightarrow> Inr (c\<lparr>cn_in_buffer := snd (Reserve (cn_in_buffer c) sizeof_MessageHeader)\<rparr>)))"

text \<open>The second half; the flag tells whether the loop goes on. \<open>payload_buffer\<close> is unlimited,
  so the copy always has room.\<close>

definition Process_payload ::
    "('o, 'h) BridgeOps \<Rightarrow> ('o, 'h) Connection \<Rightarrow> Stop + bool \<times> ('o, 'h) Connection" where
  "Process_payload ops c =
    (if cn_has_current_payload c then Inr (True, c)
     else
       (let total = unat (mh_payload_size (cn_current_mh c));
            missing = size_sub total (cn_payload_size c);
            avail = (if ReadAvailable (cn_in_buffer c) > missing then missing else ReadAvailable (cn_in_buffer c));
            c1 = (case Read_Buffer (cn_in_buffer c) (cn_payload_buffer c) avail of
                    Some (_, i, p) \<Rightarrow> c\<lparr>cn_in_buffer := i, cn_payload_buffer := p\<rparr>
                  | None \<Rightarrow> c);
            c2 = c1\<lparr>cn_payload_size := cn_payload_size c1 + avail\<rparr>
        in sum_bind (Sync_Flush ops c2) (\<lambda>c3.
             if cn_payload_size c3 = total then
               sum_bind (Sync_Finalize ops c3) (\<lambda>c4.
                 Inr (True, c4\<lparr>cn_has_current_mh := False, cn_has_current_payload := False\<rparr>))
             else Inr (False, c3))))"

text \<open>The loop, with the number of iterations it is allowed; \<open>None\<close> is a loop that has not
  ended by then.\<close>

fun Connection_Process ::
    "nat \<Rightarrow> ('o, 'h) BridgeOps \<Rightarrow> MessageHeader \<Rightarrow> ('o, 'h) Connection \<Rightarrow> ('o, 'h) conn_result option" where
  "Connection_Process 0 ops hdr0 c = None"
| "Connection_Process (Suc n) ops hdr0 c =
    (if \<not> tl_deletion_flag (cn_link c) \<and> ReadAvailable (cn_in_buffer c) > 0 then
       (case sum_bind (Process_header ops hdr0 c) (Process_payload ops) of
          Inl e \<Rightarrow> Some (Inl e)
        | Inr (True, c1) \<Rightarrow> Connection_Process n ops hdr0 c1
        | Inr (False, c1) \<Rightarrow> Some (Inr c1))
     else Some (Inr c))"

section \<open>The contract of request handlers\<close>

text \<open>RequestHandler.hpp: a handler \<open>is free to Read () as much or as little data as it wants, as
  long as it doesn't Read () out-of-bounds\<close>. Under this contract the connection's buffers stay
  well formed, whatever the objects do and whatever the host sends.\<close>

definition bufs_ok :: "('o, 'h) Connection \<Rightarrow> bool" where
  "bufs_ok c \<longleftrightarrow> buf_ok (cn_in_buffer c) \<and> limit (cn_in_buffer c) = None \<and>
    buf_ok (cn_payload_buffer c) \<and> limit (cn_payload_buffer c) = None"

lemma Discard_ok: "buf_ok b \<Longrightarrow> buf_ok (Discard b) \<and> limit (Discard b) = limit b"
  by (simp add: Discard_def)

lemma answer_bufs: "answer c r = Inr c' \<Longrightarrow> bufs_ok c' = bufs_ok c"
  by (cases r) (auto simp: bufs_ok_def)

lemma PumpInput_bufs:
  assumes "bufs_ok c" and "\<And>bs. recvd = Some bs \<Longrightarrow> length bs \<le> fst (Reserve (cn_in_buffer c) 8192)"
  shows "bufs_ok (PumpInput recvd c)"
proof -
  obtain room b where R: "Reserve (cn_in_buffer c) 8192 = (room, b)" by fastforce
  have ok: "buf_ok (cn_in_buffer c)" "limit (cn_in_buffer c) = None" using assms(1) by (auto simp: bufs_ok_def)
  note r = Reserve_refine [OF ok(1) R]
  show ?thesis
  proof (cases recvd)
    case None
    then show ?thesis using assms(1) r R ok by (simp add: PumpInput_def bufs_ok_def)
  next
    case (Some bs)
    then have "length bs \<le> length (bdata b) - write_head b" using assms(2) R r(4) by simp
    from fill_MarkWritten [OF r(2) this] show ?thesis
      using Some assms(1) R r ok by (simp add: PumpInput_def bufs_ok_def)
  qed
qed

locale request_handlers =
  fixes ops :: "('o, 'h) BridgeOps"
  assumes flush_reads: "buf_ok b \<Longrightarrow> bo_Flush ops h b t = Inr (h', b', t') \<Longrightarrow> reads b b'"
    and finalize_reads: "buf_ok b \<Longrightarrow> bo_Finalize ops h b t = Inr (h', b', t') \<Longrightarrow> reads b b'"
begin

lemma Sync_Flush_bufs:
  assumes "bufs_ok c" and F: "Sync_Flush ops c = Inr c'"
  shows "bufs_ok c'"
proof (cases "cn_current_handler c")
  case None
  then show ?thesis using assms Discard_ok by (auto simp: Sync_Flush_def bufs_ok_def)
next
  case (Some h)
  then obtain h1 b1 t1 where f: "bo_Flush ops h (cn_payload_buffer c) (cn_link c) = Inr (h1, b1, t1)"
    and c': "c' = c\<lparr>cn_current_handler := Some h1, cn_payload_buffer := b1, cn_link := t1\<rparr>"
    using F by (auto simp: Sync_Flush_def sum_bind_eq_Inr)
  have ok: "buf_ok (cn_payload_buffer c)" using assms(1) by (simp add: bufs_ok_def)
  from reads_D [OF ok flush_reads [OF ok f]] show ?thesis using assms(1) c' by (simp add: bufs_ok_def)
qed

lemma Sync_Finalize_bufs:
  assumes "bufs_ok c" and F: "Sync_Finalize ops c = Inr c'"
  shows "bufs_ok c'"
proof -
  have ok: "buf_ok (cn_payload_buffer c)" using assms(1) by (simp add: bufs_ok_def)
  obtain c1 :: "('o, 'h) Connection" where c1: "bufs_ok c1" and c': "cn_in_buffer c' = cn_in_buffer c1" "cn_payload_buffer c' = cn_payload_buffer c1"
  proof (cases "cn_current_handler c")
    case None
    then show thesis using that [of "c\<lparr>cn_payload_buffer := Discard (cn_payload_buffer c)\<rparr>"] F assms(1) Discard_ok
      by (auto simp: Sync_Finalize_def ResetHandler_def bufs_ok_def split: option.splits)
  next
    case (Some h)
    then obtain h1 b1 t1 where f: "bo_Finalize ops h (cn_payload_buffer c) (cn_link c) = Inr (h1, b1, t1)"
      and c': "cn_in_buffer c' = cn_in_buffer c" "cn_payload_buffer c' = b1"
      using F by (auto simp: Sync_Finalize_def ResetHandler_def sum_bind_eq_Inr split: option.splits)
    from reads_D [OF ok finalize_reads [OF ok f]] show thesis
      using that [of "c\<lparr>cn_payload_buffer := b1\<rparr>"] c' assms(1) by (simp add: bufs_ok_def)
  qed
  then show ?thesis by (simp add: bufs_ok_def)
qed

lemma Process_header_bufs:
  assumes "bufs_ok c" and H: "Process_header ops hdr0 c = Inr c'"
  shows "bufs_ok c'"
proof (cases "cn_has_current_mh c")
  case False
  have ok: "buf_ok (cn_in_buffer c)" "limit (cn_in_buffer c) = None" using assms(1) by (auto simp: bufs_ok_def)
  show ?thesis
  proof (cases "Read_header (cn_in_buffer c)")
    case None
    obtain room b where R: "Reserve (cn_in_buffer c) sizeof_MessageHeader = (room, b)" by fastforce
    then show ?thesis using H False None assms(1) Reserve_refine [OF ok(1) R]
      by (auto simp: Process_header_def bufs_ok_def simp del: Read_header_None)
  next
    case (Some x)
    obtain mh b where x: "x = (mh, b)" by fastforce
    let ?c = "c\<lparr>cn_in_buffer := b, cn_current_mh := mh, cn_has_current_mh := True, cn_payload_size := 0,
      cn_payload_buffer := Clear (cn_payload_buffer c), cn_has_current_payload := False\<rparr>"
    have "bufs_ok ?c" using assms(1) Read_header_SomeD [OF ok(1), of mh b] Some x ok
      by (simp add: bufs_ok_def)
    moreover have "BeginProcessingCommandImpl ops hdr0 ?c = Inr c'"
      using H False Some x by (simp add: Process_header_def)
    ultimately show ?thesis
      by (auto simp: BeginProcessingCommandImpl_def Let_def sum_bind_eq_Inr bufs_ok_def
          dest: answer_bufs split: option.splits if_splits)
  qed
qed (use assms in \<open>simp add: Process_header_def\<close>)

lemma Process_payload_bufs:
  assumes "bufs_ok c" and P: "Process_payload ops c = Inr (again, c')"
  shows "bufs_ok c'"
proof (cases "cn_has_current_payload c")
  case False
  have ok: "buf_ok (cn_in_buffer c)" "buf_ok (cn_payload_buffer c)" "limit (cn_payload_buffer c) = None"
    using assms(1) by (auto simp: bufs_ok_def)
  define avail where "avail = (let missing = size_sub (unat (mh_payload_size (cn_current_mh c))) (cn_payload_size c)
    in if ReadAvailable (cn_in_buffer c) > missing then missing else ReadAvailable (cn_in_buffer c))"
  have "avail \<le> length (contents (cn_in_buffer c))" using ok(1) by (simp add: avail_def Let_def)
  from ok this obtain i p where ip: "Read_Buffer (cn_in_buffer c) (cn_payload_buffer c) avail = Some (True, i, p)"
    "buf_ok i" "limit i = limit (cn_in_buffer c)" "buf_ok p" "limit p = None" by (rule Read_Buffer_unlimited)
  let ?c2 = "c\<lparr>cn_in_buffer := i, cn_payload_buffer := p, cn_payload_size := cn_payload_size c + avail\<rparr>"
  have c2: "bufs_ok ?c2" using ip assms(1) by (simp add: bufs_ok_def)
  have "Process_payload ops c = sum_bind (Sync_Flush ops ?c2) (\<lambda>c3.
      if cn_payload_size c3 = unat (mh_payload_size (cn_current_mh c)) then sum_bind (Sync_Finalize ops c3)
        (\<lambda>c4. Inr (True, c4\<lparr>cn_has_current_mh := False, cn_has_current_payload := False\<rparr>))
      else Inr (False, c3))"
    using False ip by (simp add: Process_payload_def avail_def Let_def)
  with P obtain c3 where c3: "Sync_Flush ops ?c2 = Inr c3"
    and c': "c' = c3 \<or> (\<exists>c4. Sync_Finalize ops c3 = Inr c4 \<and> cn_in_buffer c' = cn_in_buffer c4 \<and>
      cn_payload_buffer c' = cn_payload_buffer c4)"
    by (cases "Sync_Flush ops ?c2") (auto simp: sum_bind_eq_Inr split: if_splits)
  have "bufs_ok c3" using Sync_Flush_bufs [OF c2 c3] .
  with c' show ?thesis
  proof (elim disjE exE conjE)
    fix c4
    assume "Sync_Finalize ops c3 = Inr c4" "cn_in_buffer c' = cn_in_buffer c4" "cn_payload_buffer c' = cn_payload_buffer c4"
    with Sync_Finalize_bufs [OF \<open>bufs_ok c3\<close>, of c4] show ?thesis by (simp add: bufs_ok_def)
  qed simp
qed (use assms in \<open>simp add: Process_payload_def\<close>)

lemma Process_bufs: "bufs_ok c \<Longrightarrow> Connection_Process n ops hdr0 c = Some (Inr c') \<Longrightarrow> bufs_ok c'"
proof (induction n arbitrary: c)
  case (Suc n)
  show ?case
  proof (cases "\<not> tl_deletion_flag (cn_link c) \<and> ReadAvailable (cn_in_buffer c) > 0")
    case True
    then obtain again c2 where S: "sum_bind (Process_header ops hdr0 c) (Process_payload ops) = Inr (again, c2)"
      and c': "if again then Connection_Process n ops hdr0 c2 = Some (Inr c') else c' = c2"
      using Suc.prems(2) by (auto split: sum.splits bool.splits prod.splits)
    from S obtain c1 where "Process_header ops hdr0 c = Inr c1" "Process_payload ops c1 = Inr (again, c2)"
      by (auto simp: sum_bind_eq_Inr)
    then have "bufs_ok c2" using Process_header_bufs [OF Suc.prems(1)] Process_payload_bufs by blast
    then show ?thesis using c' Suc.IH by (auto split: if_splits)
  qed (use Suc.prems in auto)
qed simp

end

section \<open>Objects with smart handlers\<close>

text \<open>An object is its command table: for each command its parameters and what it answers, an
  error or values, as a function of its arguments. A handler is a \<open>SmartRequestHandler\<close> with the
  response state of its opener.\<close>

type_synonym command_body = "ArgVal list \<Rightarrow> u32 + PackVal list"

datatype TwibObject = TwibObject (ob_commands: "(u32 \<times> ArgType list \<times> command_body) list")

record BoundHandler =
  bh_handler :: SmartRequestHandler
  bh_state :: ResponseState
  bh_body :: command_body

definition handle_event ::
    "MessageHeader \<Rightarrow> command_body \<Rightarrow> HandlerEvent \<Rightarrow> 'o TcpLink response \<Rightarrow> u32 + 'o TcpLink response" where
  "handle_event hdr0 body ev s =
    (case ev of
       HInvoke vs \<Rightarrow>
         (case body vs of Inl e \<Rightarrow> RespondError tcp_ops hdr0 e s | Inr vals \<Rightarrow> RespondOk tcp_ops hdr0 vals s)
     | HBadRequest \<Rightarrow> RespondError tcp_ops hdr0 TWILI_ERR_PROTOCOL_BAD_REQUEST s
     | _ \<Rightarrow> Inr s)"

fun handle_events ::
    "MessageHeader \<Rightarrow> command_body \<Rightarrow> HandlerEvent list \<Rightarrow> 'o TcpLink response \<Rightarrow> u32 + 'o TcpLink response" where
  "handle_events hdr0 body [] s = Inr s"
| "handle_events hdr0 body (ev # evs) s =
    sum_bind (handle_event hdr0 body ev s) (handle_events hdr0 body evs)"

definition run_handler ::
    "MessageHeader \<Rightarrow> (SmartRequestHandler \<Rightarrow> Buffer \<Rightarrow> SmartRequestHandler flushed) \<Rightarrow>
     BoundHandler \<Rightarrow> Buffer \<Rightarrow> 'o TcpLink \<Rightarrow> Stop + BoundHandler \<times> Buffer \<times> 'o TcpLink" where
  "run_handler hdr0 f bh b t =
    sum_bind (f (bh_handler bh) b) (\<lambda>(h1, b1, evs).
      case handle_events hdr0 (bh_body bh) evs (bh_state bh, t) of
        Inl e \<Rightarrow> Inl (Aborted e)
      | Inr (rs1, t1) \<Rightarrow> Inr (bh\<lparr>bh_handler := h1, bh_state := rs1\<rparr>, b1, t1))"

definition Object_OpenRequest ::
    "MessageHeader \<Rightarrow> TwibObject \<Rightarrow> u32 \<Rightarrow> nat \<Rightarrow> 'o TcpLink response \<Rightarrow>
     Stop + BoundHandler option \<times> 'o TcpLink" where
  "Object_OpenRequest hdr0 obj command_id payload_size = (\<lambda>(rs, t).
    case SmartDispatchImpl (ob_commands obj) command_id of
      Some (tys, body) \<Rightarrow>
        Inr (Some \<lparr>bh_handler = SmartRequestHandler_new tys payload_size, bh_state = rs, bh_body = body\<rparr>, t)
    | None \<Rightarrow>
        (case RespondError tcp_ops hdr0 TWILI_ERR_PROTOCOL_UNRECOGNIZED_FUNCTION (rs, t) of
           Inl e \<Rightarrow> Inl (Aborted e)
         | Inr (_, t1) \<Rightarrow> Inr (None, t1)))"

definition smart_ops ::
    "MessageHeader \<Rightarrow> (byte list \<Rightarrow> nat) \<Rightarrow> (byte list \<Rightarrow> nat) \<Rightarrow> (TwibObject, BoundHandler) BridgeOps" where
  "smart_ops hdr0 receive finish =
    \<lparr>bo_OpenRequest = Object_OpenRequest hdr0,
     bo_FinalizeCommand = (\<lambda>obj t. t),
     bo_Flush = run_handler hdr0 (FlushReceiveBuffer receive),
     bo_Finalize = run_handler hdr0 (Handler_Finalize receive finish)\<rparr>"

lemma Unpack_value_reads: "buf_ok b \<Longrightarrow> reads b (snd (snd (Unpack_value s b)))"
proof -
  assume ok: "buf_ok b"
  have e: "reads b1 (snd (snd (Unpack_elems sz mk s1 b1)))" if "buf_ok b1" for sz mk s1 b1
    using that by (auto simp: Unpack_elems_def Read_eq)
  have v: "reads b (snd (snd (Unpack_vector sz mk s1 b)))" for sz mk s1
  proof (cases "sl_has_size s1 \<or> length (contents b) < 8")
    case True
    then show ?thesis using e [OF ok] ok by (auto simp: Unpack_vector_def Read_eq)
  next
    case False
    then have "buf_ok (MarkRead b 8)" "reads b (MarkRead b 8)" using ok by auto
    then show ?thesis using False ok e reads_trans [OF ok] by (simp add: Unpack_vector_def Read_eq)
  qed
  show ?thesis using ok v
    by (auto simp: Unpack_value_def Unpack_pod_def Unpack_stream_def Read_eq split: ArgType.split)
qed

lemma Unpack_reads: "buf_ok b \<Longrightarrow> reads b (snd (snd (Unpack ss b)))"
proof (induction ss b rule: Unpack.induct)
  case (2 s ss b)
  obtain r s1 b1 where v: "Unpack_value s b = (r, s1, b1)" using prod_cases3 by blast
  have b1: "reads b b1" using Unpack_value_reads [OF 2(3), of s] v by simp
  then have "buf_ok b1" using reads_D [OF 2(3)] by blast
  then have "reads b (snd (snd (Unpack ss b1)))" if "\<not> sl_has_value s" "r = Done"
    using 2(2) [OF that(1) v [symmetric] that(2)] reads_trans [OF 2(3) b1] by simp
  then show ?case using 2(1,3) v b1 by (auto simp: split_beta split: UnpackRes.split)
qed simp

lemma FlushReceiveBuffer_reads:
  assumes ok: "buf_ok b" and F: "FlushReceiveBuffer receive h b = Inr (h', b', evs)"
    and k: "\<And>bs. receive bs \<le> length bs"
  shows "reads b b'"
proof -
  have "b' = Discard b \<or> b' = snd (snd (Unpack (sh_slots h) b)) \<or> b' = MarkRead b (receive (contents b)) \<or> b' = b"
    using F by (auto simp: FlushReceiveBuffer_def SignalBadRequest_def Let_def
        split: if_splits UnpackRes.splits option.splits prod.splits)
  then show ?thesis using ok k Unpack_reads [OF ok] by (auto simp: Discard_def)
qed

lemma Handler_Finalize_reads:
  assumes ok: "buf_ok b" and F: "Handler_Finalize receive finish h b = Inr (h', b', evs)"
    and k: "\<And>bs. receive bs \<le> length bs" "\<And>bs. finish bs \<le> length bs"
  shows "reads b b'"
proof -
  obtain h1 b1 e1 where "FlushReceiveBuffer receive h b = Inr (h1, b1, e1)"
    and b': "b' = b1 \<or> b' = MarkRead b1 (finish (contents b1))"
    using F by (auto simp: Handler_Finalize_def sum_bind_eq_Inr split: if_splits)
  then have "reads b b1" using FlushReceiveBuffer_reads [OF ok _ k(1)] by blast
  moreover have "reads b1 b'" using b' k(2) by auto
  ultimately show ?thesis using reads_trans [OF ok] by blast
qed

text \<open>The callbacks of a stream read what there is at most.\<close>

definition at_most :: "(byte list \<Rightarrow> nat) \<Rightarrow> byte list \<Rightarrow> nat" where
  "at_most f bs = min (f bs) (length bs)"

lemma at_most_le: "at_most f bs \<le> length bs"
  by (simp add: at_most_def)

lemma run_handler_InrD:
  assumes "run_handler hdr0 f bh b t = Inr (bh', b', t')"
  shows "\<exists>h1 evs. f (bh_handler bh) b = Inr (h1, b', evs)"
proof (cases "f (bh_handler bh) b")
  case (Inr x)
  obtain h1 b1 evs where "x = (h1, b1, evs)" using prod_cases3 by blast
  then show ?thesis using assms Inr
    by (cases "handle_events hdr0 (bh_body bh) evs (bh_state bh, t)") (auto simp: run_handler_def)
qed (use assms in \<open>simp add: run_handler_def\<close>)

interpretation smart: request_handlers "smart_ops hdr0 (at_most receive) (at_most finish)"
  for hdr0 receive finish
proof
  fix b b' :: Buffer and h h' :: BoundHandler and t t' :: "TwibObject TcpLink"
  assume ok: "buf_ok b"
  show "reads b b'" if "bo_Flush (smart_ops hdr0 (at_most receive) (at_most finish)) h b t = Inr (h', b', t')"
    using that FlushReceiveBuffer_reads [OF ok _ at_most_le] run_handler_InrD
    by (fastforce simp: smart_ops_def)
  show "reads b b'" if "bo_Finalize (smart_ops hdr0 (at_most receive) (at_most finish)) h b t = Inr (h', b', t')"
    using that Handler_Finalize_reads [OF ok _ at_most_le at_most_le] run_handler_InrD
    by (fastforce simp: smart_ops_def)
qed

section \<open>What a request is answered\<close>

definition error_wire :: "MessageHeader \<Rightarrow> u32 \<Rightarrow> u32 \<Rightarrow> u32 \<Rightarrow> byte list" where
  "error_wire hdr0 c tag code = mh_bytes (hdr0\<lparr>mh_client_id := c, mh_command_id := code, mh_tag := tag,
     mh_payload_size := 0, mh_object_count := 0\<rparr>)"

type_synonym request = "MessageHeader \<times> byte list"

fun reply :: "MessageHeader \<Rightarrow> (u32 \<rightharpoonup> TwibObject) \<Rightarrow> request \<Rightarrow> byte list" where
  "reply hdr0 objs (mh, payload) =
    (let err = error_wire hdr0 (mh_client_id mh) (mh_tag mh);
         ok = response_wire hdr0 (mh_client_id mh) (mh_tag mh)
     in case objs (mh_object_id mh) of
          None \<Rightarrow> err TWILI_ERR_PROTOCOL_UNRECOGNIZED_OBJECT
        | Some obj \<Rightarrow>
            if mh_command_id mh = CLOSE_COMMAND then ok []
            else
              (case map_of (rev (ob_commands obj)) (mh_command_id mh) of
                 None \<Rightarrow> err TWILI_ERR_PROTOCOL_UNRECOGNIZED_FUNCTION
               | Some (tys, body) \<Rightarrow>
                   (case parse_args tys payload of
                      Parsed vs rest \<Rightarrow>
                        if accepts tys vs rest
                        then (case body vs of Inl e \<Rightarrow> err e | Inr vals \<Rightarrow> ok vals)
                        else err TWILI_ERR_PROTOCOL_BAD_REQUEST
                    | _ \<Rightarrow> [])))"

fun objects_after :: "(u32 \<rightharpoonup> TwibObject) \<Rightarrow> request \<Rightarrow> (u32 \<rightharpoonup> TwibObject)" where
  "objects_after objs (mh, payload) =
    (if mh_command_id mh = CLOSE_COMMAND \<and> mh_object_id mh \<noteq> 0 then objs(mh_object_id mh := None) else objs)"

fun replies :: "MessageHeader \<Rightarrow> (u32 \<rightharpoonup> TwibObject) \<Rightarrow> request list \<Rightarrow> byte list" where
  "replies hdr0 objs [] = []"
| "replies hdr0 objs (r # rs) = reply hdr0 objs r @ replies hdr0 (objects_after objs r) rs"

text \<open>The bodies answer with values that can be packed; no announced vector is too long.\<close>

definition body_ok :: "command_body \<Rightarrow> bool" where
  "body_ok body \<longleftrightarrow> (\<forall>vs vals. body vs = Inr vals \<longrightarrow>
     list_all val_ok vals \<and> length (vals_objects vals) * 4 \<le> 16384)"

definition objects_ok :: "(u32 \<rightharpoonup> TwibObject) \<Rightarrow> bool" where
  "objects_ok objs \<longleftrightarrow> (\<forall>obj \<in> ran objs. \<forall>(cmd, tys, body) \<in> set (ob_commands obj). body_ok body)"

fun request_ok :: "(u32 \<rightharpoonup> TwibObject) \<Rightarrow> request \<Rightarrow> bool" where
  "request_ok objs (mh, payload) \<longleftrightarrow> unat (mh_payload_size mh) = length payload \<and>
     (\<forall>obj tys body. objs (mh_object_id mh) = Some obj \<longrightarrow>
        map_of (rev (ob_commands obj)) (mh_command_id mh) = Some (tys, body) \<longrightarrow> parse_args tys payload \<noteq> TooLong)"

fun requests_ok :: "(u32 \<rightharpoonup> TwibObject) \<Rightarrow> request list \<Rightarrow> bool" where
  "requests_ok objs [] = True"
| "requests_ok objs (r # rs) = (request_ok objs r \<and> requests_ok (objects_after objs r) rs)"

fun request_bytes :: "request \<Rightarrow> byte list" where
  "request_bytes (mh, payload) = mh_bytes mh @ payload"

section \<open>Responses over TCP keep the objects\<close>

definition keeps_objects :: "('o TcpLink response \<Rightarrow> u32 + 'o TcpLink response) \<Rightarrow> bool" where
  "keeps_objects f \<longleftrightarrow> (\<forall>s s'. f s = Inr s' \<longrightarrow> tl_objects (snd s') = tl_objects (snd s))"

lemma keeps_objects_bind:
  "keeps_objects f \<Longrightarrow> keeps_objects g \<Longrightarrow> keeps_objects (\<lambda>s. sum_bind (f s) g)"
  unfolding keeps_objects_def sum_bind_eq_Inr by metis

lemma tcp_ops_keep_objects:
  "keeps_objects (SendHeader tcp_ops hdr)" "keeps_objects (SendData tcp_ops d)" "keeps_objects (Finalize tcp_ops)"
  by (auto simp: keeps_objects_def tcp_ops_def tcp_SendHeader_def tcp_SendData_def tcp_Finalize_def split: if_splits)

lemma Pack_fun:
  "Pack ops (PPodVec sz elems) =
    (\<lambda>s. sum_bind (SendData ops (bytes64 (of_nat (length elems))) s) (SendData ops (concat elems)))"
  "Pack ops (PBuffer b) =
    (\<lambda>s. sum_bind (SendData ops (bytes64 (of_nat (ReadAvailable b))) s) (SendData ops (GetData b)))"
  "Pack ops (PString val) =
    (\<lambda>s. sum_bind (SendData ops (bytes64 (of_nat (length val))) s) (SendData ops val))"
  "Pack ops (PVector vs) =
    (\<lambda>s. sum_bind (SendData ops (bytes64 (of_nat (length vs))) s) (Pack_all ops vs))"
  "Pack ops (PMsgPack ser) =
    (\<lambda>s. sum_bind (SendData ops (bytes64 (of_nat (length ser))) s) (SendData ops ser))"
  "Pack ops (PPod val) = SendData ops val"
  "Pack_all ops (v # vs) = (\<lambda>s. sum_bind (Pack ops v s) (Pack_all ops vs))"
  by (rule ext, simp)+

lemma Pack_all_keeps_objects:
  "(\<And>v. v \<in> set vs \<Longrightarrow> keeps_objects (Pack ops v)) \<Longrightarrow> keeps_objects (Pack_all ops vs)"
proof (induction vs)
  case Nil
  then show ?case by (simp add: keeps_objects_def)
qed (simp add: Pack_fun keeps_objects_bind)

lemma tcp_Pack_keeps_objects: "keeps_objects (Pack tcp_ops v)"
proof (induction v)
  case (PObject obj)
  show ?case using tcp_ops_keep_objects(2) by (fastforce simp: keeps_objects_def Writer_Object_def)
qed (simp_all add: Pack_fun keeps_objects_bind tcp_ops_keep_objects Pack_all_keeps_objects)

lemma BeginError_keeps_objects: "keeps_objects (BeginError tcp_ops hdr0 e sz n)"
  using tcp_ops_keep_objects(1) by (fastforce simp: keeps_objects_def BeginError_def Let_def split: if_splits)

lemma Begin_then_keeps_objects:
  "keeps_objects f \<Longrightarrow> keeps_objects (\<lambda>s. sum_bind (BeginError tcp_ops hdr0 e sz n s) f)"
  by (intro keeps_objects_bind BeginError_keeps_objects)

lemma Pack_all_Finalize_keeps_objects: "keeps_objects (\<lambda>w. sum_bind (Pack_all tcp_ops vs w) (Finalize tcp_ops))"
  by (intro keeps_objects_bind Pack_all_keeps_objects tcp_Pack_keeps_objects tcp_ops_keep_objects)

lemma tcp_respond_keeps_objects:
  "keeps_objects (RespondError tcp_ops hdr0 e)" "keeps_objects (RespondOk tcp_ops hdr0 vs)"
  using Begin_then_keeps_objects [OF tcp_ops_keep_objects(3), of hdr0 e 0 0]
    Begin_then_keeps_objects [OF Pack_all_Finalize_keeps_objects [of vs], of hdr0 RESULT_OK
      "sum_list (map GetSize vs)" "sum_list (map GetObjectCount vs)"]
  by (simp_all add: keeps_objects_def RespondError_def RespondOk_def BeginOk_def)

lemma tcp_respond_error:
  assumes "tcp_up t"
  shows "\<exists>rs' t'. RespondError tcp_ops hdr0 code (ResponseState_new c tag, t) = Inr (rs', t') \<and> tcp_up t' \<and>
      tl_wire t' = tl_wire t @ error_wire hdr0 c tag code \<and> tl_objects t' = tl_objects t"
  using tcp.respond_error [OF assms, of hdr0 code c tag] tcp_respond_keeps_objects(1) [of hdr0 code]
  unfolding error_wire_def keeps_objects_def by fastforce

lemma tcp_respond_ok:
  assumes "tcp_up t" and "list_all val_ok vals" and "length (vals_objects vals) * 4 \<le> 16384"
  shows "\<exists>rs' t'. RespondOk tcp_ops hdr0 vals (ResponseState_new c tag, t) = Inr (rs', t') \<and> tcp_up t' \<and>
      tl_wire t' = tl_wire t @ response_wire hdr0 c tag vals \<and> tl_objects t' = tl_objects t"
  using tcp.respond_ok [OF assms, of hdr0 c tag] assms(3) tcp_respond_keeps_objects(2) [of hdr0 vals]
  unfolding response_wire_def keeps_objects_def by fastforce

section \<open>One request\<close>

definition idle :: "('o, 'h) Connection \<Rightarrow> bool" where
  "idle c \<longleftrightarrow> \<not> cn_has_current_mh c \<and> \<not> cn_has_current_payload c \<and> cn_current_handler c = None \<and>
    cn_current_object c = None \<and> buf_ok (cn_in_buffer c) \<and> limit (cn_in_buffer c) = None \<and>
    buf_ok (cn_payload_buffer c) \<and> limit (cn_payload_buffer c) = None \<and> tcp_up (cn_link c)"

text \<open>The answer of a body to its arguments, as \<open>handle_event\<close> gives it.\<close>

definition event_wire :: "MessageHeader \<Rightarrow> u32 \<Rightarrow> u32 \<Rightarrow> command_body \<Rightarrow> HandlerEvent \<Rightarrow> byte list" where
  "event_wire hdr0 c tag body ev =
    (case ev of
       HInvoke vs \<Rightarrow>
         (case body vs of Inl e \<Rightarrow> error_wire hdr0 c tag e | Inr vals \<Rightarrow> response_wire hdr0 c tag vals)
     | HBadRequest \<Rightarrow> error_wire hdr0 c tag TWILI_ERR_PROTOCOL_BAD_REQUEST
     | _ \<Rightarrow> [])"

lemma handle_event_wire:
  assumes "tcp_up t" and "body_ok body" and "ev = HBadRequest \<or> (\<exists>vs. ev = HInvoke vs)"
  shows "\<exists>rs' t'. handle_event hdr0 body ev (ResponseState_new c tag, t) = Inr (rs', t') \<and> tcp_up t' \<and>
    tl_wire t' = tl_wire t @ event_wire hdr0 c tag body ev \<and> tl_objects t' = tl_objects t"
  using assms tcp_respond_error [OF assms(1), of hdr0 _ c tag] tcp_respond_ok [OF assms(1), of _ hdr0 c tag]
  by (auto simp: handle_event_def event_wire_def body_ok_def split: sum.split)

lemma handle_events_append:
  "handle_events hdr0 body (evs @ evs') s =
    sum_bind (handle_events hdr0 body evs s) (handle_events hdr0 body evs')"
proof (induction evs arbitrary: s)
  case (Cons ev evs)
  then show ?case by (cases "handle_event hdr0 body ev s") simp_all
qed simp

lemma handle_events_stream:
  "list_all is_receive evs \<Longrightarrow> handle_events hdr0 body (evs @ [HFinish d]) s = Inr s"
proof (induction evs arbitrary: s)
  case (Cons ev evs)
  then show ?case by (cases ev) (simp_all add: handle_event_def)
qed (simp add: handle_event_def)

text \<open>The reply of a command to a whole payload.\<close>

definition command_wire ::
    "MessageHeader \<Rightarrow> u32 \<Rightarrow> u32 \<Rightarrow> ArgType list \<Rightarrow> command_body \<Rightarrow> byte list \<Rightarrow> byte list" where
  "command_wire hdr0 c tag tys body payload =
    (case parse_args tys payload of
       Parsed vs rest \<Rightarrow>
         event_wire hdr0 c tag body (if accepts tys vs rest then HInvoke vs else HBadRequest)
     | _ \<Rightarrow> [])"

lemma outcome_wire:
  fixes t :: "'o TcpLink"
  assumes out: "request_outcome tys p (Inr (h, b, evs))" and ok: "body_ok body" "tcp_up t"
  shows "\<exists>rs' t'. handle_events hdr0 body evs (ResponseState_new c tag, t) = Inr (rs', t') \<and> tcp_up t' \<and>
    tl_wire t' = tl_wire t @ command_wire hdr0 c tag tys body p \<and> tl_objects t' = tl_objects t"
proof (cases "parse_args tys p")
  case (Parsed vs rest)
  let ?ev = "if accepts tys vs rest then HInvoke vs else HBadRequest"
  obtain evs' where evs: "evs = ?ev # evs'" "\<And>s :: 'o TcpLink response. handle_events hdr0 body evs' s = Inr s"
    using out Parsed handle_events_stream
    by (fastforce simp: request_outcome_def split: if_splits)
  then show ?thesis
    using handle_event_wire [OF ok(2,1), of ?ev hdr0 c tag] Parsed
    by (auto simp: command_wire_def)
qed (use out ok in \<open>auto simp: request_outcome_def command_wire_def\<close>)

lemma Handler_Finalize_buffer:
  assumes "req_inv tys p [] h b evs" and "Handler_Finalize receive finish h b = Inr (h', b', evs')"
    and "\<And>bs. receive bs \<le> length bs" and "\<And>bs. finish bs \<le> length bs"
  shows "buf_ok b' \<and> limit b' = None"
proof -
  obtain h1 b1 e1 where F: "FlushReceiveBuffer receive h b = Inr (h1, b1, e1)"
    and b': "b' = b1 \<or> b' = MarkRead b1 (finish (contents b1))"
    using assms(2) by (auto simp: Handler_Finalize_def sum_bind_eq_Inr split: if_splits)
  have "buf_ok b1" "limit b1 = None" using flush_inv [OF assms(1,3)] F by (auto simp: req_inv_def)
  with b' assms(4) show ?thesis by auto
qed

lemma smart_handler_serves:
  assumes b: "buf_ok b" "limit b = None" "contents b = p"
    and ok: "body_ok body" "tcp_up t" "parse_args tys p \<noteq> TooLong"
    and k: "\<And>bs. receive bs \<le> length bs" "\<And>bs. finish bs \<le> length bs"
  shows "\<exists>bh1 b1 t1 bh2 b2 t2.
    run_handler hdr0 (FlushReceiveBuffer receive)
      \<lparr>bh_handler = SmartRequestHandler_new tys (length p), bh_state = ResponseState_new c tag, bh_body = body\<rparr> b t =
      Inr (bh1, b1, t1) \<and>
    run_handler hdr0 (Handler_Finalize receive finish) bh1 b1 t1 = Inr (bh2, b2, t2) \<and>
    buf_ok b2 \<and> limit b2 = None \<and> tcp_up t2 \<and> tl_objects t2 = tl_objects t \<and>
    tl_wire t2 = tl_wire t @ command_wire hdr0 c tag tys body p"
proof -
  let ?h = "SmartRequestHandler_new tys (length p)"
  have inv: "req_inv tys p [] ?h b []"
    using req_inv_whole [OF b(1,2)] b(3) by simp
  obtain h1 b1 e1 where F: "FlushReceiveBuffer receive ?h b = Inr (h1, b1, e1)"
    and inv1: "req_inv tys p [] h1 b1 e1"
    using flush_inv [OF inv k(1)] ok(3) by (auto split: sum.splits)
  note fo = finalize_outcome [OF inv1 k(1), of finish]
  obtain h2 b2 e2 where G: "Handler_Finalize receive finish h1 b1 = Inr (h2, b2, e2)"
  proof (cases "Handler_Finalize receive finish h1 b1")
    case (Inl e)
    then show ?thesis using fo ok(3) by (auto simp: request_outcome_def split: Parsed.splits if_splits)
  next
    case (Inr x)
    then show ?thesis using that by (cases x) simp
  qed
  have b2: "buf_ok b2 \<and> limit b2 = None" using Handler_Finalize_buffer [OF inv1 G k] .
  have "request_outcome tys p (Inr (h2, b2, e1 @ e2))" using fo G by simp
  from outcome_wire [OF this ok(1,2), of hdr0 c tag]
  obtain rs' t' where E: "handle_events hdr0 body (e1 @ e2) (ResponseState_new c tag, t) = Inr (rs', t')"
    "tcp_up t'" "tl_wire t' = tl_wire t @ command_wire hdr0 c tag tys body p" "tl_objects t' = tl_objects t"
    by blast
  then obtain rs1 t1 where "handle_events hdr0 body e1 (ResponseState_new c tag, t) = Inr (rs1, t1)"
    "handle_events hdr0 body e2 (rs1, t1) = Inr (rs', t')"
    by (auto simp: handle_events_append sum_bind_eq_Inr)
  with F G E b2 show ?thesis by (simp add: run_handler_def)
qed

text \<open>The payload of a request that is in the input buffer as a whole.\<close>

lemma Process_payload_whole:
  assumes ok: "buf_ok (cn_in_buffer c)" "buf_ok (cn_payload_buffer c)" "limit (cn_payload_buffer c) = None"
    and c: "\<not> cn_has_current_payload c" "cn_payload_size c = 0" "contents (cn_payload_buffer c) = []"
      "contents (cn_in_buffer c) = payload @ rest" "unat (mh_payload_size (cn_current_mh c)) = length payload"
  obtains i p where "contents i = rest" "buf_ok i" "limit i = limit (cn_in_buffer c)"
    "contents p = payload" "buf_ok p" "limit p = None"
    "Process_payload ops c =
      sum_bind (Sync_Flush ops (c\<lparr>cn_in_buffer := i, cn_payload_buffer := p, cn_payload_size := length payload\<rparr>))
        (\<lambda>c3. sum_bind (Sync_Finalize ops c3)
          (\<lambda>c4. Inr (True, c4\<lparr>cn_has_current_mh := False, cn_has_current_payload := False\<rparr>)))"
proof -
  have n: "length payload \<le> length (contents (cn_in_buffer c))" using c(4) by simp
  from Read_Buffer_unlimited [OF ok(1-3) n] obtain i p where
    R: "Read_Buffer (cn_in_buffer c) (cn_payload_buffer c) (length payload) = Some (True, i, p)"
    and ip: "contents i = rest" "buf_ok i" "limit i = limit (cn_in_buffer c)"
      "contents p = payload" "buf_ok p" "limit p = None"
    using c(3,4) by auto
  let ?c2 = "c\<lparr>cn_in_buffer := i, cn_payload_buffer := p, cn_payload_size := length payload\<rparr>"
  have size: "cn_payload_size c3 = length payload" if "Sync_Flush ops ?c2 = Inr c3" for c3
    using that by (auto simp: Sync_Flush_def sum_bind_eq_Inr split: option.splits)
  have avail: "ReadAvailable (cn_in_buffer c) = length payload + length rest" using ok c(4) by simp
  have "Process_payload ops c = sum_bind (Sync_Flush ops ?c2) (\<lambda>c3.
      if cn_payload_size c3 = length payload then sum_bind (Sync_Finalize ops c3)
        (\<lambda>c4. Inr (True, c4\<lparr>cn_has_current_mh := False, cn_has_current_payload := False\<rparr>))
      else Inr (False, c3))"
    using R c avail by (simp add: Process_payload_def Let_def)
  then have "Process_payload ops c = sum_bind (Sync_Flush ops ?c2) (\<lambda>c3. sum_bind (Sync_Finalize ops c3)
        (\<lambda>c4. Inr (True, c4\<lparr>cn_has_current_mh := False, cn_has_current_payload := False\<rparr>)))"
    using size by (cases "Sync_Flush ops ?c2") simp_all
  with ip that show ?thesis by blast
qed

text \<open>What opening a request does: it is answered at once and the payload will be discarded, or a
  handler waits for the payload.\<close>

lemma Begin_cases:
  assumes up: "tcp_up (cn_link c)" and none: "cn_current_handler c = None"
    and mh: "cn_current_mh c = mh" and ok: "objects_ok (tl_objects (cn_link c))"
  obtains (answered) t1 ob where
      "BeginProcessingCommandImpl (smart_ops hdr0 receive finish) hdr0 c = Inr (c\<lparr>cn_link := t1, cn_current_object := ob\<rparr>)"
      "tcp_up t1" "tl_wire t1 = tl_wire (cn_link c) @ reply hdr0 (tl_objects (cn_link c)) (mh, payload)"
      "tl_objects t1 = objects_after (tl_objects (cn_link c)) (mh, payload)"
  | (opened) obj tys body where
      "tl_objects (cn_link c) (mh_object_id mh) = Some obj" "mh_command_id mh \<noteq> CLOSE_COMMAND"
      "map_of (rev (ob_commands obj)) (mh_command_id mh) = Some (tys, body)" "body_ok body"
      "BeginProcessingCommandImpl (smart_ops hdr0 receive finish) hdr0 c =
        Inr (c\<lparr>cn_current_object := Some obj, cn_current_handler := Some
          \<lparr>bh_handler = SmartRequestHandler_new tys (unat (mh_payload_size mh)),
           bh_state = ResponseState_new (mh_client_id mh) (mh_tag mh), bh_body = body\<rparr>\<rparr>)"
proof -
  let ?t = "cn_link c" and ?id = "mh_object_id mh" and ?cl = "mh_client_id mh" and ?tag = "mh_tag mh"
  note defs = BeginProcessingCommandImpl_def mh Let_def
  note err = tcp_respond_error [of _ hdr0 _ ?cl ?tag]
  consider "tl_objects ?t ?id = None"
    | obj where "tl_objects ?t ?id = Some obj" "mh_command_id mh = CLOSE_COMMAND"
    | obj where "tl_objects ?t ?id = Some obj" "mh_command_id mh \<noteq> CLOSE_COMMAND"
        "map_of (rev (ob_commands obj)) (mh_command_id mh) = None"
    | obj tys body where "tl_objects ?t ?id = Some obj" "mh_command_id mh \<noteq> CLOSE_COMMAND"
        "map_of (rev (ob_commands obj)) (mh_command_id mh) = Some (tys, body)"
    by (cases "tl_objects ?t ?id"; cases "mh_command_id mh = CLOSE_COMMAND";
        cases "map_of (rev (ob_commands (the (tl_objects ?t ?id)))) (mh_command_id mh)") auto
  then show thesis
  proof cases
    case 1
    obtain rs' t' where r: "RespondError tcp_ops hdr0 TWILI_ERR_PROTOCOL_UNRECOGNIZED_OBJECT
        (ResponseState_new ?cl ?tag, ?t) = Inr (rs', t')" "tcp_up t'" "tl_objects t' = tl_objects ?t"
        "tl_wire t' = tl_wire ?t @ error_wire hdr0 ?cl ?tag TWILI_ERR_PROTOCOL_UNRECOGNIZED_OBJECT"
      using err [OF up] by blast
    show thesis
      by (rule answered [of "cn_current_object c" t']) (use 1 r in \<open>simp_all add: defs fun_upd_idem\<close>)
  next
    case (2 obj)
    let ?t1 = "if ?id = 0 then ?t else ?t\<lparr>tl_objects := (tl_objects ?t)(?id := None)\<rparr>"
    have up1: "tcp_up ?t1" using up by (simp add: tcp_up_def)
    obtain rs' t' where r: "RespondOk tcp_ops hdr0 [] (ResponseState_new ?cl ?tag, ?t1) = Inr (rs', t')"
        "tcp_up t'" "tl_objects t' = tl_objects ?t1" "tl_wire t' = tl_wire ?t1 @ response_wire hdr0 ?cl ?tag []"
      using tcp_respond_ok [OF up1, of "[]" hdr0 ?cl ?tag] by auto
    show thesis
      by (rule answered [of "cn_current_object c" t']) (use 2 r in \<open>simp_all add: defs\<close>)
  next
    case (3 obj)
    obtain rs' t' where r: "RespondError tcp_ops hdr0 TWILI_ERR_PROTOCOL_UNRECOGNIZED_FUNCTION
        (ResponseState_new ?cl ?tag, ?t) = Inr (rs', t')" "tcp_up t'" "tl_objects t' = tl_objects ?t"
        "tl_wire t' = tl_wire ?t @ error_wire hdr0 ?cl ?tag TWILI_ERR_PROTOCOL_UNRECOGNIZED_FUNCTION"
      using err [OF up] by blast
    show thesis
      by (rule answered [of "Some obj" t'])
        (use 3 r none in \<open>simp_all add: defs smart_ops_def Object_OpenRequest_def SmartDispatchImpl_map_of\<close>)
  next
    case (4 obj tys body)
    have "(mh_command_id mh, tys, body) \<in> set (ob_commands obj)" using map_of_SomeD [OF 4(3)] by simp
    moreover have "obj \<in> ran (tl_objects ?t)" using 4(1) by (rule ranI)
    ultimately have "body_ok body" using ok by (auto simp: objects_ok_def)
    then show thesis
      by (intro opened [where obj = obj and tys = tys and body = body])
        (use 4 in \<open>simp_all add: defs smart_ops_def Object_OpenRequest_def SmartDispatchImpl_map_of\<close>)
  qed
qed

lemma idle_link: "idle c \<Longrightarrow> tcp_up (cn_link c) \<and> \<not> tl_deletion_flag (cn_link c)"
  by (simp add: idle_def tcp_up_def)

text \<open>The end of a request whose payload nobody reads.\<close>

lemma discard_payload:
  assumes "cn_current_handler c = None" and "buf_ok (cn_payload_buffer c)"
  obtains c' where "sum_bind (Sync_Flush (smart_ops hdr0 receive finish) c) (Sync_Finalize (smart_ops hdr0 receive finish)) = Inr c'"
    "cn_current_handler c' = None" "cn_current_object c' = None" "buf_ok (cn_payload_buffer c')"
    "limit (cn_payload_buffer c') = limit (cn_payload_buffer c)" "cn_in_buffer c' = cn_in_buffer c"
    "cn_link c' = cn_link c" "cn_payload_size c' = cn_payload_size c" "cn_current_mh c' = cn_current_mh c"
proof -
  have d: "buf_ok (Discard b) \<and> limit (Discard b) = limit b" if "buf_ok b" for b
    using that by (simp add: Discard_def)
  let ?c = "c\<lparr>cn_payload_buffer := Discard (Discard (cn_payload_buffer c)), cn_current_object := None,
      cn_current_handler := None\<rparr>"
  have "sum_bind (Sync_Flush (smart_ops hdr0 receive finish) c) (Sync_Finalize (smart_ops hdr0 receive finish)) = Inr ?c"
    using assms by (cases c)
      (auto simp: Sync_Flush_def Sync_Finalize_def ResetHandler_def smart_ops_def split: option.split)
  then show thesis by (rule that) (use assms d in simp_all)
qed

lemma serve_request:
  assumes idle: "idle c" and cont: "contents (cn_in_buffer c) = request_bytes (mh, payload) @ rest"
    and rok: "request_ok (tl_objects (cn_link c)) (mh, payload)" and ok: "objects_ok (tl_objects (cn_link c))"
    and k: "\<And>bs. receive bs \<le> length bs" "\<And>bs. finish bs \<le> length bs"
  shows "\<exists>c'. sum_bind (Process_header (smart_ops hdr0 receive finish) hdr0 c)
      (Process_payload (smart_ops hdr0 receive finish)) = Inr (True, c') \<and> idle c' \<and>
    contents (cn_in_buffer c') = rest \<and>
    tl_wire (cn_link c') = tl_wire (cn_link c) @ reply hdr0 (tl_objects (cn_link c)) (mh, payload) \<and>
    tl_objects (cn_link c') = objects_after (tl_objects (cn_link c)) (mh, payload) \<and>
    cn_payload_size c' = unat (mh_payload_size (cn_current_mh c'))"
proof -
  let ?ops = "smart_ops hdr0 receive finish" and ?t = "cn_link c"
  have I: "\<not> cn_has_current_mh c" "cn_current_handler c = None" "cn_current_object c = None"
    "buf_ok (cn_in_buffer c)" "limit (cn_in_buffer c) = None" "buf_ok (cn_payload_buffer c)"
    "limit (cn_payload_buffer c) = None" "tcp_up ?t" using idle by (auto simp: idle_def)
  obtain b where b: "Read_header (cn_in_buffer c) = Some (mh, b)" "contents b = payload @ rest" "buf_ok b" "limit b = None"
    using Read_header_Some [OF I(4), of mh "payload @ rest"] cont I(5) by auto
  define c0 where "c0 = c\<lparr>cn_in_buffer := b, cn_current_mh := mh, cn_has_current_mh := True,
      cn_payload_size := 0, cn_payload_buffer := Clear (cn_payload_buffer c), cn_has_current_payload := False\<rparr>"
  have H: "Process_header ?ops hdr0 c = BeginProcessingCommandImpl ?ops hdr0 c0"
    using b I(1) by (simp add: Process_header_def c0_def)
  have c0: "tcp_up (cn_link c0)" "cn_current_handler c0 = None" "cn_current_mh c0 = mh" "cn_link c0 = ?t"
    using I by (simp_all add: c0_def)
  have n: "unat (mh_payload_size mh) = length payload" using rok by simp
  show ?thesis
  proof (cases rule: Begin_cases [of c0 mh hdr0 receive finish payload, OF c0(1-3), unfolded c0(4), OF ok, case_names answered opened])
    case (answered t1 ob)
    let ?c1 = "c0\<lparr>cn_link := t1, cn_current_object := ob\<rparr>"
    obtain i p where P: "contents i = rest" "buf_ok i" "limit i = limit b" "buf_ok p" "limit p = None"
      "Process_payload ?ops ?c1 = sum_bind (Sync_Flush ?ops (?c1\<lparr>cn_in_buffer := i, cn_payload_buffer := p, cn_payload_size := length payload\<rparr>))
        (\<lambda>c3. sum_bind (Sync_Finalize ?ops c3) (\<lambda>c4. Inr (True, c4\<lparr>cn_has_current_mh := False, cn_has_current_payload := False\<rparr>)))"
      by (rule Process_payload_whole [of ?c1 payload rest ?ops]) (use b I n in \<open>auto simp: c0_def\<close>)
    let ?c2 = "?c1\<lparr>cn_in_buffer := i, cn_payload_buffer := p, cn_payload_size := length payload\<rparr>"
    obtain c4 where c4: "sum_bind (Sync_Flush ?ops ?c2) (Sync_Finalize ?ops) = Inr c4"
      "cn_current_handler c4 = None" "cn_current_object c4 = None" "buf_ok (cn_payload_buffer c4)"
      "limit (cn_payload_buffer c4) = None" "cn_in_buffer c4 = i" "cn_link c4 = t1"
      "cn_payload_size c4 = length payload" "cn_current_mh c4 = mh"
      by (rule discard_payload [of ?c2 hdr0 receive finish]) (use P I in \<open>auto simp: c0_def\<close>)
    have "Process_payload ?ops ?c1 = Inr (True, c4\<lparr>cn_has_current_mh := False, cn_has_current_payload := False\<rparr>)"
      using c4(1) unfolding P(6) by (auto simp: sum_bind_eq_Inr)
    then show ?thesis using H answered c4 P b n by (simp add: idle_def)
  next
    case (opened obj tys body)
    define bh where "bh = \<lparr>bh_handler = SmartRequestHandler_new tys (length payload),
      bh_state = ResponseState_new (mh_client_id mh) (mh_tag mh), bh_body = body\<rparr>"
    let ?c1 = "c0\<lparr>cn_current_object := Some obj, cn_current_handler := Some bh\<rparr>"
    obtain i p where P: "contents i = rest" "buf_ok i" "limit i = limit b" "contents p = payload" "buf_ok p" "limit p = None"
      "Process_payload ?ops ?c1 = sum_bind (Sync_Flush ?ops (?c1\<lparr>cn_in_buffer := i, cn_payload_buffer := p, cn_payload_size := length payload\<rparr>))
        (\<lambda>c3. sum_bind (Sync_Finalize ?ops c3) (\<lambda>c4. Inr (True, c4\<lparr>cn_has_current_mh := False, cn_has_current_payload := False\<rparr>)))"
      by (rule Process_payload_whole [of ?c1 payload rest ?ops]) (use b I n in \<open>auto simp: c0_def\<close>)
    have "parse_args tys payload \<noteq> TooLong" using rok opened(1,3) by auto
    from smart_handler_serves [OF P(5,6,4) opened(4) I(8) this k, of hdr0 "mh_client_id mh" "mh_tag mh"]
    obtain bh1 b1 t1 bh2 b2 t2 where S: "run_handler hdr0 (FlushReceiveBuffer receive) bh p ?t = Inr (bh1, b1, t1)"
      "run_handler hdr0 (Handler_Finalize receive finish) bh1 b1 t1 = Inr (bh2, b2, t2)"
      "buf_ok b2" "limit b2 = None" "tcp_up t2" "tl_objects t2 = tl_objects ?t"
      "tl_wire t2 = tl_wire ?t @ command_wire hdr0 (mh_client_id mh) (mh_tag mh) tys body payload"
      unfolding bh_def by blast
    have w: "command_wire hdr0 (mh_client_id mh) (mh_tag mh) tys body payload = reply hdr0 (tl_objects ?t) (mh, payload)"
      using opened(1-3) by (simp add: command_wire_def event_wire_def split: Parsed.split)
    show ?thesis
      using H opened(2,5) n S P w b c0(4) unfolding bh_def [symmetric] n
      by (simp add: Sync_Flush_def Sync_Finalize_def ResetHandler_def smart_ops_def idle_def c0_def n)
  qed
qed

lemma objects_ok_after: "objects_ok objs \<Longrightarrow> objects_ok (objects_after objs r)"
  by (cases r) (auto simp: objects_ok_def ran_def)

text \<open>The iterations that serve the complete requests at the front of the input.\<close>

lemma serve_requests:
  assumes k: "\<And>bs. receive bs \<le> length bs" "\<And>bs. finish bs \<le> length bs"
  shows "idle c \<Longrightarrow> contents (cn_in_buffer c) = concat (map request_bytes reqs) @ rest \<Longrightarrow>
    requests_ok (tl_objects (cn_link c)) reqs \<Longrightarrow> objects_ok (tl_objects (cn_link c)) \<Longrightarrow>
    \<exists>c'. (\<forall>n. Connection_Process (length reqs + n) (smart_ops hdr0 receive finish) hdr0 c =
           Connection_Process n (smart_ops hdr0 receive finish) hdr0 c') \<and>
      idle c' \<and> contents (cn_in_buffer c') = rest \<and>
      tl_wire (cn_link c') = tl_wire (cn_link c) @ replies hdr0 (tl_objects (cn_link c)) reqs \<and>
      (reqs \<noteq> [] \<longrightarrow> cn_payload_size c' = unat (mh_payload_size (cn_current_mh c')))"
proof (induction reqs arbitrary: c)
  case (Cons r reqs)
  obtain mh payload where r: "r = (mh, payload)" by fastforce
  let ?ops = "smart_ops hdr0 receive finish"
  have cont: "contents (cn_in_buffer c) = request_bytes (mh, payload) @ concat (map request_bytes reqs) @ rest"
    using Cons.prems(2) r by simp
  obtain c1 where c1: "sum_bind (Process_header ?ops hdr0 c) (Process_payload ?ops) = Inr (True, c1)"
    "idle c1" "contents (cn_in_buffer c1) = concat (map request_bytes reqs) @ rest"
    "tl_wire (cn_link c1) = tl_wire (cn_link c) @ reply hdr0 (tl_objects (cn_link c)) r"
    "tl_objects (cn_link c1) = objects_after (tl_objects (cn_link c)) r"
    "cn_payload_size c1 = unat (mh_payload_size (cn_current_mh c1))"
    using serve_request [OF Cons.prems(1) cont _ Cons.prems(4) k, of hdr0] Cons.prems(3) r by auto
  have "ReadAvailable (cn_in_buffer c) > 0" using cont Cons.prems(1) by (simp add: idle_def)
  then have step: "Connection_Process (Suc n) ?ops hdr0 c = Connection_Process n ?ops hdr0 c1" for n
    using c1(1) idle_link [OF Cons.prems(1)] by simp
  from Cons.IH [OF c1(2,3)] obtain c' where
    "\<forall>n. Connection_Process (length reqs + n) ?ops hdr0 c1 = Connection_Process n ?ops hdr0 c'"
    "idle c'" "contents (cn_in_buffer c') = rest"
    "tl_wire (cn_link c') = tl_wire (cn_link c1) @ replies hdr0 (tl_objects (cn_link c1)) reqs"
    "reqs \<noteq> [] \<longrightarrow> cn_payload_size c' = unat (mh_payload_size (cn_current_mh c'))"
    using Cons.prems(3,4) c1(5) objects_ok_after by auto
  then show ?case using step c1 by (cases "reqs = []") (auto intro: exI [of _ c'] exI [of _ c1])
qed auto

section \<open>A header that has not arrived as a whole\<close>

text \<open>Between two requests: the sizes are those of the last request.\<close>

definition partial_header :: "('o, 'h) Connection \<Rightarrow> bool" where
  "partial_header c \<longleftrightarrow> \<not> tl_deletion_flag (cn_link c) \<and> \<not> cn_has_current_mh c \<and> \<not> cn_has_current_payload c \<and>
    cn_current_handler c = None \<and> cn_current_object c = None \<and>
    buf_ok (cn_in_buffer c) \<and> buf_ok (cn_payload_buffer c) \<and> limit (cn_in_buffer c) = None \<and>
    limit (cn_payload_buffer c) = None \<and>
    0 < length (contents (cn_in_buffer c)) \<and> length (contents (cn_in_buffer c)) < 32 \<and>
    cn_payload_size c = unat (mh_payload_size (cn_current_mh c))"

lemma partial_header_step:
  assumes "partial_header c"
  shows "\<exists>c'. sum_bind (Process_header ops hdr0 c) (Process_payload ops) = Inr (True, c') \<and> partial_header c'"
proof -
  have p: "buf_ok (cn_in_buffer c)" "length (contents (cn_in_buffer c)) < 32" "limit (cn_in_buffer c) = None"
    using assms by (auto simp: partial_header_def)
  obtain room b where R: "Reserve (cn_in_buffer c) 32 = (room, b)" by fastforce
  note r = Reserve_refine [OF p(1) R]
  let ?c1 = "c\<lparr>cn_in_buffer := b\<rparr>"
  have "Read_header (cn_in_buffer c) = None" using Read_header_None [OF p(1)] p(2) by blast
  then have H: "Process_header ops hdr0 c = Inr ?c1"
    using assms R by (simp add: Process_header_def partial_header_def sizeof_MessageHeader_def del: Read_header_None)
  have "buf_ok b" "buf_ok (cn_payload_buffer c)" "limit (cn_payload_buffer c) = None"
    using r assms by (auto simp: partial_header_def)
  then obtain b' q where
    q: "Read_Buffer b (cn_payload_buffer c) 0 = Some (True, b', q)" "contents b' = contents b" "buf_ok b'"
      "limit b' = limit b" "buf_ok q" "limit q = None"
    by (rule Read_Buffer_unlimited [where n = 0]) simp_all
  have d: "buf_ok (Discard x) \<and> limit (Discard x) = limit x" if "buf_ok x" for x
    using that by (simp add: Discard_def)
  let ?c = "?c1\<lparr>cn_in_buffer := b', cn_payload_buffer := Discard (Discard q), cn_current_handler := None,
      cn_has_current_mh := False, cn_has_current_payload := False\<rparr>"
  have "Process_payload ops ?c1 = Inr (True, ?c)"
    using assms q r by (cases c) (simp add: Process_payload_def Sync_Flush_def Sync_Finalize_def ResetHandler_def
        partial_header_def Let_def)
  moreover have "partial_header ?c"
    using assms q r d by (simp add: partial_header_def)
  ultimately show ?thesis using H by auto
qed

lemma partial_header_loops: "partial_header c \<Longrightarrow> Connection_Process n ops hdr0 c = None"
proof (induction n arbitrary: c)
  case (Suc n)
  obtain c' where "sum_bind (Process_header ops hdr0 c) (Process_payload ops) = Inr (True, c')" "partial_header c'"
    using partial_header_step [OF Suc.prems] by blast
  moreover have "ReadAvailable (cn_in_buffer c) > 0" "\<not> tl_deletion_flag (cn_link c)"
    using Suc.prems by (simp_all add: partial_header_def)
  ultimately show ?case using Suc.IH by simp
qed simp

lemma Connection_Process_more:
  "Connection_Process (m + k) ops h c = None \<Longrightarrow> Connection_Process m ops h c = None"
  by (induction m arbitrary: c) (auto split: if_splits sum.splits bool.splits prod.splits)

declare Connection_Process.simps(2) [simp del]

section \<open>Properties\<close>

text \<open>C1: requests that have arrived as a whole are all answered, one iteration of the loop each, in
  the order they came: the bytes written to the socket are the concatenated replies, where the
  reply is computed from the objects, the header and the payload alone. This covers unknown objects,
  unknown commands, close requests, payloads of the wrong size, errors and results of the
  commands, and streams, and the loop ends with the input empty and the connection idle.\<close>

theorem tcp_requests_answered:
  assumes "idle c" and "contents (cn_in_buffer c) = concat (map request_bytes reqs)"
    and "requests_ok (tl_objects (cn_link c)) reqs" and "objects_ok (tl_objects (cn_link c))"
    and "\<And>bs. receive bs \<le> length bs" and "\<And>bs. finish bs \<le> length bs"
  shows "\<exists>c'. Connection_Process (length reqs + 1) (smart_ops hdr0 receive finish) hdr0 c = Some (Inr c') \<and>
    idle c' \<and> contents (cn_in_buffer c') = [] \<and>
    tl_wire (cn_link c') = tl_wire (cn_link c) @ replies hdr0 (tl_objects (cn_link c)) reqs"
proof -
  obtain c' where c': "Connection_Process (length reqs + 1) (smart_ops hdr0 receive finish) hdr0 c =
      Connection_Process 1 (smart_ops hdr0 receive finish) hdr0 c'" "idle c'" "contents (cn_in_buffer c') = []"
    "tl_wire (cn_link c') = tl_wire (cn_link c) @ replies hdr0 (tl_objects (cn_link c)) reqs"
    using serve_requests [OF assms(5,6,1), of reqs "[]" hdr0] assms(2-4) unfolding append_Nil2 by blast
  have "ReadAvailable (cn_in_buffer c') = 0" using c' by (simp add: idle_def)
  then have "Connection_Process 1 (smart_ops hdr0 receive finish) hdr0 c' = Some (Inr c')"
    by (simp add: Connection_Process.simps One_nat_def)
  with c' show ?thesis by auto
qed

text \<open>A connection with one object that has one command: it takes a 32-bit word and a string and
  returns the string.\<close>

definition example_object :: TwibObject where
  "example_object = TwibObject [(10, [APod 4, AString], \<lambda>vs. case vs of [_, VString s] \<Rightarrow> Inr [PString s] | _ \<Rightarrow> Inl 1)]"

definition example_header :: MessageHeader where
  "example_header = \<lparr>mh_client_id = 5, mh_object_id = 0, mh_command_id = 10, mh_tag = 77, mh_payload_size = 13,
     mh_object_count = 0, mh_padding = 0\<rparr>"

definition example_payload :: "byte list" where
  "example_payload = [9, 0, 0, 0, 1, 0, 0, 0, 0, 0, 0, 0, 65]"

definition example_connection :: "byte list \<Rightarrow> (TwibObject, BoundHandler) Connection" where
  "example_connection input =
    (Connection_new example_header 13 (\<lambda>i n. 1) example_object)\<lparr>cn_in_buffer := Buffer_of_vector input\<rparr>"

lemma example_ok:
  "idle (example_connection input)" "objects_ok (tl_objects (cn_link (example_connection input)))"
  "requests_ok (tl_objects (cn_link (example_connection input))) [(example_header, example_payload)]"
  by (auto simp: example_connection_def Connection_new_def idle_def tcp_up_def objects_ok_def
      example_object_def body_ok_def example_header_def example_payload_def parse_counted_def parse_elems_def
      MAX_ALLOC_def word64_def split: list.splits ArgVal.splits if_splits)

lemma example_connection_sel:
  "contents (cn_in_buffer (example_connection input)) = input"
  "tl_wire (cn_link (example_connection input)) = []"
  "tl_objects (cn_link (example_connection input)) = [0 \<mapsto> example_object]"
  by (simp_all add: example_connection_def Connection_new_def)

theorem tcp_requests_answered_witness:
  "\<exists>c'. Connection_Process (1 + 1) (smart_ops example_header length length) example_header
      (example_connection (request_bytes (example_header, example_payload))) = Some (Inr c') \<and>
    tl_wire (cn_link c') = replies example_header [0 \<mapsto> example_object] [(example_header, example_payload)]"
  using tcp_requests_answered [OF example_ok(1) _ example_ok(3,2), of "request_bytes (example_header, example_payload)" length length example_header]
  unfolding example_connection_sel by (auto simp del: Connection_Process.simps replies.simps)



text \<open>Whatever the socket delivers, within the room it was given, the buffers of the connection
  are well formed and unlimited when \<open>Process\<close> returns, so no later copy into them can overflow
  and no read can pass the write head: the contract of the request handlers, kept by the smart
  ones, is all this needs.\<close>

theorem tcp_buffers_stay_ok:
  assumes "bufs_ok c" and "\<And>bs. recvd = Some bs \<Longrightarrow> length bs \<le> fst (Reserve (cn_in_buffer c) 8192)"
    and "Connection_Process n (smart_ops hdr0 (at_most receive) (at_most finish)) hdr0 (PumpInput recvd c) = Some (Inr c')"
  shows "bufs_ok c'"
  using smart.Process_bufs [OF PumpInput_bufs [OF assms(1,2)] assms(3)] .

theorem tcp_buffers_stay_ok_witness:
  "bufs_ok (PumpInput None (example_connection []))"
proof -
  let ?c = "example_connection []"
  have "bufs_ok ?c" by (simp add: bufs_ok_def example_connection_def Connection_new_def)
  moreover have "tl_deletion_flag (cn_link (PumpInput None ?c))" by (simp add: PumpInput_def Panic_def split_beta)
  then have "Connection_Process 1 (smart_ops example_header (at_most length) (at_most length)) example_header
      (PumpInput None ?c) = Some (Inr (PumpInput None ?c))" by (simp add: Connection_Process.simps One_nat_def)
  ultimately show ?thesis using tcp_buffers_stay_ok [of ?c None 1 example_header length length] by auto
qed

end
