(* ===== verification/UsbRequest.thy ===== *)
theory UsbRequest
  imports Request
begin

text \<open>
  \<open>USBBridge::RequestReader\<close> (src/twili/bridge/usb/RequestReader.cpp): the framing of requests on the USB bridge. A
  request is a header on one endpoint, then transfers of its payload and of its object ids on another; the reader posts
  a buffer and is called when the transfer is complete. The current state and handler are those of the bridge, because
  the header of every response resets them. Objects and handlers are behind virtual functions, here a record of
  functions. A transfer is given by the status and the bytes of its report. Running out of memory is not modelled.
\<close>

section \<open>The reader\<close>

datatype UsbPost = PostMeta | PostData nat | PostObjects nat

record ('o, 'h) UsbReader =
  ur_bridge :: "('o, 'h) UsbBridge"
  ur_current_header :: MessageHeader
  ur_payload_size :: nat
  ur_payload_buffer :: Buffer
  ur_object_ids :: "u32 list"
  ur_current_object :: "'o option"
  ur_posts :: "UsbPost list"
  ur_reset :: bool

type_synonym ('o, 'h) usb_result = "Stop + ('o, 'h) UsbReader"

text \<open>\<open>uo_post n\<close> tells whether the \<open>n\<close>th \<open>PostBufferAsync\<close> succeeds.\<close>

record ('o, 'h) UsbOps =
  uo_OpenRequest :: "'o \<Rightarrow> u32 \<Rightarrow> nat \<Rightarrow> ('o, 'h) UsbBridge response \<Rightarrow> Stop + 'h option \<times> ('o, 'h) UsbBridge"
  uo_FinalizeCommand :: "'o \<Rightarrow> ('o, 'h) UsbBridge \<Rightarrow> ('o, 'h) UsbBridge"
  uo_Flush :: "'h \<Rightarrow> Buffer \<Rightarrow> ('o, 'h) UsbBridge \<Rightarrow> Stop + 'h \<times> Buffer \<times> ('o, 'h) UsbBridge"
  uo_Finalize :: "'h \<Rightarrow> Buffer \<Rightarrow> ('o, 'h) UsbBridge \<Rightarrow> Stop + 'h \<times> Buffer \<times> ('o, 'h) UsbBridge"
  uo_post :: "nat \<Rightarrow> bool"

definition ResetInterface :: "('o, 'h) UsbReader \<Rightarrow> ('o, 'h) UsbReader" where
  "ResetInterface r = r\<lparr>ur_reset := True\<rparr>"

definition PostBufferAsync :: "('o, 'h) UsbOps \<Rightarrow> UsbPost \<Rightarrow> ('o, 'h) UsbReader \<Rightarrow> ('o, 'h) UsbReader" where
  "PostBufferAsync ops post r =
    (let r1 = r\<lparr>ur_posts := ur_posts r @ [post]\<rparr> in if uo_post ops (length (ur_posts r)) then r1 else ResetInterface r1)"

definition PostMetaBuffer :: "('o, 'h) UsbOps \<Rightarrow> ('o, 'h) UsbReader \<Rightarrow> ('o, 'h) UsbReader" where
  "PostMetaBuffer ops r = PostBufferAsync ops PostMeta r"

definition PostDataBuffer :: "('o, 'h) UsbOps \<Rightarrow> ('o, 'h) UsbReader \<Rightarrow> ('o, 'h) UsbReader" where
  "PostDataBuffer ops r =
    (let missing = size_sub (unat (mh_payload_size (ur_current_header r))) (ur_payload_size r) in
     PostBufferAsync ops (PostData (if missing < TRANSFER_BUFFER_SIZE then missing else TRANSFER_BUFFER_SIZE)) r)"

definition PostObjectBuffer :: "('o, 'h) UsbOps \<Rightarrow> ('o, 'h) UsbReader \<Rightarrow> ('o, 'h) UsbReader" where
  "PostObjectBuffer ops r =
    (let sz = unat (mh_object_count (ur_current_header r)) * 4 in
     if sz > TRANSFER_BUFFER_SIZE then ResetInterface r else PostBufferAsync ops (PostObjects sz) r)"

definition reader_ResetHandler :: "('o, 'h) UsbReader \<Rightarrow> ('o, 'h) UsbReader" where
  "reader_ResetHandler r = r\<lparr>ur_bridge := usb_ResetHandler (ur_bridge r)\<rparr>"

definition CleanupCommand :: "('o, 'h) UsbOps \<Rightarrow> ('o, 'h) UsbReader \<Rightarrow> ('o, 'h) UsbReader" where
  "CleanupCommand ops r =
    reader_ResetHandler
      (case ur_current_object r of
         None \<Rightarrow> r
       | Some obj \<Rightarrow> r\<lparr>ur_bridge := uo_FinalizeCommand ops obj (ur_bridge r), ur_current_object := None\<rparr>)"

text \<open>What a call of the current handler leaves: the handler has its new state, and is still the current one unless a
  response was begun meanwhile.\<close>

definition after_handler :: "'h \<times> Buffer \<times> ('o, 'h) UsbBridge \<Rightarrow> ('o, 'h) UsbReader \<Rightarrow> ('o, 'h) UsbReader" where
  "after_handler res r =
    (case res of (h1, b1, t1) \<Rightarrow>
       r\<lparr>ur_payload_buffer := b1, ur_bridge := t1\<lparr>ub_current_handler := map_option (\<lambda>_. h1) (ub_current_handler t1)\<rparr>\<rparr>)"

definition handler_Flush :: "('o, 'h) UsbOps \<Rightarrow> ('o, 'h) UsbReader \<Rightarrow> ('o, 'h) usb_result" where
  "handler_Flush ops r =
    (case ub_current_handler (ur_bridge r) of
       None \<Rightarrow> Inr (r\<lparr>ur_payload_buffer := Discard (ur_payload_buffer r)\<rparr>)
     | Some h \<Rightarrow> sum_bind (uo_Flush ops h (ur_payload_buffer r) (ur_bridge r)) (\<lambda>res. Inr (after_handler res r)))"

definition usb_FinalizeCommand :: "('o, 'h) UsbOps \<Rightarrow> ('o, 'h) UsbReader \<Rightarrow> ('o, 'h) usb_result" where
  "usb_FinalizeCommand ops r =
    sum_bind
      (case ub_current_handler (ur_bridge r) of
         None \<Rightarrow> Inr (r\<lparr>ur_payload_buffer := Discard (ur_payload_buffer r)\<rparr>)
       | Some h \<Rightarrow> sum_bind (uo_Finalize ops h (ur_payload_buffer r) (ur_bridge r)) (\<lambda>res. Inr (after_handler res r)))
      (\<lambda>r1. Inr (CleanupCommand ops r1))"

fun usb_answer :: "('o, 'h) UsbReader \<Rightarrow> u32 + ('o, 'h) UsbBridge response \<Rightarrow> ('o, 'h) usb_result" where
  "usb_answer r (Inl e) = Inl (Aborted e)"
| "usb_answer r (Inr (rs, t)) = Inr (r\<lparr>ur_bridge := t\<rparr>)"

definition usb_BeginProcessingCommand ::
    "('o, 'h) UsbOps \<Rightarrow> MessageHeader \<Rightarrow> ('o, 'h) UsbReader \<Rightarrow> ('o, 'h) usb_result" where
  "usb_BeginProcessingCommand ops hdr0 r =
    (let mh = ur_current_header r;
         t = (ur_bridge r)\<lparr>ub_current_state := True\<rparr>;
         state = ResponseState_new (mh_client_id mh) (mh_tag mh)
     in case ub_objects t (mh_object_id mh) of
          None \<Rightarrow> usb_answer r (RespondError usb_ops hdr0 TWILI_ERR_PROTOCOL_UNRECOGNIZED_OBJECT (state, t))
        | Some obj \<Rightarrow>
            if mh_command_id mh = CLOSE_COMMAND then
              (let t1 = t\<lparr>ub_objects := (if mh_object_id mh = 0 then ub_objects t |` {0} else (ub_objects t)(mh_object_id mh := None))\<rparr>
               in usb_answer r (RespondOk usb_ops hdr0 [] (state, t1)))
            else
              sum_bind (uo_OpenRequest ops obj (mh_command_id mh) (unat (mh_payload_size mh)) (state, t))
                (\<lambda>(handler, t1). Inr (r\<lparr>ur_current_object := Some obj, ur_bridge := t1\<lparr>ub_current_handler := handler\<rparr>\<rparr>)))"

text \<open>What follows the header, and then the payload.\<close>

definition usb_next :: "('o, 'h) UsbOps \<Rightarrow> ('o, 'h) UsbReader \<Rightarrow> ('o, 'h) usb_result" where
  "usb_next ops r =
    (if ur_payload_size r < unat (mh_payload_size (ur_current_header r)) then Inr (PostDataBuffer ops r)
     else if mh_object_count (ur_current_header r) > 0 then Inr (PostObjectBuffer ops r)
     else usb_FinalizeCommand ops r)"

definition MetadataTransactionCompleted ::
    "('o, 'h) UsbOps \<Rightarrow> MessageHeader \<Rightarrow> nat \<Rightarrow> byte list \<Rightarrow> ('o, 'h) UsbReader \<Rightarrow> ('o, 'h) usb_result" where
  "MetadataTransactionCompleted ops hdr0 urb_status bs r =
    (if urb_status \<noteq> 3 then Inr (ResetInterface r)
     else if length bs = 0 then Inr r
     else if length bs \<noteq> sizeof_MessageHeader then Inr (ResetInterface r)
     else sum_bind
       (usb_BeginProcessingCommand ops hdr0
         (reader_ResetHandler (r\<lparr>ur_current_header := mh_of_bytes bs, ur_payload_size := 0, ur_object_ids := [],
            ur_payload_buffer := Clear (ur_payload_buffer r)\<rparr>)))
       (usb_next ops))"

definition ids_of :: "nat \<Rightarrow> byte list \<Rightarrow> u32 list" where
  "ids_of n bs = map (\<lambda>i. word32 (take 4 (drop (4 * i) bs))) [0..<n]"

definition DataTransactionCompleted ::
    "('o, 'h) UsbOps \<Rightarrow> nat \<Rightarrow> byte list \<Rightarrow> ('o, 'h) UsbReader \<Rightarrow> ('o, 'h) usb_result" where
  "DataTransactionCompleted ops urb_status bs r =
    (let mh = ur_current_header r in
     if ur_payload_size r = unat (mh_payload_size mh) then
       (if urb_status \<noteq> 3 then Inr (ResetInterface r)
        else if length bs \<noteq> unat (mh_object_count mh) * 4 then Inr (ResetInterface r)
        else usb_FinalizeCommand ops (r\<lparr>ur_object_ids := ur_object_ids r @ ids_of (unat (mh_object_count mh)) bs\<rparr>))
     else if urb_status \<noteq> 3 then Inr (ResetInterface r)
     else if ur_payload_size r + length bs > unat (mh_payload_size mh) then Inr (ResetInterface r)
     else sum_bind
       (handler_Flush ops (r\<lparr>ur_payload_size := ur_payload_size r + length bs, ur_payload_buffer := Put (ur_payload_buffer r) bs\<rparr>))
       (usb_next ops))"

text \<open>The callbacks of \<open>Begin\<close>: an exception resets the interface.\<close>

definition catch_reset :: "('o, 'h) UsbReader \<Rightarrow> ('o, 'h) usb_result \<Rightarrow> ('o, 'h) usb_result" where
  "catch_reset r res = (case res of Inl LengthErrorThrown \<Rightarrow> Inr (ResetInterface r) | _ \<Rightarrow> res)"

definition usb_meta_event ::
    "('o, 'h) UsbOps \<Rightarrow> MessageHeader \<Rightarrow> nat \<Rightarrow> byte list \<Rightarrow> ('o, 'h) UsbReader \<Rightarrow> ('o, 'h) usb_result" where
  "usb_meta_event ops hdr0 urb_status bs r =
    catch_reset r (sum_bind (MetadataTransactionCompleted ops hdr0 urb_status bs r) (\<lambda>r1. Inr (PostMetaBuffer ops r1)))"

definition usb_data_event ::
    "('o, 'h) UsbOps \<Rightarrow> nat \<Rightarrow> byte list \<Rightarrow> ('o, 'h) UsbReader \<Rightarrow> ('o, 'h) usb_result" where
  "usb_data_event ops urb_status bs r = catch_reset r (DataTransactionCompleted ops urb_status bs r)"

section \<open>Payloads\<close>

fun usb_data_run :: "('o, 'h) UsbOps \<Rightarrow> byte list list \<Rightarrow> ('o, 'h) UsbReader \<Rightarrow> ('o, 'h) usb_result" where
  "usb_data_run ops [] r = Inr r"
| "usb_data_run ops (c # cs) r = sum_bind (DataTransactionCompleted ops 3 c r) (usb_data_run ops cs)"

text \<open>The handler's calls for some pieces of a payload, as long as no response is begun.\<close>

fun undisturbed ::
    "('o, 'h) UsbOps \<Rightarrow> 'h \<Rightarrow> Buffer \<Rightarrow> ('o, 'h) UsbBridge \<Rightarrow> byte list list \<Rightarrow> ('h \<times> Buffer \<times> ('o, 'h) UsbBridge) option" where
  "undisturbed ops h b t [] = Some (h, b, t)"
| "undisturbed ops h b t (c # cs) =
    (case uo_Flush ops h (Put b c) t of
       Inl _ \<Rightarrow> None
     | Inr (h1, b1, t1) \<Rightarrow>
         if ub_current_handler t1 = None then None else undisturbed ops h1 b1 (t1\<lparr>ub_current_handler := Some h1\<rparr>) cs)"

text \<open>The sizes of the transfers that are posted for pieces of a payload of which \<open>missing\<close> bytes are to come.\<close>

fun data_posts :: "nat \<Rightarrow> byte list list \<Rightarrow> UsbPost list" where
  "data_posts missing [] = []"
| "data_posts missing (c # cs) =
    PostData (min (missing - length c) TRANSFER_BUFFER_SIZE) # data_posts (missing - length c) cs"

lemma PostDataBuffer_ok:
  assumes "\<And>n. uo_post ops n" and "ur_payload_size r \<le> unat (mh_payload_size (ur_current_header r))"
  shows "PostDataBuffer ops r = r\<lparr>ur_posts := ur_posts r @
    [PostData (min (unat (mh_payload_size (ur_current_header r)) - ur_payload_size r) TRANSFER_BUFFER_SIZE)]\<rparr>"
  using assms by (simp add: PostDataBuffer_def PostBufferAsync_def Let_def min_def)

text \<open>A piece that is not the last.\<close>

lemma data_step:
  assumes "\<And>n. uo_post ops n" and "ur_payload_size r + length c < unat (mh_payload_size (ur_current_header r))"
    and "handler_Flush ops (r\<lparr>ur_payload_size := ur_payload_size r + length c, ur_payload_buffer := Put (ur_payload_buffer r) c\<rparr>) = Inr r1"
    and "ur_current_header r1 = ur_current_header r" "ur_payload_size r1 = ur_payload_size r + length c"
  shows "DataTransactionCompleted ops 3 c r = Inr (r1\<lparr>ur_posts := ur_posts r1 @
    [PostData (min (unat (mh_payload_size (ur_current_header r)) - ur_payload_size r1) TRANSFER_BUFFER_SIZE)]\<rparr>)"
  using assms PostDataBuffer_ok [OF assms(1), of r1] by (simp add: DataTransactionCompleted_def usb_next_def Let_def)

lemma data_last:
  assumes "ur_payload_size r + length c = unat (mh_payload_size (ur_current_header r))" "c \<noteq> []"
    and "mh_object_count (ur_current_header r) = 0"
    and "handler_Flush ops (r\<lparr>ur_payload_size := ur_payload_size r + length c, ur_payload_buffer := Put (ur_payload_buffer r) c\<rparr>) = Inr r1"
    and "ur_current_header r1 = ur_current_header r" "ur_payload_size r1 = ur_payload_size r + length c"
  shows "DataTransactionCompleted ops 3 c r = usb_FinalizeCommand ops r1"
proof -
  have "ur_payload_size r \<noteq> unat (mh_payload_size (ur_current_header r))" using assms(1,2) by (cases c) auto
  with assms show ?thesis by (simp add: DataTransactionCompleted_def usb_next_def Let_def)
qed

lemma usb_data_run_Nil [simp]: "sum_bind x (usb_data_run ops []) = x"
  by (cases x) simp_all

lemma reader_updates:
  "r\<lparr>ur_payload_size := n, ur_payload_buffer := b, ur_bridge := t\<rparr> =
   r\<lparr>ur_bridge := t, ur_payload_buffer := b, ur_payload_size := n, ur_posts := ur_posts r\<rparr>"
  "r\<lparr>ur_payload_size := n, ur_payload_buffer := b\<rparr> = r\<lparr>ur_payload_buffer := b, ur_payload_size := n, ur_posts := ur_posts r\<rparr>"
  by (cases r; simp)+


text \<open>The rest of a request whose handler was reset.\<close>

lemma handler_Flush_discards:
  "ub_current_handler (ur_bridge r) = None \<Longrightarrow> handler_Flush ops r = Inr (r\<lparr>ur_payload_buffer := Discard (ur_payload_buffer r)\<rparr>)"
  by (simp add: handler_Flush_def)

lemma usb_data_run_discards:
  assumes post: "\<And>n. uo_post ops n" and "c \<noteq> []" and "ub_current_handler (ur_bridge r) = None"
    and "ur_payload_size r + length (concat cs) + length c = unat (mh_payload_size (ur_current_header r))"
    and "mh_object_count (ur_current_header r) = 0"
  shows "\<exists>b posts. usb_data_run ops (cs @ [c]) r = Inr (CleanupCommand ops (r\<lparr>ur_payload_buffer := b,
    ur_payload_size := unat (mh_payload_size (ur_current_header r)), ur_posts := posts\<rparr>))"
  using assms(3-5)
proof (induction cs arbitrary: r)
  case Nil
  let ?r = "r\<lparr>ur_payload_size := ur_payload_size r + length c, ur_payload_buffer := Put (ur_payload_buffer r) c\<rparr>"
  from handler_Flush_discards [of ?r] Nil.prems(1) have
    "handler_Flush ops ?r = Inr (?r\<lparr>ur_payload_buffer := Discard (ur_payload_buffer ?r)\<rparr>)" by simp
  from data_last [OF _ assms(2) Nil.prems(3) this] Nil.prems have
    "DataTransactionCompleted ops 3 c r = Inr (CleanupCommand ops (r\<lparr>ur_payload_size := unat (mh_payload_size (ur_current_header r)),
      ur_payload_buffer := Discard (Discard (Put (ur_payload_buffer r) c))\<rparr>))"
    by (simp add: usb_FinalizeCommand_def)
  then show ?case unfolding reader_updates(2)
    by (intro exI [of _ "Discard (Discard (Put (ur_payload_buffer r) c))"] exI [of _ "ur_posts r"]) simp
next
  case (Cons d cs)
  let ?r = "r\<lparr>ur_payload_size := ur_payload_size r + length d, ur_payload_buffer := Put (ur_payload_buffer r) d\<rparr>"
  from handler_Flush_discards [of ?r] Cons.prems(1) have
    f: "handler_Flush ops ?r = Inr (?r\<lparr>ur_payload_buffer := Discard (ur_payload_buffer ?r)\<rparr>)" by simp
  have "ur_payload_size r + length d < unat (mh_payload_size (ur_current_header r))" using Cons.prems(2) assms(2) by (cases c) auto
  from data_step [OF post this f] obtain b posts where
    step: "DataTransactionCompleted ops 3 d r = Inr (r\<lparr>ur_payload_size := ur_payload_size r + length d, ur_payload_buffer := b, ur_posts := posts\<rparr>)"
    by auto
  show ?case
    using Cons.IH [of "r\<lparr>ur_payload_size := ur_payload_size r + length d, ur_payload_buffer := b, ur_posts := posts\<rparr>"] Cons.prems step by auto
qed

text \<open>C38: on the USB bridge the response to one request can drop another. The header of every response resets the handler of
  the request that is being received, whichever request it answers: the rest of that request is then discarded, its handler
  is neither flushed nor finalized, and nothing is sent for it.\<close>

theorem usb_response_drops_request:
  assumes "usb_SendHeader hdr (rs, ur_bridge r) = Inr (rs', t)"
    and post: "\<And>n. uo_post ops n" and "c \<noteq> []"
    and "ur_payload_size r + length (concat cs) + length c = unat (mh_payload_size (ur_current_header r))"
    and "mh_object_count (ur_current_header r) = 0"
    and silent: "\<And>obj u. ub_transfers (uo_FinalizeCommand ops obj u) = ub_transfers u"
  shows "\<exists>r'. usb_data_run ops (cs @ [c]) (r\<lparr>ur_bridge := t\<rparr>) = Inr r' \<and> ub_transfers (ur_bridge r') = ub_transfers t \<and>
    ur_payload_size r' = unat (mh_payload_size (ur_current_header r)) \<and> ur_current_object r' = None \<and> ur_reset r' = ur_reset r"
proof -
  have "ub_current_handler t = None"
    using assms(1) by (auto simp: usb_SendHeader_def sum_bind_eq_Inr PostBufferSync_def usb_ResetHandler_def)
  with usb_data_run_discards [OF post assms(3), of "r\<lparr>ur_bridge := t\<rparr>" cs] assms(4,5) obtain b posts where
    d: "usb_data_run ops (cs @ [c]) (r\<lparr>ur_bridge := t\<rparr>) = Inr (CleanupCommand ops (r\<lparr>ur_bridge := t, ur_payload_buffer := b,
      ur_payload_size := unat (mh_payload_size (ur_current_header r)), ur_posts := posts\<rparr>))"
    by auto
  show ?thesis unfolding d
    by (auto simp: CleanupCommand_def reader_ResetHandler_def usb_ResetHandler_def silent split: option.splits)
qed

text \<open>A handler that takes all it is given, and a request with two bytes to come.\<close>

definition demo_usb_ops :: "(nat, nat) UsbOps" where
  "demo_usb_ops = \<lparr>uo_OpenRequest = (\<lambda>_ _ _ (_, t). Inr (Some 0, t)), uo_FinalizeCommand = (\<lambda>_ t. t),
     uo_Flush = (\<lambda>h b t. Inr (h + length (contents b), Discard b, t)), uo_Finalize = (\<lambda>h b t. Inr (h, b, t)), uo_post = (\<lambda>_. True)\<rparr>"

definition demo_reader :: "(nat, nat) UsbReader" where
  "demo_reader = \<lparr>ur_bridge = example_usb\<lparr>ub_current_state := True, ub_current_handler := Some 0\<rparr>,
     ur_current_header = (mh_of_bytes [])\<lparr>mh_payload_size := 2, mh_object_count := 0\<rparr>, ur_payload_size = 0,
     ur_payload_buffer = Buffer_new, ur_object_ids = [], ur_current_object = Some 0, ur_posts = [], ur_reset = False\<rparr>"

lemma demo_flush: "buf_ok b \<Longrightarrow> contents b = [] \<Longrightarrow> limit b = None \<Longrightarrow>
  uo_Flush demo_usb_ops h (Put b c) t = Inr (h + length c, Discard (Put b c), t)"
  by (simp add: demo_usb_ops_def)


theorem usb_response_drops_request_witness:
  "\<exists>rs t r'. usb_SendHeader (mh_of_bytes []) (ResponseState_new 3 9, ur_bridge demo_reader) = Inr (rs, t) \<and>
     usb_data_run demo_usb_ops [[7], [8]] (demo_reader\<lparr>ur_bridge := t\<rparr>) = Inr r' \<and> ub_transfers (ur_bridge r') = ub_transfers t"
proof -
  have "usb_up (usb_ResetHandler (ur_bridge demo_reader))"
    by (simp add: demo_reader_def usb_up_def example_usb_def usb_ResetHandler_def)
  from PostBufferSync_up [OF this, of ResponseMeta "mh_bytes (mh_of_bytes [])"]
  obtain t where s: "usb_SendHeader (mh_of_bytes []) (ResponseState_new 3 9, ur_bridge demo_reader) = Inr (ResponseState_new 3 9, t)"
    by (auto simp: usb_SendHeader_def)
  from usb_response_drops_request [OF s, of demo_usb_ops "[8]" "[[7]]"] s show ?thesis
    by (auto simp: demo_usb_ops_def demo_reader_def)
qed

end
