(* ===== verification/GdbConnection.thy ===== *)
theory GdbConnection
  imports Buffer
begin

text \<open>
  The packet layer of the GDB stub (src/twib/tool/GdbConnection.cpp): the receive state machine
  with its checksum and escapes, the sender, and the hexadecimal codecs. Characters are bytes.
\<close>

section \<open>Hexadecimal codecs\<close>

definition DecodeHexNybble :: "byte \<Rightarrow> byte" where
  "DecodeHexNybble n =
    (if 0x30 \<le> n \<and> n \<le> 0x39 then n - 0x30
     else if 0x61 \<le> n \<and> n \<le> 0x66 then n - 0x61 + 0xa
     else if 0x41 \<le> n \<and> n \<le> 0x46 then n - 0x41 + 0xa
     else 0)"

definition DecodeHexByte :: "byte \<Rightarrow> byte \<Rightarrow> byte" where
  "DecodeHexByte h0 h1 = push_bit 4 (DecodeHexNybble h0) OR DecodeHexNybble h1"

definition EncodeHexNybble :: "byte \<Rightarrow> byte" where
  "EncodeHexNybble n = (if n < 0xa then 0x30 + n else 0x61 + n - 0xa)"

text \<open>\<open>DecodeWithSeparator\<close> and the three \<open>Decode\<close> overloads.\<close>

function DecodeWithSeparator_loop :: "u64 \<Rightarrow> byte \<Rightarrow> Buffer \<Rightarrow> u64 \<times> Buffer" where
  "DecodeWithSeparator_loop out sep packet =
    (case Read_char packet of
       None \<Rightarrow> (out, packet)
     | Some (c, packet') \<Rightarrow>
         if c \<noteq> sep
         then DecodeWithSeparator_loop (push_bit 4 out OR ucast (DecodeHexNybble c)) sep packet'
         else (out, packet'))"
  by pat_completeness auto
termination
  by (relation "measure (\<lambda>(out, sep, b). write_head b - read_head b)")
    (auto dest: Read_char_decreases)

definition DecodeWithSeparator :: "byte \<Rightarrow> Buffer \<Rightarrow> u64 \<times> Buffer" where
  "DecodeWithSeparator sep packet = DecodeWithSeparator_loop 0 sep packet"

function Decode_loop :: "u64 \<Rightarrow> Buffer \<Rightarrow> u64 \<times> Buffer" where
  "Decode_loop out packet =
    (case Read_char packet of
       None \<Rightarrow> (out, packet)
     | Some (c, packet') \<Rightarrow>
         Decode_loop (push_bit 4 out OR ucast (DecodeHexNybble c)) packet')"
  by pat_completeness auto
termination
  by (relation "measure (\<lambda>(out, b). write_head b - read_head b)") (auto dest: Read_char_decreases)

definition Decode :: "Buffer \<Rightarrow> u64 \<times> Buffer" where
  "Decode packet = Decode_loop 0 packet"

text \<open>\<open>Decode (std::vector<uint8_t> &)\<close>: an odd trailing digit is consumed and dropped.\<close>

function Decode_vector :: "byte list \<Rightarrow> Buffer \<Rightarrow> byte list \<times> Buffer" where
  "Decode_vector out packet =
    (case Read_char packet of
       None \<Rightarrow> (out, packet)
     | Some (c, p1) \<Rightarrow>
         (case Read_char p1 of
            None \<Rightarrow> (out, p1)
          | Some (d, p2) \<Rightarrow>
              Decode_vector (out @ [push_bit 4 (DecodeHexNybble c) OR DecodeHexNybble d]) p2))"
  by pat_completeness auto
termination
  by (relation "measure (\<lambda>(out, b). write_head b - read_head b)")
    (auto dest!: Read_char_decreases)

text \<open>\<open>Decode (util::Buffer &)\<close> stores through the pointer of one \<open>Reserve\<close> call and
  marks each byte; the pointer stays at the write head.\<close>

function Decode_buffer_loop :: "Buffer \<Rightarrow> Buffer \<Rightarrow> Buffer \<times> Buffer" where
  "Decode_buffer_loop out packet =
    (case Read_char packet of
       None \<Rightarrow> (out, packet)
     | Some (c, p1) \<Rightarrow>
         (case Read_char p1 of
            None \<Rightarrow> (out, p1)
          | Some (d, p2) \<Rightarrow>
              Decode_buffer_loop
                (MarkWritten (fill out [push_bit 4 (DecodeHexNybble c) OR DecodeHexNybble d]) 1) p2))"
  by pat_completeness auto
termination
  by (relation "measure (\<lambda>(out, b). write_head b - read_head b)")
    (auto dest!: Read_char_decreases)

definition Decode_buffer :: "Buffer \<Rightarrow> Buffer \<Rightarrow> Buffer \<times> Buffer" where
  "Decode_buffer out packet =
    (let (room, out1) = Reserve out (ReadAvailable packet div 2) in Decode_buffer_loop out1 packet)"

text \<open>\<open>Encode (uint64_t n, size_t size)\<close> for sizes of at most 8 bytes: \<open>k\<close> bytes are
  still to be looked at, from the most significant one; with \<open>size = 0\<close> zero bytes are
  skipped.\<close>

fun Encode_loop :: "nat \<Rightarrow> u64 \<Rightarrow> nat \<Rightarrow> Buffer \<Rightarrow> Buffer" where
  "Encode_loop 0 n sz out = out"
| "Encode_loop (Suc k) n sz out =
    (let out' =
       (if sz \<noteq> 0 \<or> drop_bit (8 * k) n AND 0xff \<noteq> 0
        then Put (Put out [EncodeHexNybble (ucast (drop_bit (8 * k + 4) n AND 0xf))])
               [EncodeHexNybble (ucast (drop_bit (8 * k) n AND 0xf))]
        else out)
     in Encode_loop k n sz out')"

definition Encode :: "u64 \<Rightarrow> nat \<Rightarrow> Buffer \<Rightarrow> Buffer" where
  "Encode n sz out = Encode_loop (if sz = 0 then 8 else sz) n sz out"

text \<open>\<open>Encode (uint8_t *p, size_t size)\<close>; the string overloads pass the string's
  bytes.\<close>

fun Encode_bytes :: "byte list \<Rightarrow> Buffer \<Rightarrow> Buffer" where
  "Encode_bytes [] out = out"
| "Encode_bytes (n # p) out =
    Encode_bytes p
      (Put (Put out [EncodeHexNybble (drop_bit 4 n AND 0xf)]) [EncodeHexNybble (n AND 0xf)])"

section \<open>Connection state\<close>

datatype RxState =
    WAITING_PACKET_OPEN
  | READING_PACKET_DATA
  | ESCAPE_CHARACTER
  | CHECKSUM_0
  | CHECKSUM_1

text \<open>\<open>gc_sent\<close> is what the operating system has accepted for \<open>out_file\<close>. The two
  characters of \<open>checksum_hex\<close> are two fields.\<close>

record GdbConnection =
  gc_error_flag :: bool
  gc_in_buffer :: Buffer
  gc_message_buffer :: Buffer
  gc_out_buffer :: Buffer
  gc_state :: RxState
  gc_checksum :: byte
  gc_checksum_hex0 :: byte
  gc_checksum_hex1 :: byte
  gc_ack_enabled :: bool
  gc_sent :: "byte list"

definition GdbConnection_new :: GdbConnection where
  "GdbConnection_new = \<lparr>
     gc_error_flag = False, gc_in_buffer = Buffer_new, gc_message_buffer = Buffer_new,
     gc_out_buffer = Buffer_new, gc_state = WAITING_PACKET_OPEN, gc_checksum = 0,
     gc_checksum_hex0 = 0, gc_checksum_hex1 = 0, gc_ack_enabled = True, gc_sent = []\<rparr>"

definition SignalError :: "GdbConnection \<Rightarrow> GdbConnection" where
  "SignalError c = c\<lparr>gc_error_flag := True\<rparr>"

definition StartNoAckMode :: "GdbConnection \<Rightarrow> GdbConnection" where
  "StartNoAckMode c = c\<lparr>gc_ack_enabled := False\<rparr>"

text \<open>The expression \<open>ch ^ 0x20\<close> has type \<open>int\<close>, so \<open>message_buffer.Write\<close> is the
  template at \<open>int\<close> and stores four bytes: the character with bit 5 flipped and the sign
  extension of the (signed) character.\<close>

definition unescape_int :: "byte \<Rightarrow> byte list" where
  "unescape_int ch =
    (let ext = (if 0x80 \<le> ch then 0xff else 0) in [ch XOR 0x20, ext, ext, ext])"

text \<open>One iteration of the loop of \<open>GdbConnection::Process\<close>: the new state and, when the
  loop is left, what is returned.\<close>

datatype ProcessResult = NoMessage | Interrupted | Message

definition process_char :: "GdbConnection \<Rightarrow> byte \<Rightarrow> GdbConnection \<times> ProcessResult option" where
  "process_char c ch =
    (case gc_state c of
       WAITING_PACKET_OPEN \<Rightarrow>
         if ch = 0x2b then (c, None)
         else if ch = 0x03 then (c, Some Interrupted)
         else if ch \<noteq> 0x24 then (SignalError c, Some NoMessage)
         else (c\<lparr>gc_message_buffer := Clear (gc_message_buffer c), gc_checksum := 0,
                  gc_state := READING_PACKET_DATA\<rparr>, None)
     | READING_PACKET_DATA \<Rightarrow>
         if ch = 0x23 then (c\<lparr>gc_state := CHECKSUM_0\<rparr>, None)
         else
           (let c1 = c\<lparr>gc_checksum := gc_checksum c + ch\<rparr> in
            if ch = 0x7d then (c1\<lparr>gc_state := ESCAPE_CHARACTER\<rparr>, None)
            else (c1\<lparr>gc_message_buffer := Put (gc_message_buffer c1) [ch]\<rparr>, None))
     | ESCAPE_CHARACTER \<Rightarrow>
         (c\<lparr>gc_checksum := gc_checksum c + ch,
            gc_message_buffer := Put (gc_message_buffer c) (unescape_int ch),
            gc_state := READING_PACKET_DATA\<rparr>, None)
     | CHECKSUM_0 \<Rightarrow> (c\<lparr>gc_checksum_hex0 := ch, gc_state := CHECKSUM_1\<rparr>, None)
     | CHECKSUM_1 \<Rightarrow>
         (let c1 = c\<lparr>gc_checksum_hex1 := ch, gc_state := WAITING_PACKET_OPEN\<rparr> in
          if DecodeHexByte (gc_checksum_hex0 c1) (gc_checksum_hex1 c1) \<noteq> gc_checksum c1 then
            (if gc_ack_enabled c1 then (c1\<lparr>gc_sent := gc_sent c1 @ [0x2d]\<rparr>, None)
             else (SignalError c1, Some NoMessage))
          else
            (if gc_ack_enabled c1 then (c1\<lparr>gc_sent := gc_sent c1 @ [0x2b]\<rparr>, Some Message)
             else (c1, Some Message))))"

lemma process_char_in_buffer [simp]: "gc_in_buffer (fst (process_char c ch)) = gc_in_buffer c"
  by (auto simp: process_char_def SignalError_def Let_def split: RxState.splits)

lemma process_char_keeps_input:
  "process_char (c\<lparr>gc_in_buffer := b\<rparr>) ch = (c', r) \<Longrightarrow> gc_in_buffer c' = b"
  using process_char_in_buffer [of "c\<lparr>gc_in_buffer := b\<rparr>" ch] by simp

function GdbConnection_Process :: "GdbConnection \<Rightarrow> ProcessResult \<times> GdbConnection" where
  "GdbConnection_Process c =
    (case Read_char (gc_in_buffer c) of
       None \<Rightarrow> (NoMessage, c)
     | Some (ch, b) \<Rightarrow>
         (case process_char (c\<lparr>gc_in_buffer := b\<rparr>) ch of
            (c', None) \<Rightarrow> GdbConnection_Process c'
          | (c', Some r) \<Rightarrow> (r, c')))"
  by pat_completeness auto
termination
  by (relation "measure (\<lambda>c. write_head (gc_in_buffer c) - read_head (gc_in_buffer c))")
    (auto dest!: Read_char_decreases process_char_keeps_input [OF sym])

text \<open>\<open>InputMember::SignalRead\<close>: \<open>chunk\<close> is what \<open>read (2)\<close> stored, at most the room
  that \<open>Reserve\<close> offered; \<open>None\<close> is end of file or an error.\<close>

definition SignalRead :: "GdbConnection \<Rightarrow> byte list option \<Rightarrow> GdbConnection" where
  "SignalRead c got =
    (let (room, b1) = Reserve (gc_in_buffer c) 8192 in
     case got of
       None \<Rightarrow> SignalError (c\<lparr>gc_in_buffer := b1\<rparr>)
     | Some chunk \<Rightarrow>
         (let k = take room chunk in
          c\<lparr>gc_in_buffer := MarkWritten (fill b1 k) (length k)\<rparr>))"

text \<open>\<open>GdbConnection::Respond\<close>: the message is escaped and framed into \<open>out_buffer\<close>,
  which is then written out.\<close>

definition needs_escape :: "byte \<Rightarrow> bool" where
  "needs_escape ch \<longleftrightarrow> ch = 0x23 \<or> ch = 0x24 \<or> ch = 0x7d \<or> ch = 0x2a"

function Respond_escape :: "Buffer \<Rightarrow> byte \<Rightarrow> Buffer \<Rightarrow> Buffer \<times> byte \<times> Buffer" where
  "Respond_escape out checksum buffer =
    (case Read_char buffer of
       None \<Rightarrow> (out, checksum, buffer)
     | Some (ch, buffer') \<Rightarrow>
         if needs_escape ch
         then Respond_escape (Put (Put out [0x7d]) [ch XOR 0x20])
                (checksum + 0x7d + (ch XOR 0x20)) buffer'
         else Respond_escape (Put out [ch]) (checksum + ch) buffer')"
  by pat_completeness auto
termination
  by (relation "measure (\<lambda>(out, cs, b). write_head b - read_head b)")
    (auto dest: Read_char_decreases)

text \<open>The \<open>write (2)\<close> loop: \<open>results\<close> are the values the successive calls return.
  \<open>None\<close>: the calls so far have not emptied the buffer.\<close>

fun Respond_flush :: "int list \<Rightarrow> GdbConnection \<Rightarrow> GdbConnection option" where
  "Respond_flush results c =
    (if ReadAvailable (gc_out_buffer c) = 0 then Some c
     else
       (case results of
          [] \<Rightarrow> None
        | r # results' \<Rightarrow>
            if r < 0 then Some (SignalError c)
            else if r > 0 then
              Respond_flush results'
                (c\<lparr>gc_sent := gc_sent c @ take (nat r) (contents (gc_out_buffer c)),
                   gc_out_buffer := MarkRead (gc_out_buffer c) (nat r)\<rparr>)
            else Respond_flush results' c))"

definition Respond :: "int list \<Rightarrow> GdbConnection \<Rightarrow> Buffer \<Rightarrow> (GdbConnection \<times> Buffer) option" where
  "Respond results c buffer =
    (let (out, checksum, buffer') = Respond_escape (Put (gc_out_buffer c) [0x24]) 0 buffer;
         out' = Encode (ucast checksum) 1 (Put out [0x23])
     in map_option (\<lambda>c'. (c', buffer')) (Respond_flush results (c\<lparr>gc_out_buffer := out'\<rparr>)))"

text \<open>The payloads of \<open>RespondEmpty\<close>, \<open>RespondError\<close> and \<open>RespondOk\<close>.\<close>

definition RespondEmpty_payload :: Buffer where
  "RespondEmpty_payload = Buffer_new"

definition RespondError_payload :: "u32 \<Rightarrow> Buffer" where
  "RespondError_payload no =
    Put Buffer_new [0x45, EncodeHexNybble (ucast (drop_bit 4 no AND 0xf)), EncodeHexNybble (ucast (no AND 0xf))]"

definition RespondOk_payload :: Buffer where
  "RespondOk_payload = Put (Put Buffer_new [0x4f]) [0x4b]"

declare DecodeWithSeparator_loop.simps [simp del] Decode_loop.simps [simp del]
  Decode_vector.simps [simp del] Decode_buffer_loop.simps [simp del] GdbConnection_Process.simps [simp del]
  Respond_escape.simps [simp del] Respond_flush.simps [simp del]

section \<open>The codecs on byte lists\<close>

text \<open>A loop that takes characters from a buffer depends on its contents only; these are the
  loops as functions of the contents.\<close>

fun hex_value :: "u64 \<Rightarrow> byte list \<Rightarrow> u64" where
  "hex_value out [] = out"
| "hex_value out (c # cs) = hex_value (push_bit 4 out OR ucast (DecodeHexNybble c)) cs"

fun hex_pairs :: "byte list \<Rightarrow> byte list" where
  "hex_pairs (c # d # cs) = (push_bit 4 (DecodeHexNybble c) OR DecodeHexNybble d) # hex_pairs cs"
| "hex_pairs _ = []"

definition hex2 :: "byte \<Rightarrow> byte list" where
  "hex2 n = [EncodeHexNybble (drop_bit 4 n AND 0xf), EncodeHexNybble (n AND 0xf)]"

lemma Decode_loop_contents:
  assumes "buf_ok b"
  shows "fst (Decode_loop out b) = hex_value out (contents b) \<and>
         contents (snd (Decode_loop out b)) = [] \<and> buf_ok (snd (Decode_loop out b))"
  using assms
proof (induction out b rule: Decode_loop.induct)
  case (1 out b)
  show ?case
  proof (cases "Read_char b")
    case None
    then show ?thesis using 1(2) Read_char_None [OF 1(2)] by (simp add: Decode_loop.simps [of out b])
  next
    case (Some p)
    obtain c b' where p: "p = (c, b')" by fastforce
    note r = Read_char_Some [OF 1(2) Some [unfolded p]]
    show ?thesis using 1(1) [OF Some p [symmetric] r(2)] Some p r(1)
      by (simp add: Decode_loop.simps [of out b])
  qed
qed

lemma DecodeWithSeparator_loop_contents:
  assumes "buf_ok b"
  shows "fst (DecodeWithSeparator_loop out sep b) =
           hex_value out (takeWhile (\<lambda>c. c \<noteq> sep) (contents b)) \<and>
         contents (snd (DecodeWithSeparator_loop out sep b)) =
           drop 1 (dropWhile (\<lambda>c. c \<noteq> sep) (contents b)) \<and>
         buf_ok (snd (DecodeWithSeparator_loop out sep b))"
  using assms
proof (induction out sep b rule: DecodeWithSeparator_loop.induct)
  case (1 out sep b)
  show ?case
  proof (cases "Read_char b")
    case None
    then show ?thesis using 1(2) Read_char_None [OF 1(2)] by (simp add: DecodeWithSeparator_loop.simps [of out sep b])
  next
    case (Some p)
    obtain c b' where p: "p = (c, b')" by fastforce
    note r = Read_char_Some [OF 1(2) Some [unfolded p]]
    show ?thesis using 1(1) [OF Some p [symmetric] _ r(2)] Some p r(1,2)
      by (simp add: DecodeWithSeparator_loop.simps [of out sep b])
  qed
qed

lemma Decode_vector_contents:
  assumes "buf_ok b"
  shows "fst (Decode_vector out b) = out @ hex_pairs (contents b) \<and>
         contents (snd (Decode_vector out b)) = [] \<and> buf_ok (snd (Decode_vector out b))"
  using assms
proof (induction out b rule: Decode_vector.induct)
  case (1 out b)
  show ?case
  proof (cases "Read_char b")
    case None
    then show ?thesis using 1(2) Read_char_None [OF 1(2)] by (simp add: Decode_vector.simps [of out b])
  next
    case (Some p)
    obtain c b1 where p: "p = (c, b1)" by fastforce
    note r = Read_char_Some [OF 1(2) Some [unfolded p]]
    show ?thesis
    proof (cases "Read_char b1")
      case None
      then show ?thesis using \<open>Read_char b = Some p\<close> p r Read_char_None [OF r(2)]
        by (simp add: Decode_vector.simps [of out b])
    next
      case (Some q)
      obtain d b2 where q: "q = (d, b2)" by fastforce
      note r2 = Read_char_Some [OF r(2) Some [unfolded q]]
      show ?thesis
        using 1(1) [OF \<open>Read_char b = Some p\<close> p [symmetric] Some q [symmetric] r2(2)]
          \<open>Read_char b = Some p\<close> Some p q r(1) r2(1)
        by (simp add: Decode_vector.simps [of out b])
    qed
  qed
qed

lemma Encode_bytes_contents [buf_simps]:
  assumes "buf_ok b" and "limit b = None"
  shows "contents (Encode_bytes p b) = contents b @ concat (map hex2 p) \<and>
         buf_ok (Encode_bytes p b) \<and> limit (Encode_bytes p b) = None"
  using assms by (induction p arbitrary: b) (auto simp: hex2_def)

definition be_bytes :: "nat \<Rightarrow> u64 \<Rightarrow> byte list" where
  "be_bytes k n = map (\<lambda>i. ucast (drop_bit (8 * i) n)) (rev [0..<k])"

lemma be_bytes_Suc [simp]:
  "be_bytes 0 n = []" "be_bytes (Suc k) n = ucast (drop_bit (8 * k) n) # be_bytes k n"
  by (simp_all add: be_bytes_def)

lemma Decode_Encode_nybble [simp]:
  assumes "n < 0x10" shows "DecodeHexNybble (EncodeHexNybble n) = n"
  using nybble_cases [OF assms] unfolding insert_iff empty_iff
  by (elim disjE FalseE; simp add: DecodeHexNybble_def EncodeHexNybble_def)

lemma hex_pairs_hex2 [simp]: "hex_pairs (hex2 n @ cs) = n # hex_pairs cs"
  by (simp only: hex2_def append.simps hex_pairs.simps Decode_Encode_nybble nybble_less
      byte_of_nybbles)

lemma hex_pairs_concat: "hex_pairs (concat (map hex2 bs)) = bs"
  by (induction bs) simp_all

lemma hex_value_hex2 [simp]: "hex_value out (hex2 n @ cs) = hex_value (push_bit 8 out OR ucast n) cs"
  by (simp only: hex2_def append.simps hex_value.simps Decode_Encode_nybble nybble_less
      shift_in_nybbles)

lemma hex_value_concat:
  "hex_value out (concat (map hex2 bs)) = foldl (\<lambda>out b. push_bit 8 out OR ucast b) out bs"
  by (induction bs arbitrary: out) simp_all

lemma foldl_be_bytes:
  "foldl (\<lambda>out b. push_bit 8 out OR ucast b) out (be_bytes k n) =
     push_bit (8 * k) out OR take_bit (8 * k) n"
proof (induction k arbitrary: out)
  case (Suc k)
  have "8 * Suc k = 8 * k + 8" by simp
  then show ?case by (simp only: be_bytes_Suc foldl.simps Suc.IH shift_in_byte)
qed simp

lemma be_bytes_shift: "k < 8 \<Longrightarrow> be_bytes (Suc k) (push_bit 8 n) = be_bytes k n @ [0]"
proof (induction k)
  case 0
  have "ucast (push_bit 8 n) = (0 :: byte)" by (rule bit_word_eqI) (auto simp: bit_simps)
  then show ?case by simp
next
  case (Suc k)
  then have "k \<le> 6" by simp
  then have "ucast (drop_bit (8 * Suc k) (push_bit 8 n)) = (ucast (drop_bit (8 * k) n) :: byte)"
    by (intro bit_word_eqI) (auto simp: bit_simps)
  moreover have "be_bytes (Suc (Suc k)) (push_bit 8 n) =
      ucast (drop_bit (8 * Suc k) (push_bit 8 n)) # be_bytes (Suc k) (push_bit 8 n)"
    by (rule be_bytes_Suc(2))
  ultimately show ?case using Suc by (simp only: be_bytes_Suc append.simps Suc_lessD)
qed

lemma be_bytes_8_small:
  assumes "n < 2 ^ 56"
  shows "be_bytes 8 n = 0 # be_bytes 7 n"
proof -
  have "n div 2 ^ 56 = 0" using assms by (rule div_word_less)
  then have "drop_bit 56 n = 0" by (simp only: drop_bit_eq_div)
  then show ?thesis using be_bytes_Suc(2) [of 7 n] by (simp add: eval_nat_numeral)
qed

lemma Encode_loop_contents:
  assumes "buf_ok b" and "limit b = None"
  shows "contents (Encode_loop k n sz b) =
           contents b @ concat (map hex2 (filter (\<lambda>x. sz \<noteq> 0 \<or> x \<noteq> 0) (be_bytes k n))) \<and>
         buf_ok (Encode_loop k n sz b) \<and> limit (Encode_loop k n sz b) = None"
  using assms
  by (induction k arbitrary: b)
    (auto simp: Let_def nybbles_of_shift byte_zero_of_shift hex2_def)

lemma Encode_contents [buf_simps]:
  assumes "buf_ok b" and "limit b = None"
  shows "contents (Encode n sz b) = contents b @
           (if sz = 0 then concat (map hex2 (filter (\<lambda>x. x \<noteq> 0) (be_bytes 8 n)))
            else concat (map hex2 (be_bytes sz n)))"
    and "buf_ok (Encode n sz b)" and "limit (Encode n sz b) = None"
  using Encode_loop_contents [OF assms] by (simp_all add: Encode_def)

text \<open>Memory and registers survive the hexadecimal codec: decoding the digits of any byte
  vector gives the vector back and consumes the packet.\<close>

theorem hex_bytes_roundtrip:
  "fst (Decode_vector [] (Encode_bytes p Buffer_new)) = p \<and>
   contents (snd (Decode_vector [] (Encode_bytes p Buffer_new))) = []"
  using Decode_vector_contents [of "Encode_bytes p Buffer_new" "[]"]
    Encode_bytes_contents [of Buffer_new p] hex_pairs_concat [of p] by simp

text \<open>An integer written with a size of 1 to 8 bytes is read back as its low bytes, so it is
  read back exactly when it fits.\<close>

theorem hex_integer_roundtrip:
  assumes "0 < sz" and "sz \<le> 8"
  shows "fst (Decode (Encode n sz Buffer_new)) = take_bit (8 * sz) n"
  using assms Decode_loop_contents [of "Encode n sz Buffer_new" 0] Encode_contents [of Buffer_new n sz]
    hex_value_concat [of 0 "be_bytes sz n"] foldl_be_bytes [of 0 sz n]
  by (simp add: Decode_def)

theorem hex_integer_roundtrip_witness:
  "fst (Decode (Encode 0x1234 2 Buffer_new)) = 0x1234"
  using hex_integer_roundtrip [of 2 "0x1234"] by simp

text \<open>With size 0, the form used for process and thread identifiers, every zero byte is
  dropped and not only the leading ones: an identifier and 256 times it give the same text, so
  the identifier 0x100 is announced as 1.\<close>

theorem hex_zero_size_loses_zero_bytes:
  assumes "n < 2 ^ 56"
  shows "contents (Encode (256 * n) 0 Buffer_new) = contents (Encode n 0 Buffer_new)"
proof -
  have "256 * n = push_bit 8 n" by (simp add: push_bit_eq_mult mult.commute)
  moreover have "be_bytes 8 (push_bit 8 n) = be_bytes 7 n @ [0]"
    using be_bytes_shift [of 7 n] by (simp add: eval_nat_numeral)
  ultimately show ?thesis using be_bytes_8_small [OF assms] by (simp add: Encode_contents)
qed

theorem hex_zero_size_loses_zero_bytes_witness:
  "contents (Encode 0x100 0 Buffer_new) = contents (Encode 1 0 Buffer_new)"
  using hex_zero_size_loses_zero_bytes [of 1] by simp

section \<open>Framing\<close>

definition escape :: "byte list \<Rightarrow> byte list" where
  "escape m = concat (map (\<lambda>ch. if needs_escape ch then [0x7d, ch XOR 0x20] else [ch]) m)"

definition frame :: "byte list \<Rightarrow> byte list" where
  "frame m = [0x24] @ escape m @ [0x23] @ hex2 (sum_list (escape m))"

lemma escape_simps [simp]:
  "escape [] = []"
  "escape (ch # m) = (if needs_escape ch then [0x7d, ch XOR 0x20] else [ch]) @ escape m"
  by (simp_all add: escape_def)

lemma Respond_escape_contents:
  assumes "buf_ok b" and "buf_ok out" and "limit out = None"
  shows "\<exists>out' b'. Respond_escape out cs b = (out', cs + sum_list (escape (contents b)), b') \<and>
           contents out' = contents out @ escape (contents b) \<and> buf_ok out' \<and> limit out' = None \<and>
           contents b' = [] \<and> buf_ok b'"
  using assms
proof (induction "contents b" arbitrary: b out cs)
  case Nil
  then show ?case using Read_char_None [of b] by (simp add: Respond_escape.simps)
next
  case (Cons ch m)
  obtain b' where b': "Read_char b = Some (ch, b')" "contents b' = m" "buf_ok b'"
    using Read_char_Cons [OF Cons.prems(1) Cons.hyps(2) [symmetric]] by blast
  show ?case
  proof (cases "needs_escape ch")
    case True
    then show ?thesis
      using Cons.hyps(1) [OF b'(2) [symmetric] b'(3), of "Put (Put out [0x7d]) [ch XOR 0x20]"
          "cs + 0x7d + (ch XOR 0x20)"] Cons.prems Cons.hyps(2) [symmetric] b'
      by (simp add: Respond_escape.simps [of out cs b] add.assoc)
  next
    case False
    then show ?thesis
      using Cons.hyps(1) [OF b'(2) [symmetric] b'(3), of "Put out [ch]" "cs + ch"]
        Cons.prems Cons.hyps(2) [symmetric] b'
      by (simp add: Respond_escape.simps [of out cs b] add.assoc)
  qed
qed

lemma Respond_flush_all:
  assumes "buf_ok (gc_out_buffer c)" and "\<forall>r \<in> set rs. 0 \<le> r"
    and "sum_list rs = int (length (contents (gc_out_buffer c)))"
  shows "\<exists>c'. Respond_flush rs c = Some c' \<and> contents (gc_out_buffer c') = [] \<and>
           buf_ok (gc_out_buffer c') \<and> limit (gc_out_buffer c') = limit (gc_out_buffer c) \<and>
           gc_sent c' = gc_sent c @ contents (gc_out_buffer c) \<and> gc_error_flag c' = gc_error_flag c"
  using assms
proof (induction rs arbitrary: c)
  case Nil
  then show ?case by (simp add: Respond_flush.simps)
next
  case (Cons r rs)
  let ?b = "gc_out_buffer c"
  let ?c = "c\<lparr>gc_sent := gc_sent c @ take (nat r) (contents ?b), gc_out_buffer := MarkRead ?b (nat r)\<rparr>"
  have "0 \<le> sum_list rs" using Cons.prems(2) by (auto intro: sum_list_nonneg)
  then have r: "nat r \<le> length (contents ?b)" using Cons.prems(3) by simp
  consider "contents ?b = []" | "contents ?b \<noteq> []" "r = 0" | "contents ?b \<noteq> []" "r > 0"
    using Cons.prems(2) by force
  then show ?case
  proof cases
    case 1
    then show ?thesis using Cons.prems(1) by (simp add: Respond_flush.simps [of "r # rs" c])
  next
    case 2
    then show ?thesis
      using Cons.IH [of c] Cons.prems by (simp add: Respond_flush.simps [of "0 # rs" c])
  next
    case 3
    have "sum_list rs = int (length (contents (gc_out_buffer ?c)))"
      using 3 r Cons.prems(1,3) by simp
    then show ?thesis
      using 3 r Cons.IH [of ?c] Cons.prems(1,2) by (auto simp: Respond_flush.simps [of "r # rs" c])
  qed
qed

text \<open>However the operating system splits the writes, \<open>Respond\<close> puts exactly the frame of
  the message on the wire: the dollar sign, the escaped payload, the number sign and the two
  checksum digits.\<close>

theorem respond_sends_frame:
  assumes "buf_ok (gc_out_buffer c)" and "limit (gc_out_buffer c) = None"
    and "contents (gc_out_buffer c) = []" and "buf_ok b"
    and "\<forall>r \<in> set rs. 0 \<le> r" and "sum_list rs = int (length (frame (contents b)))"
  shows "\<exists>c' b'. Respond rs c b = Some (c', b') \<and> gc_sent c' = gc_sent c @ frame (contents b) \<and>
           contents (gc_out_buffer c') = [] \<and> contents b' = [] \<and> gc_error_flag c' = gc_error_flag c"
proof -
  obtain out b' where e: "Respond_escape (Put (gc_out_buffer c) [0x24]) 0 b =
      (out, sum_list (escape (contents b)), b')" "contents out = 0x24 # escape (contents b)"
      "buf_ok out" "limit out = None" "contents b' = []"
    using Respond_escape_contents [OF assms(4), of "Put (gc_out_buffer c) [0x24]" 0] assms by auto
  let ?s = "sum_list (escape (contents b))"
  let ?out = "Encode (ucast ?s) 1 (Put out [0x23])"
  have one: "be_bytes 1 (ucast ?s) = [?s]" by (simp add: be_bytes_def unsigned_ucast_eq take_bit_word_eq_self)
  have f: "contents ?out = frame (contents b)" "buf_ok ?out"
    using e(2-4) one by (simp_all add: Encode_contents frame_def)
  show ?thesis
    using Respond_flush_all [of "c\<lparr>gc_out_buffer := ?out\<rparr>" rs] f e assms(5,6)
    by (auto simp: Respond_def)
qed

theorem respond_sends_frame_witness:
  "\<exists>c' b'. Respond [1, 0, 5] GdbConnection_new RespondOk_payload = Some (c', b') \<and>
     gc_sent c' = frame [0x4f, 0x4b]"
  using respond_sends_frame [of GdbConnection_new RespondOk_payload "[1, 0, 5]"]
  by (fastforce simp: GdbConnection_new_def RespondOk_payload_def frame_def needs_escape_def hex2_def)

subsection \<open>Receiving\<close>

definition rx_ok :: "GdbConnection \<Rightarrow> bool" where
  "rx_ok c \<longleftrightarrow> buf_ok (gc_in_buffer c) \<and> buf_ok (gc_message_buffer c) \<and>
     limit (gc_message_buffer c) = None"

text \<open>What the receiver stores for a message: an escaped character arrives as four bytes.\<close>

definition received :: "byte list \<Rightarrow> byte list" where
  "received m = concat (map (\<lambda>ch. if needs_escape ch then [ch, 0, 0, 0] else [ch]) m)"

lemma received_simps [simp]:
  "received [] = []"
  "received (ch # m) = (if needs_escape ch then [ch, 0, 0, 0] else [ch]) @ received m"
  by (simp_all add: received_def)

lemma received_id: "received m = m \<longleftrightarrow> (\<forall>ch \<in> set m. \<not> needs_escape ch)"
proof
  have "length m \<le> length (received m)" for m by (induction m) auto
  then show "received m = m \<Longrightarrow> \<forall>ch \<in> set m. \<not> needs_escape ch"
    by (induction m) (auto split: if_splits, metis Suc_n_not_le_n le_SucI length_Cons)
qed (induction m; auto)

lemma unescape_escaped: "needs_escape ch \<Longrightarrow> unescape_int (ch XOR 0x20) = [ch, 0, 0, 0]"
  by (auto simp: needs_escape_def unescape_int_def)

lemma process_char_frame:
  "process_char (c\<lparr>gc_in_buffer := b\<rparr>) ch =
     map_prod (\<lambda>c'. c'\<lparr>gc_in_buffer := b\<rparr>) id (process_char c ch)"
  by (simp add: process_char_def SignalError_def Let_def split: RxState.splits)

text \<open>\<open>GdbConnection_Process\<close> as a function of the bytes that wait in the input buffer.\<close>

fun rx :: "GdbConnection \<Rightarrow> byte list \<Rightarrow> ProcessResult \<times> GdbConnection \<times> byte list" where
  "rx c [] = (NoMessage, c, [])"
| "rx c (ch # cs) =
    (case process_char c ch of (c', None) \<Rightarrow> rx c' cs | (c', Some r) \<Rightarrow> (r, c', cs))"

lemma rx_frame: "rx (c\<lparr>gc_in_buffer := b\<rparr>) cs = map_prod id (map_prod (\<lambda>c'. c'\<lparr>gc_in_buffer := b\<rparr>) id) (rx c cs)"
  by (induction cs arbitrary: c) (auto simp: process_char_frame map_prod_def split: prod.splits option.splits)

lemma Process_rx:
  assumes "buf_ok (gc_in_buffer c)"
  shows "\<exists>b. buf_ok b \<and> contents b = snd (snd (rx c (contents (gc_in_buffer c)))) \<and>
    GdbConnection_Process c = (fst (rx c (contents (gc_in_buffer c))),
      (fst (snd (rx c (contents (gc_in_buffer c)))))\<lparr>gc_in_buffer := b\<rparr>)"
  using assms
proof (induction "contents (gc_in_buffer c)" arbitrary: c)
  case Nil
  then have "GdbConnection_Process c = (NoMessage, c\<lparr>gc_in_buffer := gc_in_buffer c\<rparr>)"
    by (simp add: GdbConnection_Process.simps [of c] Read_char_empty)
  with Nil show ?case by (metis fst_conv rx.simps(1) snd_conv)
next
  case (Cons ch cs)
  obtain b where b: "Read_char (gc_in_buffer c) = Some (ch, b)" "contents b = cs" "buf_ok b"
    using Read_char_Cons [OF Cons.prems Cons.hyps(2) [symmetric]] by blast
  obtain c' r where p: "process_char c ch = (c', r)" by fastforce
  have P: "GdbConnection_Process c = (case r of None \<Rightarrow> GdbConnection_Process (c'\<lparr>gc_in_buffer := b\<rparr>)
      | Some r \<Rightarrow> (r, c'\<lparr>gc_in_buffer := b\<rparr>))"
    using b p by (simp add: GdbConnection_Process.simps [of c] process_char_frame split: option.splits)
  show ?case
  proof (cases r)
    case None
    then show ?thesis
      using Cons.hyps(1) [of "c'\<lparr>gc_in_buffer := b\<rparr>"] b P p Cons.hyps(2) [symmetric]
      by (simp add: rx_frame)
  next
    case (Some x)
    then show ?thesis using b P p Cons.hyps(2) [symmetric] by auto
  qed
qed

lemma process_char_data:
  "gc_state c = WAITING_PACKET_OPEN \<Longrightarrow> process_char c 0x24 =
     (c\<lparr>gc_message_buffer := Clear (gc_message_buffer c), gc_checksum := 0,
        gc_state := READING_PACKET_DATA\<rparr>, None)"
  "gc_state c = READING_PACKET_DATA \<Longrightarrow> process_char c 0x23 = (c\<lparr>gc_state := CHECKSUM_0\<rparr>, None)"
  "gc_state c = READING_PACKET_DATA \<Longrightarrow> process_char c 0x7d =
     (c\<lparr>gc_checksum := gc_checksum c + 0x7d, gc_state := ESCAPE_CHARACTER\<rparr>, None)"
  "gc_state c = READING_PACKET_DATA \<Longrightarrow> \<not> needs_escape ch \<Longrightarrow> process_char c ch =
     (c\<lparr>gc_checksum := gc_checksum c + ch, gc_message_buffer := Put (gc_message_buffer c) [ch]\<rparr>, None)"
  "gc_state c = ESCAPE_CHARACTER \<Longrightarrow> process_char c ch =
     (c\<lparr>gc_checksum := gc_checksum c + ch,
        gc_message_buffer := Put (gc_message_buffer c) (unescape_int ch),
        gc_state := READING_PACKET_DATA\<rparr>, None)"
  "gc_state c = CHECKSUM_0 \<Longrightarrow>
     process_char c ch = (c\<lparr>gc_checksum_hex0 := ch, gc_state := CHECKSUM_1\<rparr>, None)"
  by (simp_all add: process_char_def needs_escape_def)

text \<open>The outcome of a packet, by its checksum digits.\<close>

definition rx_verdict :: "GdbConnection \<Rightarrow> byte \<Rightarrow> byte \<Rightarrow> byte list \<Rightarrow>
    ProcessResult \<times> GdbConnection \<times> byte list" where
  "rx_verdict c h0 h1 rest =
    (let c1 = c\<lparr>gc_checksum_hex0 := h0, gc_checksum_hex1 := h1, gc_state := WAITING_PACKET_OPEN\<rparr> in
     if DecodeHexByte h0 h1 = gc_checksum c
     then (Message, if gc_ack_enabled c then c1\<lparr>gc_sent := gc_sent c @ [0x2b]\<rparr> else c1, rest)
     else if gc_ack_enabled c then rx (c1\<lparr>gc_sent := gc_sent c @ [0x2d]\<rparr>) rest
     else (NoMessage, SignalError c1, rest))"

lemma rx_checksum:
  assumes "gc_state c = CHECKSUM_0"
  shows "rx c (h0 # h1 # rest) = rx_verdict c h0 h1 rest"
  using assms
  by (simp add: process_char_data rx_verdict_def)
    (simp add: process_char_def Let_def)

lemma rx_data:
  assumes "gc_state c = READING_PACKET_DATA" and "buf_ok (gc_message_buffer c)"
    and "limit (gc_message_buffer c) = None"
  shows "\<exists>mb. buf_ok mb \<and> limit mb = None \<and>
    contents mb = contents (gc_message_buffer c) @ received m \<and>
    rx c (escape m @ 0x23 # h0 # h1 # rest) =
      rx_verdict (c\<lparr>gc_checksum := gc_checksum c + sum_list (escape m), gc_message_buffer := mb,
        gc_state := CHECKSUM_0\<rparr>) h0 h1 rest"
  using assms
proof (induction m arbitrary: c)
  case Nil
  have "rx c (escape [] @ 0x23 # h0 # h1 # rest) = rx (c\<lparr>gc_state := CHECKSUM_0\<rparr>) (h0 # h1 # rest)"
    using Nil by (simp only: rx.simps process_char_data escape_simps append.simps split option.case)
  then show ?case
    using Nil by (intro exI [of _ "gc_message_buffer c"]) (simp add: rx_checksum del: rx.simps)
next
  case (Cons ch m)
  show ?case
  proof (cases "needs_escape ch")
    case True
    let ?c = "c\<lparr>gc_checksum := gc_checksum c + 0x7d + (ch XOR 0x20),
      gc_message_buffer := Put (gc_message_buffer c) [ch, 0, 0, 0], gc_state := READING_PACKET_DATA\<rparr>"
    have "rx c (escape (ch # m) @ 0x23 # h0 # h1 # rest) = rx ?c (escape m @ 0x23 # h0 # h1 # rest)"
      using True Cons.prems by (simp add: process_char_data unescape_escaped)
    with True show ?thesis
      using Cons.IH [of ?c] Cons.prems by (simp add: add.assoc del: rx.simps)
  next
    case False
    let ?c = "c\<lparr>gc_checksum := gc_checksum c + ch, gc_message_buffer := Put (gc_message_buffer c) [ch]\<rparr>"
    have "rx c (escape (ch # m) @ 0x23 # h0 # h1 # rest) = rx ?c (escape m @ 0x23 # h0 # h1 # rest)"
      using False Cons.prems by (simp add: process_char_data)
    with False show ?thesis
      using Cons.IH [of ?c] Cons.prems by (simp add: add.assoc del: rx.simps)
  qed
qed

lemma rx_packet:
  assumes "gc_state c = WAITING_PACKET_OPEN" and "buf_ok (gc_message_buffer c)"
    and "limit (gc_message_buffer c) = None"
  shows "\<exists>mb. buf_ok mb \<and> limit mb = None \<and> contents mb = received m \<and>
    rx c (0x24 # escape m @ 0x23 # h0 # h1 # rest) =
      rx_verdict (c\<lparr>gc_checksum := sum_list (escape m), gc_message_buffer := mb,
        gc_state := CHECKSUM_0\<rparr>) h0 h1 rest"
proof -
  let ?c = "c\<lparr>gc_message_buffer := Clear (gc_message_buffer c), gc_checksum := 0,
      gc_state := READING_PACKET_DATA\<rparr>"
  have "rx c (0x24 # escape m @ 0x23 # h0 # h1 # rest) = rx ?c (escape m @ 0x23 # h0 # h1 # rest)"
    using assms(1) by (simp add: process_char_data)
  then show ?thesis using rx_data [of ?c m h0 h1 rest] assms by (auto simp del: rx.simps)
qed

lemma Decode_hex2 [simp]:
  "DecodeHexByte (EncodeHexNybble (drop_bit 4 n AND 0xf)) (EncodeHexNybble (n AND 0xf)) = n"
  by (simp only: DecodeHexByte_def Decode_Encode_nybble nybble_less byte_of_nybbles)

text \<open>C29: a frame made by the sender is delivered by the receiver as one message, acknowledged in
  acknowledge mode, with the bytes behind it left in the buffer; each character the sender escaped
  arrives as four bytes, so the message is intact exactly when it holds none of the four special
  characters.\<close>

theorem frame_received:
  assumes "rx_ok c" and "gc_state c = WAITING_PACKET_OPEN"
    and "contents (gc_in_buffer c) = frame m @ rest"
  shows "\<exists>c'. GdbConnection_Process c = (Message, c') \<and> contents (gc_message_buffer c') = received m \<and>
           contents (gc_in_buffer c') = rest \<and> gc_state c' = WAITING_PACKET_OPEN \<and> rx_ok c' \<and>
           gc_sent c' = gc_sent c @ (if gc_ack_enabled c then [0x2b] else []) \<and>
           gc_error_flag c' = gc_error_flag c \<and>
           (contents (gc_message_buffer c') = m \<longleftrightarrow> (\<forall>ch \<in> set m. \<not> needs_escape ch))"
proof -
  let ?s = "sum_list (escape m)"
  let ?h0 = "EncodeHexNybble (drop_bit 4 ?s AND 0xf)" and ?h1 = "EncodeHexNybble (?s AND 0xf)"
  have f: "contents (gc_in_buffer c) = 0x24 # escape m @ 0x23 # ?h0 # ?h1 # rest"
    using assms(3) by (simp add: frame_def hex2_def)
  obtain mb where mb: "buf_ok mb" "limit mb = None" "contents mb = received m" and
    r: "rx c (contents (gc_in_buffer c)) =
      rx_verdict (c\<lparr>gc_checksum := ?s, gc_message_buffer := mb, gc_state := CHECKSUM_0\<rparr>) ?h0 ?h1 rest"
    using rx_packet [of c m ?h0 ?h1 rest] assms(1,2) f by (auto simp: rx_ok_def)
  obtain b where "buf_ok b" "contents b = rest"
    and "GdbConnection_Process c = (Message, (fst (snd (rx c (contents (gc_in_buffer c)))))\<lparr>gc_in_buffer := b\<rparr>)"
    using Process_rx [of c] assms(1) by (auto simp: rx_ok_def r rx_verdict_def Let_def)
  then show ?thesis
    using mb by (auto simp: r rx_verdict_def Let_def rx_ok_def received_id)
qed

theorem frame_received_witness:
  "\<exists>c'. GdbConnection_Process (GdbConnection_new\<lparr>gc_in_buffer := Buffer_of_vector (frame [0x67])\<rparr>) = (Message, c') \<and>
     contents (gc_message_buffer c') = [0x67] \<and> gc_sent c' = [0x2b]"
  using frame_received [of "GdbConnection_new\<lparr>gc_in_buffer := Buffer_of_vector (frame [0x67])\<rparr>" "[0x67]" "[]"]
  by (auto simp: GdbConnection_new_def rx_ok_def needs_escape_def)

text \<open>A packet whose checksum digits do not match its data is never delivered: in
  acknowledge mode a minus sign asks for it again and the receiver goes on behind it, otherwise
  the connection is marked as failed.\<close>

theorem bad_checksum_rejected:
  assumes "rx_ok c" and "gc_state c = WAITING_PACKET_OPEN"
    and "contents (gc_in_buffer c) = 0x24 # escape m @ 0x23 # h0 # h1 # rest"
    and "DecodeHexByte h0 h1 \<noteq> sum_list (escape m)"
  shows "if gc_ack_enabled c
         then \<exists>c1. rx_ok c1 \<and> gc_state c1 = WAITING_PACKET_OPEN \<and> contents (gc_in_buffer c1) = rest \<and>
                gc_sent c1 = gc_sent c @ [0x2d] \<and>
                fst (GdbConnection_Process c) = fst (GdbConnection_Process c1) \<and>
                gc_message_buffer (snd (GdbConnection_Process c)) = gc_message_buffer (snd (GdbConnection_Process c1)) \<and>
                gc_sent (snd (GdbConnection_Process c)) = gc_sent (snd (GdbConnection_Process c1))
         else fst (GdbConnection_Process c) = NoMessage \<and> gc_error_flag (snd (GdbConnection_Process c))"
proof -
  obtain mb where mb: "buf_ok mb" "limit mb = None" and
    r: "rx c (contents (gc_in_buffer c)) =
      rx_verdict (c\<lparr>gc_checksum := sum_list (escape m), gc_message_buffer := mb,
        gc_state := CHECKSUM_0\<rparr>) h0 h1 rest"
    using rx_packet [of c m h0 h1 rest] assms(1,2,3) by (auto simp: rx_ok_def)
  let ?c0 = "c\<lparr>gc_checksum := sum_list (escape m), gc_message_buffer := mb, gc_checksum_hex0 := h0,
      gc_checksum_hex1 := h1, gc_state := WAITING_PACKET_OPEN, gc_sent := gc_sent c @ [0x2d]\<rparr>"
  let ?c1 = "?c0\<lparr>gc_in_buffer := Buffer_of_vector rest\<rparr>"
  obtain b where P: "GdbConnection_Process c = (fst (rx c (contents (gc_in_buffer c))),
      (fst (snd (rx c (contents (gc_in_buffer c)))))\<lparr>gc_in_buffer := b\<rparr>)"
    using Process_rx [of c] assms(1) by (auto simp: rx_ok_def)
  have "buf_ok (gc_in_buffer ?c1)" and "contents (gc_in_buffer ?c1) = rest" by simp_all
  then obtain b1 where P1: "GdbConnection_Process ?c1 = (fst (rx ?c1 rest), (fst (snd (rx ?c1 rest)))\<lparr>gc_in_buffer := b1\<rparr>)"
    using Process_rx [of ?c1] by metis
  show ?thesis
  proof (cases "gc_ack_enabled c")
    case True
    then have "rx c (contents (gc_in_buffer c)) = rx ?c0 rest"
      using assms(4) by (simp add: r rx_verdict_def Let_def)
    then show ?thesis
      using True P P1 mb by (simp only: rx_frame if_True, intro exI [of _ ?c1]) (simp add: rx_ok_def)
  next
    case False
    then show ?thesis using P assms(4) by (simp add: r rx_verdict_def Let_def SignalError_def)
  qed
qed

theorem bad_checksum_rejected_witness:
  "fst (GdbConnection_Process (GdbConnection_new\<lparr>gc_ack_enabled := False,
     gc_in_buffer := Buffer_of_vector [0x24, 0x67, 0x23, 0x30, 0x30]\<rparr>)) = NoMessage"
  using bad_checksum_rejected [of "GdbConnection_new\<lparr>gc_ack_enabled := False,
     gc_in_buffer := Buffer_of_vector [0x24, 0x67, 0x23, 0x30, 0x30]\<rparr>" "[0x67]" "0x30" "0x30" "[]"]
  by (simp add: GdbConnection_new_def rx_ok_def needs_escape_def DecodeHexByte_def DecodeHexNybble_def)

end
