(* ===== verification/StdMap.thy ===== *)
theory StdMap
  imports Twili_Prelude
begin

text \<open>
  \<open>std::map\<close> where its order is visible: the sequence of its entries in the order of their keys.
  \<open>find\<close> is \<open>map_of\<close>, \<open>begin ()\<close> is the head, iteration is the list.
\<close>

fun map_emplace :: "'k :: linorder \<Rightarrow> 'v \<Rightarrow> ('k \<times> 'v) list \<Rightarrow> ('k \<times> 'v) list" where
  "map_emplace k v [] = [(k, v)]"
| "map_emplace k v ((k', v') # m) =
    (if k < k' then (k, v) # (k', v') # m
     else if k = k' then (k', v') # m
     else (k', v') # map_emplace k v m)"

definition map_erase :: "'k \<Rightarrow> ('k \<times> 'v) list \<Rightarrow> ('k \<times> 'v) list" where
  "map_erase k m = filter (\<lambda>(k', _). k' \<noteq> k) m"

text \<open>An assignment through a reference to the value of \<open>k\<close>.\<close>

definition map_modify :: "'k \<Rightarrow> ('v \<Rightarrow> 'v) \<Rightarrow> ('k \<times> 'v) list \<Rightarrow> ('k \<times> 'v) list" where
  "map_modify k f m = map (\<lambda>(k', v). (k', if k' = k then f v else v)) m"

definition map_ok :: "('k :: linorder \<times> 'v) list \<Rightarrow> bool" where
  "map_ok m \<longleftrightarrow> sorted_wrt (<) (map fst m)"

named_theorems map_simps

lemma map_ok_Nil [simp, map_simps]: "map_ok []"
  by (simp add: map_ok_def)

lemma map_of_emplace [simp, map_simps]:
  "map_ok m \<Longrightarrow> map_of (map_emplace k v m) k' =
     (if k' = k then (case map_of m k of None \<Rightarrow> Some v | Some w \<Rightarrow> Some w) else map_of m k')"
proof (induction m)
  case (Cons e m)
  obtain a w where e: "e = (a, w)" by fastforce
  have "map_of m k = None" if "k < a"
    using Cons.prems e that by (auto simp: map_ok_def map_of_eq_None_iff)
  with Cons e show ?case by (auto simp: map_ok_def)
qed simp

lemma set_map_emplace: "fst ` set (map_emplace k v m) = insert k (fst ` set m)"
  by (induction k v m rule: map_emplace.induct) auto

lemma map_ok_emplace [simp, map_simps]: "map_ok m \<Longrightarrow> map_ok (map_emplace k v m)"
proof (induction m)
  case (Cons e m)
  obtain a w where e: "e = (a, w)" by fastforce
  have "\<forall>x \<in> fst ` set (map_emplace k v m). a < x" if "\<not> k < a" "k \<noteq> a"
    using that Cons.prems e unfolding set_map_emplace by (auto simp: map_ok_def)
  with Cons e show ?case by (auto simp: map_ok_def)
qed (simp add: map_ok_def)

lemma map_of_erase [simp, map_simps]: "map_of (map_erase k m) k' = (if k' = k then None else map_of m k')"
  by (induction m) (auto simp: map_erase_def)

lemma map_ok_erase [simp, map_simps]: "map_ok m \<Longrightarrow> map_ok (map_erase k m)"
  by (induction m) (auto simp: map_ok_def map_erase_def)

lemma map_of_modify [simp, map_simps]:
  "map_of (map_modify k f m) k' = (if k' = k then map_option f (map_of m k) else map_of m k')"
  by (induction m) (auto simp: map_modify_def)

lemma keys_modify [simp, map_simps]: "map fst (map_modify k f m) = map fst m"
  by (induction m) (auto simp: map_modify_def)

lemma map_ok_modify [simp, map_simps]: "map_ok (map_modify k f m) = map_ok m"
  by (simp add: map_ok_def)

lemma map_ok_distinct: "map_ok m \<Longrightarrow> distinct (map fst m)"
  by (simp add: map_ok_def strict_sorted_iff)

lemma map_of_mem: "map_ok m \<Longrightarrow> (k, v) \<in> set m \<longleftrightarrow> map_of m k = Some v"
  using map_of_eq_Some_iff [OF map_ok_distinct] by metis

lemma set_modifyD: "(k', v) \<in> set (map_modify k f m) \<Longrightarrow> \<exists>w. (k', w) \<in> set m \<and> (v = w \<or> k' = k \<and> v = f w)"
  by (auto simp: map_modify_def split: if_splits)

lemma set_eraseD: "e \<in> set (map_erase k m) \<Longrightarrow> e \<in> set m"
  by (simp add: map_erase_def)

lemma set_emplaceD: "(k', w) \<in> set (map_emplace k v m) \<Longrightarrow> (k', w) \<in> set m \<or> k' = k \<and> w = v"
  by (induction k v m rule: map_emplace.induct) (auto split: if_splits)

end
