(* ===== verification/GdbStub.thy ===== *)
theory GdbStub
  imports GdbConnection StdMap
begin

text \<open>
  \<open>GdbStub\<close> (src/twib/tool/GdbStub.cpp, GdbStub.hpp): the packets of the gdb remote protocol.

  A packet is the list of its unread bytes; the loops of GdbConnection.cpp over a buffer are, by the
  lemmas on their contents, \<open>hex_value\<close>, \<open>hex_pairs\<close> and the two functions below. What a handler
  passes to \<open>connection.Respond\<close> is an output. The debugged target is remote: its answers are a
  parameter \<open>Env\<close>, the calls are logged, and the pending debug events of each process are a
  queue of the state. A pointer to a thread is the pair of its process's key and its own. An
  exception no handler catches, and a dereference the language leaves undefined, stop the stub.
\<close>

section \<open>Codecs on packets\<close>

definition read_until :: "byte \<Rightarrow> byte list \<Rightarrow> byte list \<times> byte list" where
  "read_until sep bs = (takeWhile (\<lambda>c. c \<noteq> sep) bs, drop 1 (dropWhile (\<lambda>c. c \<noteq> sep) bs))"

definition decode_sep :: "byte \<Rightarrow> byte list \<Rightarrow> u64 \<times> byte list" where
  "decode_sep sep bs = (let (digits, rest) = read_until sep bs in (hex_value 0 digits, rest))"

definition encode :: "u64 \<Rightarrow> nat \<Rightarrow> byte list" where
  "encode n sz =
    (if sz = 0 then concat (map hex2 (filter (\<lambda>x. x \<noteq> 0) (be_bytes 8 n)))
     else concat (map hex2 (be_bytes sz n)))"

definition encode_bytes :: "byte list \<Rightarrow> byte list" where
  "encode_bytes bs = concat (map hex2 bs)"

lemma codecs_agree:
  assumes "buf_ok b"
  shows "fst (DecodeWithSeparator sep b) = fst (decode_sep sep (contents b)) \<and>
      contents (snd (DecodeWithSeparator sep b)) = snd (decode_sep sep (contents b))"
    and "fst (Decode b) = hex_value 0 (contents b)"
    and "fst (Decode_vector [] b) = hex_pairs (contents b)"
    and "contents (Encode n sz Buffer_new) = encode n sz"
    and "contents (Encode_bytes bs Buffer_new) = encode_bytes bs"
  using DecodeWithSeparator_loop_contents [OF assms, of 0 sep] Decode_loop_contents [OF assms, of 0]
    Decode_vector_contents [OF assms, of "[]"]
  by (simp_all add: DecodeWithSeparator_def Decode_def decode_sep_def read_until_def encode_def
      encode_bytes_def Encode_contents Encode_bytes_contents)

section \<open>State\<close>

datatype ExceptionType = Trap | InstructionAbort | DataAbortMisc | PcSpAlignmentFault
  | DebuggerAttached | BreakPoint | UserBreak | DebuggerBreak | BadSvcId | SError | UnknownException

text \<open>Each event with the \<open>thread_id\<close> of its header.\<close>

datatype EventType = AttachProcess | AttachThread u64 u64 | ExitProcess | ExitThread
  | Exception ExceptionType | UnknownEvent

datatype DebugEvent = DebugEvent (ev_thread_id: u64) (ev_type: EventType)

datatype TargetCall = TOpen u64 | TRead u64 u64 u64 | TWrite u64 u64 "byte list" | TGetContext u64 u64
  | TSetContext u64 u64 "byte list" | TContinue u64 "u64 list" | TBreak u64 | TLaunch u64 | TEntry u64
  | TNsoInfos u64 | TNroInfos u64 | TWaitApplication | TWaitTitle u64 | TAsyncWait u64

text \<open>The answers of the target, as functions of how many calls came before: an error code that
  \<open>ResultError\<close> is thrown with, or the result.\<close>

record Env =
  en_OpenActiveDebugger :: "nat \<Rightarrow> u64 \<Rightarrow> u32 option"
  en_ReadMemory :: "nat \<Rightarrow> u64 \<Rightarrow> u64 \<Rightarrow> u64 \<Rightarrow> u32 + byte list"
  en_WriteMemory :: "nat \<Rightarrow> u64 \<Rightarrow> u64 \<Rightarrow> byte list \<Rightarrow> u32 option"
  en_GetThreadContext :: "nat \<Rightarrow> u64 \<Rightarrow> u64 \<Rightarrow> u32 + byte list"
  en_SetThreadContext :: "nat \<Rightarrow> u64 \<Rightarrow> u64 \<Rightarrow> byte list \<Rightarrow> u32 option"
  en_ContinueDebugEvent :: "nat \<Rightarrow> u64 \<Rightarrow> u64 list \<Rightarrow> u32 option"
  en_BreakProcess :: "nat \<Rightarrow> u64 \<Rightarrow> u32 option"
  en_LaunchDebugProcess :: "nat \<Rightarrow> u64 \<Rightarrow> u32 option"
  en_GetTargetEntry :: "nat \<Rightarrow> u64 \<Rightarrow> u32 + u64"
  en_GetNsoInfos :: "nat \<Rightarrow> u64 \<Rightarrow> u32 + (byte list \<times> u64) list"
  en_GetNroInfos :: "nat \<Rightarrow> u64 \<Rightarrow> u32 + (byte list \<times> u64) list"
  en_WaitToDebugApplication :: "nat \<Rightarrow> u32 + u64"
  en_WaitToDebugTitle :: "nat \<Rightarrow> u64 \<Rightarrow> u32 + u64"

text \<open>A thread is its \<open>tls_addr\<close>, under its id; a process is under its pid.\<close>

record GProcess =
  gp_threads :: "(u64 \<times> u64) list"
  gp_running_thread_ids :: "u64 list"
  gp_has_events :: bool
  gp_running :: bool

datatype StubOut = Reply "byte list" | NoAckMode | ConnectionError

record Stub =
  gs_current_thread :: "(u64 \<times> u64) option"
  gs_attached_processes :: "(u64 \<times> GProcess) list"
  gs_stop_reason :: "byte list"
  gs_waiting_for_stop :: bool
  gs_has_async_wait :: bool
  gs_multiprocess_enabled :: bool
  gs_thread_events_enabled :: bool
  gs_info_valid :: bool
  gs_info_left :: "(u64 \<times> u64) list"
  gs_events :: "u64 \<Rightarrow> (u32 + DebugEvent) list"
  gs_calls :: "TargetCall list"
  gs_out :: "StubOut list"

datatype StubStop = NullDeref | EndDeref | OutOfBounds | UncaughtResultError u32 | UncaughtOutOfRange | Diverges

type_synonym stub_result = "StubStop + Stub"

definition Process_new :: GProcess where
  "Process_new = \<lparr>gp_threads = [], gp_running_thread_ids = [], gp_has_events = False, gp_running = False\<rparr>"

definition Stub_new :: Stub where
  "Stub_new = \<lparr>gs_current_thread = None, gs_attached_processes = [], gs_stop_reason = str ''W00'',
     gs_waiting_for_stop = False, gs_has_async_wait = False, gs_multiprocess_enabled = False,
     gs_thread_events_enabled = False, gs_info_valid = False, gs_info_left = [], gs_events = (\<lambda>_. []),
     gs_calls = [], gs_out = []\<rparr>"

definition out :: "StubOut \<Rightarrow> Stub \<Rightarrow> Stub" where
  "out ev s = s\<lparr>gs_out := gs_out s @ [ev]\<rparr>"

definition respond :: "byte list \<Rightarrow> Stub \<Rightarrow> Stub" where
  "respond payload = out (Reply payload)"

definition respond_empty :: "Stub \<Rightarrow> Stub" where
  "respond_empty = respond []"

definition respond_error :: "u32 \<Rightarrow> Stub \<Rightarrow> Stub" where
  "respond_error no = respond (contents (RespondError_payload no))"

definition respond_ok :: "Stub \<Rightarrow> Stub" where
  "respond_ok = respond (contents RespondOk_payload)"

definition now :: "Stub \<Rightarrow> nat" where
  "now s = length (gs_calls s)"

definition log_call :: "TargetCall \<Rightarrow> Stub \<Rightarrow> Stub" where
  "log_call c s = s\<lparr>gs_calls := gs_calls s @ [c]\<rparr>"

definition modify_process :: "u64 \<Rightarrow> (GProcess \<Rightarrow> GProcess) \<Rightarrow> Stub \<Rightarrow> Stub" where
  "modify_process pid f s = s\<lparr>gs_attached_processes := map_modify pid f (gs_attached_processes s)\<rparr>"

definition find_process :: "Stub \<Rightarrow> u64 \<Rightarrow> GProcess option" where
  "find_process s pid = map_of (gs_attached_processes s) pid"

definition ShiftPid :: "u64 \<Rightarrow> u64" where
  "ShiftPid pid = (if pid = 0 then 512 else pid)"

definition UnshiftPid :: "u64 \<Rightarrow> u64" where
  "UnshiftPid pid = (if pid = 512 then 0 else pid)"

section \<open>Thread ids\<close>

text \<open>The result is the pid, the thread id, both with \<open>- 1\<close> for all, and the rest of the packet.\<close>

definition read_tid :: "byte list \<Rightarrow> u64 \<times> byte list" where
  "read_tid bs =
    (case bs of
       c # rest \<Rightarrow> if c = 0x2d then (- 1, rest) else (hex_value 0 bs, [])
     | [] \<Rightarrow> (hex_value 0 bs, []))"

definition ReadThreadId :: "Stub \<Rightarrow> byte list \<Rightarrow> u64 \<times> u64 \<times> byte list" where
  "ReadThreadId s packet =
    (let pid0 = (case gs_current_thread s of Some (pid, _) \<Rightarrow> pid | None \<Rightarrow> 0);
         (pid, rest) =
           (case packet of
              c # cs \<Rightarrow>
                if c = 0x70 then
                  (case cs of
                     d # ds \<Rightarrow> if d = 0x2d then (- 1, ds) else decode_sep 0x2e cs
                   | [] \<Rightarrow> decode_sep 0x2e cs)
                else (pid0, packet)
            | [] \<Rightarrow> (pid0, packet));
         (tid, rest2) = read_tid rest
     in (pid, tid, rest2))"

section \<open>Debug events\<close>

fun exception_signal :: "ExceptionType \<Rightarrow> u64 \<Rightarrow> u64" where
  "exception_signal Trap sig = 5"
| "exception_signal InstructionAbort sig = 145"
| "exception_signal DataAbortMisc sig = 11"
| "exception_signal PcSpAlignmentFault sig = 145"
| "exception_signal DebuggerAttached sig = 0"
| "exception_signal BreakPoint sig = 5"
| "exception_signal UserBreak sig = 149"
| "exception_signal DebuggerBreak sig = 2"
| "exception_signal BadSvcId sig = 12"
| "exception_signal SError sig = 10"
| "exception_signal UnknownException sig = sig"

text \<open>The local variables of \<open>IngestEvents\<close>.\<close>

record Ingest =
  ig_style :: byte
  ig_signal :: u64
  ig_thread_id :: u64
  ig_stopped :: bool

definition ingest_event :: "u64 \<Rightarrow> DebugEvent \<Rightarrow> Ingest \<Rightarrow> Stub \<Rightarrow> Ingest \<times> Stub" where
  "ingest_event pid ev l s =
    (let s0 = modify_process pid (\<lambda>p. p\<lparr>gp_running := False\<rparr>) s;
         l0 = l\<lparr>ig_thread_id := ev_thread_id ev\<rparr>
     in case ev_type ev of
          AttachProcess \<Rightarrow> (l0, s0)
        | AttachThread tid tls \<Rightarrow>
            (let s1 = modify_process pid
                   (\<lambda>p. p\<lparr>gp_running_thread_ids := gp_running_thread_ids p @ [tid],
                          gp_threads := map_emplace tid tls (gp_threads p)\<rparr>) s0;
                 l1 = l0\<lparr>ig_thread_id := tid\<rparr>
             in (if gs_thread_events_enabled s then l1\<lparr>ig_signal := 5, ig_stopped := True\<rparr> else l1,
                 s1\<lparr>gs_info_valid := False\<rparr>))
        | ExitProcess \<Rightarrow> (l0\<lparr>ig_style := 0x57, ig_signal := 0, ig_stopped := True\<rparr>, s0)
        | ExitThread \<Rightarrow>
            (let tid = ev_thread_id ev;
                 found = (case find_process s0 pid of
                            Some p \<Rightarrow> map_of (gp_threads p) tid \<noteq> None | None \<Rightarrow> False);
                 s1 = (if found
                       then (modify_process pid
                              (\<lambda>p. p\<lparr>gp_threads := map_erase tid (gp_threads p),
                                     gp_running_thread_ids := filter (\<lambda>t. t \<noteq> tid) (gp_running_thread_ids p)\<rparr>) s0)
                            \<lparr>gs_current_thread := (if gs_current_thread s0 = Some (pid, tid) then None
                                                  else gs_current_thread s0),
                             gs_info_valid := False\<rparr>
                       else s0)
             in (if gs_thread_events_enabled s
                 then l0\<lparr>ig_style := 0x77, ig_signal := 0, ig_stopped := True\<rparr> else l0, s1))
        | Exception ty \<Rightarrow>
            (l0\<lparr>ig_stopped := True, ig_signal := exception_signal ty (ig_signal l0)\<rparr>, s0)
        | UnknownEvent \<Rightarrow> (l0, s0))"

fun ingest_loop ::
    "u64 \<Rightarrow> (u32 + DebugEvent) list \<Rightarrow> Ingest \<Rightarrow> Stub \<Rightarrow> StubStop + (u32 + DebugEvent) list \<times> Ingest \<times> Stub" where
  "ingest_loop pid [] l s = Inr ([], l, s)"
| "ingest_loop pid (Inl e # queue) l s = Inl (UncaughtResultError e)"
| "ingest_loop pid (Inr ev # queue) l s =
    (let (l1, s1) = ingest_event pid ev l s in
     if ig_stopped l1 then Inr (queue, l1, s1) else ingest_loop pid queue l1 s1)"

definition stop_reason :: "u64 \<Rightarrow> Ingest \<Rightarrow> byte list" where
  "stop_reason pid l =
    (if ig_style l = 0x54 then
       str ''T'' @ encode (ig_signal l) 1 @
       (if ig_thread_id l \<noteq> 0
        then str ''thread:p'' @ encode pid 0 @ str ''.'' @ encode (ig_thread_id l) 0 @ str '';''
        else [])
     else if ig_style l = 0x57 then str ''W'' @ encode (ig_signal l) 1
     else if ig_style l = 0x77 then
       str ''w'' @ encode (ig_signal l) 1 @ str '';p'' @ encode pid 0 @ str ''.'' @ encode (ig_thread_id l) 0
     else str ''T05'')"

definition is_running :: "Stub \<Rightarrow> u64 \<Rightarrow> bool" where
  "is_running s pid = (case find_process s pid of Some p \<Rightarrow> gp_running p | None \<Rightarrow> False)"

definition running_ids :: "Stub \<Rightarrow> u64 \<Rightarrow> u64 list" where
  "running_ids s pid = (case find_process s pid of Some p \<Rightarrow> gp_running_thread_ids p | None \<Rightarrow> [])"

text \<open>\<open>ContinueDebugEvent\<close> followed by \<open>running = true\<close>.\<close>

definition continue_process :: "Env \<Rightarrow> u64 \<Rightarrow> Stub \<Rightarrow> stub_result" where
  "continue_process env pid s =
    (let ids = running_ids s pid; s1 = log_call (TContinue pid ids) s in
     case en_ContinueDebugEvent env (now s) pid ids of
       Some e \<Rightarrow> Inl (UncaughtResultError e)
     | None \<Rightarrow> Inr (modify_process pid (\<lambda>p. p\<lparr>gp_running := True\<rparr>) s1))"

definition IngestEvents :: "Env \<Rightarrow> u64 \<Rightarrow> Stub \<Rightarrow> StubStop + bool \<times> Stub" where
  "IngestEvents env pid s =
    (let was_running = is_running s pid;
         l0 = \<lparr>ig_style = 0x54, ig_signal = 0, ig_thread_id = 0, ig_stopped = False\<rparr>
     in sum_bind (ingest_loop pid (gs_events s pid) l0 s) (\<lambda>(queue, l, s1).
          let s2 = s1\<lparr>gs_events := (gs_events s1)(pid := queue)\<rparr>;
              s3 = (if ig_stopped l then s2\<lparr>gs_stop_reason := stop_reason pid l\<rparr> else s2);
              s4 = (if \<not> gs_has_async_wait s3
                    then (log_call (TAsyncWait pid) s3)\<lparr>gs_has_async_wait := True\<rparr> else s3)
          in if was_running \<and> \<not> is_running s4 pid \<and> \<not> ig_stopped l
             then sum_bind (continue_process env pid s4) (\<lambda>s5. Inr (ig_stopped l, s5))
             else Inr (ig_stopped l, s4)))"

section \<open>Packets\<close>

definition HandleGetStopReason :: "Stub \<Rightarrow> Stub" where
  "HandleGetStopReason s = respond (gs_stop_reason s) s"

definition Stop :: "Stub \<Rightarrow> Stub" where
  "Stop s = HandleGetStopReason (s\<lparr>gs_waiting_for_stop := False\<rparr>)"

definition HandleIsThreadAlive :: "Stub \<Rightarrow> byte list \<Rightarrow> stub_result" where
  "HandleIsThreadAlive s packet = Inr (respond_ok s)"

definition HandleDetach :: "Stub \<Rightarrow> byte list \<Rightarrow> stub_result" where
  "HandleDetach s packet =
    (case packet of
       c # rest \<Rightarrow>
         if c \<noteq> 0x3b then Inr (respond_error 1 s)
         else
           (let pid = hex_value 0 rest in
            case gs_current_thread s of
              None \<Rightarrow> Inl NullDeref
            | Some (cpid, _) \<Rightarrow>
                Inr (respond_ok (s\<lparr>gs_current_thread := (if cpid = pid then None else gs_current_thread s),
                                   gs_info_valid := False,
                                   gs_attached_processes := map_erase pid (gs_attached_processes s),
                                   gs_stop_reason := str ''W00''\<rparr>)))
     | [] \<Rightarrow>
         Inr (respond_ok (s\<lparr>gs_current_thread := None, gs_info_valid := False,
                            gs_attached_processes := [], gs_stop_reason := str ''W00''\<rparr>)))"

text \<open>A \<open>ThreadContext\<close> is its 800 bytes: the general registers up to \<open>psr\<close> take 268, four bytes
  of padding follow, then the vector registers with \<open>fpcr\<close> and \<open>fpsr\<close>, 520 bytes, and
  \<open>tpidr\<close>.\<close>

definition registers_of_context :: "byte list \<Rightarrow> byte list" where
  "registers_of_context tc = take 268 tc @ take 520 (drop 272 tc)"

definition context_of_registers :: "byte list \<Rightarrow> byte list" where
  "context_of_registers regs = take 268 regs @ replicate 4 0 @ take 520 (drop 268 regs) @ replicate 8 0"

definition HandleReadGeneralRegisters :: "Env \<Rightarrow> Stub \<Rightarrow> stub_result" where
  "HandleReadGeneralRegisters env s =
    (case gs_current_thread s of
       None \<Rightarrow> Inr (respond_error 1 s)
     | Some (pid, tid) \<Rightarrow>
         (let s1 = log_call (TGetContext pid tid) s in
          case en_GetThreadContext env (now s) pid tid of
            Inl e \<Rightarrow> Inr (respond_error e s1)
          | Inr tc \<Rightarrow> Inr (respond (encode_bytes (registers_of_context tc)) s1)))"

text \<open>The two checks answer an error and go on: the copy reads past a short vector, and the thread
  pointer is used without a thread.\<close>

definition HandleWriteGeneralRegisters :: "Env \<Rightarrow> Stub \<Rightarrow> byte list \<Rightarrow> stub_result" where
  "HandleWriteGeneralRegisters env s packet =
    (let registers = hex_pairs packet in
     if length registers < 788 then Inl OutOfBounds
     else (case gs_current_thread s of
             None \<Rightarrow> Inl NullDeref
           | Some (pid, tid) \<Rightarrow>
               (let tc = context_of_registers registers; s1 = log_call (TSetContext pid tid tc) s in
                case en_SetThreadContext env (now s) pid tid tc of
                  Some e \<Rightarrow> Inr (respond_error e s1)
                | None \<Rightarrow> Inr (respond_ok s1))))"

definition HandleSetCurrentThread :: "Stub \<Rightarrow> byte list \<Rightarrow> stub_result" where
  "HandleSetCurrentThread s packet =
    (if length packet < 2 then Inr (respond_error 1 s)
     else
       (let (pid, tid, _) = ReadThreadId s (tl packet);
            proc = (if pid = 0
                    then (case gs_attached_processes s of e # _ \<Rightarrow> Some e | [] \<Rightarrow> None)
                    else map_option (Pair pid) (find_process s pid))
        in case proc of
             None \<Rightarrow> Inr (respond_error 1 s)
           | Some (key, p) \<Rightarrow>
               if tid = 0 then
                 (case gp_threads p of
                    (t, _) # _ \<Rightarrow> Inr (respond_ok (s\<lparr>gs_current_thread := Some (key, t)\<rparr>))
                  | [] \<Rightarrow> Inl EndDeref)
               else if map_of (gp_threads p) tid = None then Inr (respond_error 1 s)
               else Inr (respond_ok (s\<lparr>gs_current_thread := Some (key, tid)\<rparr>))))"

definition HandleReadMemory :: "Env \<Rightarrow> Stub \<Rightarrow> byte list \<Rightarrow> stub_result" where
  "HandleReadMemory env s packet =
    (let (address, rest) = decode_sep 0x2c packet; sz = hex_value 0 rest in
     case gs_current_thread s of
       None \<Rightarrow> Inr (respond_error 1 s)
     | Some (pid, _) \<Rightarrow>
         (let s1 = log_call (TRead pid address sz) s in
          case en_ReadMemory env (now s) pid address sz of
            Inl e \<Rightarrow> Inr (respond_error e s1)
          | Inr mem \<Rightarrow> Inr (respond (encode_bytes mem) s1)))"

definition HandleWriteMemory :: "Env \<Rightarrow> Stub \<Rightarrow> byte list \<Rightarrow> stub_result" where
  "HandleWriteMemory env s packet =
    (let (address, rest) = decode_sep 0x2c packet; (sz, rest2) = decode_sep 0x3a rest in
     case gs_current_thread s of
       None \<Rightarrow> Inr (respond_error 1 s)
     | Some (pid, _) \<Rightarrow>
         (let bytes = hex_pairs rest2 in
          if length bytes \<noteq> unat sz then Inr (respond_error 1 s)
          else
            (let s1 = log_call (TWrite pid address bytes) s in
             case en_WriteMemory env (now s) pid address bytes of
               Some e \<Rightarrow> Inr (respond_error e s1)
             | None \<Rightarrow> Inr (respond_ok s1))))"

definition HandleVAttach :: "Env \<Rightarrow> Stub \<Rightarrow> byte list \<Rightarrow> stub_result" where
  "HandleVAttach env s packet =
    (let pid = hex_value 0 packet in
     if find_process s pid \<noteq> None then Inr (respond_error 1 s)
     else if \<not> gs_multiprocess_enabled s \<and> length (gs_attached_processes s) > 0 then Inr (respond_error 1 s)
     else
       (let s1 = log_call (TOpen (UnshiftPid pid)) s in
        case en_OpenActiveDebugger env (now s) (UnshiftPid pid) of
          Some e \<Rightarrow> Inl (UncaughtResultError e)
        | None \<Rightarrow>
            (let s2 = s1\<lparr>gs_attached_processes := map_emplace pid Process_new (gs_attached_processes s1)\<rparr>
             in sum_bind (IngestEvents env pid s2) (\<lambda>(_, s3).
                  if (case find_process s3 pid of Some p \<Rightarrow> gp_threads p = [] | None \<Rightarrow> True)
                  then sum_bind (IngestEvents env pid (log_call (TLaunch pid) s3))
                         (\<lambda>(_, s4). Inr (HandleGetStopReason s4))
                  else Inr (HandleGetStopReason s3)))))"

text \<open>\<open>response.Write (std::string ("vCont;c;C"))\<close>: the temporary does not bind to
  \<open>std::string &\<close>, so the template writes the bytes of the string object itself, \<open>string_object\<close>.\<close>

definition HandleVContQuery :: "byte list \<Rightarrow> Stub \<Rightarrow> byte list \<Rightarrow> stub_result" where
  "HandleVContQuery string_object s packet = Inr (respond string_object s)"

type_synonym actions = "(u64 \<times> (u64 \<times> unit) list) list"

text \<open>\<open>thread_actions.insert\<close> of the given threads under one process.\<close>

definition add_actions :: "u64 \<Rightarrow> u64 list \<Rightarrow> actions \<Rightarrow> actions" where
  "add_actions pid tids acts =
    map_modify pid (\<lambda>m. fold (\<lambda>t. map_emplace t ()) tids m) (map_emplace pid [] acts)"

definition finish_action :: "Stub \<Rightarrow> byte list \<Rightarrow> byte list \<Rightarrow> actions \<Rightarrow> actions option" where
  "finish_action s action thread_id acts =
    (case action of
       [] \<Rightarrow> None
     | c # _ \<Rightarrow>
         if c \<noteq> 0x43 \<and> c \<noteq> 0x63 then Some acts
         else
           (let (pid, tid) = (if thread_id = [] then (- 1, - 1)
                              else (let (p, t, _) = ReadThreadId s thread_id in (p, t)))
            in if pid = - 1 then
                 Some (fold (\<lambda>(k, p). add_actions k (map fst (gp_threads p))) (gs_attached_processes s) acts)
               else
                 (case find_process s pid of
                    None \<Rightarrow> Some acts
                  | Some p \<Rightarrow>
                      if tid = - 1 then Some (add_actions pid (map fst (gp_threads p)) acts)
                      else if map_of (gp_threads p) tid \<noteq> None then Some (add_actions pid [tid] acts)
                      else Some (add_actions pid [] acts))))"

fun vCont_loop :: "Stub \<Rightarrow> byte list \<Rightarrow> byte list \<Rightarrow> byte list \<Rightarrow> bool \<Rightarrow> actions \<Rightarrow> actions option" where
  "vCont_loop s [] action thread_id reading_action acts = finish_action s action thread_id acts"
| "vCont_loop s (c # cs) action thread_id reading_action acts =
    (if c = 0x3b then
       (case finish_action s action thread_id acts of
          None \<Rightarrow> None
        | Some acts1 \<Rightarrow> vCont_loop s cs [] [] True acts1)
     else if c = 0x3a then vCont_loop s cs action thread_id False acts
     else if reading_action then vCont_loop s cs (action @ [c]) thread_id reading_action acts
     else vCont_loop s cs action (thread_id @ [c]) reading_action acts)"

fun vCont_run :: "Env \<Rightarrow> actions \<Rightarrow> Stub \<Rightarrow> stub_result" where
  "vCont_run env [] s = Inr (s\<lparr>gs_waiting_for_stop := True\<rparr>)"
| "vCont_run env ((pid, acts) # rest) s =
    (if find_process s pid = None then vCont_run env rest s
     else
       sum_bind (IngestEvents env pid s) (\<lambda>(stopped, s1).
         if stopped then Inr (Stop s1)
         else
           sum_bind (continue_process env pid
               (modify_process pid
                 (\<lambda>p. p\<lparr>gp_running_thread_ids := filter (\<lambda>t. map_of (gp_threads p) t \<noteq> None) (map fst acts)\<rparr>) s1))
             (vCont_run env rest)))"

definition HandleVCont :: "Env \<Rightarrow> Stub \<Rightarrow> byte list \<Rightarrow> stub_result" where
  "HandleVCont env s packet =
    (case vCont_loop s packet [] [] True [] of
       None \<Rightarrow> Inr (respond_error 1 s)
     | Some acts \<Rightarrow> vCont_run env acts s)"

definition HandleMultiletterPacket :: "Env \<Rightarrow> byte list \<Rightarrow> Stub \<Rightarrow> byte list \<Rightarrow> stub_result" where
  "HandleMultiletterPacket env string_object s packet =
    (let (title, rest) = read_until 0x3b packet in
     if title = str ''Attach'' then HandleVAttach env s rest
     else if title = str ''Cont?'' then HandleVContQuery string_object s rest
     else if title = str ''Cont'' then HandleVCont env s rest
     else Inr (respond_empty s))"

section \<open>Queries\<close>

text \<open>The features the constructor collects: the settable queries and the readable object.\<close>

definition features :: "byte list list" where
  "features = [str ''QStartNoAckMode+'', str ''QThreadEvents+'', str ''qXfer:libraries:read+'']"

fun split_features :: "byte list \<Rightarrow> byte list \<Rightarrow> byte list list" where
  "split_features cur [] = [cur]"
| "split_features cur (c # cs) =
    (if c = 0x3b then cur # (if cs = [] then [] else split_features [] cs)
     else split_features (cur @ [c]) cs)"

fun join_features :: "byte list list \<Rightarrow> byte list" where
  "join_features [] = []"
| "join_features [f] = f"
| "join_features (f # fs) = f @ [0x3b] @ join_features fs"

definition QueryGetSupported :: "Stub \<Rightarrow> byte list \<Rightarrow> stub_result" where
  "QueryGetSupported s packet =
    (let advertised = (if packet = [] then [] else split_features [] packet);
         s1 = (if str ''multiprocess+'' \<in> set advertised then s\<lparr>gs_multiprocess_enabled := True\<rparr> else s)
     in Inr (respond (join_features features) s1))"

definition thread_name :: "Stub \<Rightarrow> u64 \<Rightarrow> u64 \<Rightarrow> byte list" where
  "thread_name s pid tid =
    (if gs_multiprocess_enabled s then str ''p'' @ encode pid 0 @ str ''.'' else []) @ encode tid 0"

definition QueryGetCurrentThread :: "Stub \<Rightarrow> byte list \<Rightarrow> stub_result" where
  "QueryGetCurrentThread s packet =
    (let (pid, tid) = (case gs_current_thread s of Some x \<Rightarrow> x | None \<Rightarrow> (0, 0))
     in Inr (respond (thread_name s pid tid) s))"

fun list_threads :: "Stub \<Rightarrow> bool \<Rightarrow> (u64 \<times> u64) list \<Rightarrow> byte list" where
  "list_threads s has_written [] = []"
| "list_threads s has_written ((pid, tid) # ts) =
    (if has_written then [0x2c] else [0x6d]) @ thread_name s pid tid @ list_threads s True ts"

text \<open>The two iterators are the list of the threads they have not passed yet. Past the last process the
  loop also reads through \<open>end ()\<close>; the iterator it stores then is never used, and the model
  leaves that read out.\<close>

definition QueryGetSThreadInfo :: "Stub \<Rightarrow> byte list \<Rightarrow> stub_result" where
  "QueryGetSThreadInfo s packet =
    (if \<not> gs_info_valid s then Inr (respond_error 1 s)
     else if gs_info_left s = [] then Inr (respond [0x6c] (s\<lparr>gs_info_valid := False\<rparr>))
     else Inr (respond (list_threads s False (gs_info_left s)) (s\<lparr>gs_info_left := []\<rparr>)))"

definition all_threads :: "Stub \<Rightarrow> (u64 \<times> u64) list" where
  "all_threads s = concat (map (\<lambda>(pid, p). map (\<lambda>(tid, _). (pid, tid)) (gp_threads p)) (gs_attached_processes s))"

definition QueryGetFThreadInfo :: "Stub \<Rightarrow> byte list \<Rightarrow> stub_result" where
  "QueryGetFThreadInfo s packet =
    QueryGetSThreadInfo (s\<lparr>gs_info_left := all_threads s, gs_info_valid := True\<rparr>) packet"

definition QueryGetOffsets :: "Env \<Rightarrow> Stub \<Rightarrow> byte list \<Rightarrow> stub_result" where
  "QueryGetOffsets env s packet =
    (case gs_current_thread s of
       None \<Rightarrow> Inr (respond_error 1 s)
     | Some (pid, _) \<Rightarrow>
         (let s1 = log_call (TEntry pid) s in
          case en_GetTargetEntry env (now s) pid of
            Inl e \<Rightarrow> Inl (UncaughtResultError e)
          | Inr addr \<Rightarrow> Inr (respond (str ''TextSeg='' @ encode addr 8) s1)))"

definition QuerySetStartNoAckMode :: "Stub \<Rightarrow> byte list \<Rightarrow> stub_result" where
  "QuerySetStartNoAckMode s packet = Inr (respond_ok (out NoAckMode s))"

definition QuerySetThreadEvents :: "Stub \<Rightarrow> byte list \<Rightarrow> stub_result" where
  "QuerySetThreadEvents s packet =
    (case packet of
       [] \<Rightarrow> Inr (respond_error 1 s)
     | c # _ \<Rightarrow>
         if c = 0x30 then Inr (respond_ok (s\<lparr>gs_thread_events_enabled := False\<rparr>))
         else if c = 0x31 then Inr (respond_ok (s\<lparr>gs_thread_events_enabled := True\<rparr>))
         else Inr (respond_error 1 s))"

text \<open>The name of a thread: chunks of 64 bytes are read until one has a zero after its first byte
  (the index restarts at one). The name sent is the text at the start of the last chunk. The number of
  chunks is bounded by \<open>fuel\<close>; the code has no bound.\<close>

fun name_loop ::
    "nat \<Rightarrow> Env \<Rightarrow> u64 \<Rightarrow> u64 \<Rightarrow> nat \<Rightarrow> byte list \<Rightarrow> byte list \<Rightarrow> Stub \<Rightarrow> StubStop + byte list \<times> Stub" where
  "name_loop 0 env pid addr i acc name s = Inl Diverges"
| "name_loop (Suc fuel) env pid addr i acc name s =
    (if 0 \<in> set (drop i name) \<or> length name \<le> i
     then (if 0 \<in> set name then Inr (takeWhile (\<lambda>c. c \<noteq> 0) name, s) else Inl OutOfBounds)
     else
       (let acc1 = acc @ drop i name;
            addr1 = addr + of_nat (length name);
            s1 = log_call (TRead pid addr1 0x40) s
        in case en_ReadMemory env (now s) pid addr1 0x40 of
             Inl e \<Rightarrow> Inr (acc1, s1)
           | Inr name1 \<Rightarrow> name_loop fuel env pid addr1 1 acc1 name1 s1))"

text \<open>A read of memory inside the \<open>try\<close>: \<open>None\<close> is the caught error.\<close>

definition try_read :: "Env \<Rightarrow> u64 \<Rightarrow> u64 \<Rightarrow> u64 \<Rightarrow> Stub \<Rightarrow> byte list option \<times> Stub" where
  "try_read env pid addr sz s =
    (case en_ReadMemory env (now s) pid addr sz of Inl _ \<Rightarrow> None | Inr mem \<Rightarrow> Some mem,
     log_call (TRead pid addr sz) s)"

definition read_name :: "nat \<Rightarrow> Env \<Rightarrow> u64 \<Rightarrow> u64 \<Rightarrow> Stub \<Rightarrow> StubStop + byte list \<times> Stub" where
  "read_name fuel env pid tls s =
    (case try_read env pid (tls + 0x1f8) 8 s of
       (None, s1) \<Rightarrow> Inr ([], s1)
     | (Some ctx, s1) \<Rightarrow>
         (case try_read env pid (word64 (take 8 ctx) + 0x1a8) 8 s1 of
            (None, s2) \<Rightarrow> Inr ([], s2)
          | (Some ptr, s2) \<Rightarrow>
              (let name_addr = word64 (take 8 ptr) in
               if name_addr = 0 then Inr ([], s2)
               else (case try_read env pid name_addr 0x40 s2 of
                       (None, s3) \<Rightarrow> Inr ([], s3)
                     | (Some name, s3) \<Rightarrow> name_loop fuel env pid name_addr 0 [] name s3))))"

definition QueryGetThreadExtraInfo :: "nat \<Rightarrow> Env \<Rightarrow> Stub \<Rightarrow> byte list \<Rightarrow> stub_result" where
  "QueryGetThreadExtraInfo fuel env s packet =
    (let (pid, tid, _) = ReadThreadId s packet in
     case find_process s pid of
       None \<Rightarrow> Inr (respond_error 1 s)
     | Some p \<Rightarrow>
         (case map_of (gp_threads p) tid of
            None \<Rightarrow> Inr (respond_error 1 s)
          | Some tls \<Rightarrow>
              sum_bind (read_name fuel env pid tls s) (\<lambda>(info, s1).
                Inr (respond (encode_bytes (if info = [] then str ''?'' else info)) s1))))"

text \<open>\<open>std::hex <<\<close>, and \<open>std::stoull (str, 0, 16)\<close> on what a packet can hold: blanks, a sign, a
  prefix, digits. \<open>Inl True\<close> is \<open>std::invalid_argument\<close>, \<open>Inl False\<close> is
  \<open>std::out_of_range\<close>, which no handler catches.\<close>

definition hex_digit :: "nat \<Rightarrow> byte" where
  "hex_digit d = (if d < 10 then of_nat (0x30 + d) else of_nat (0x57 + d))"

fun hex_digits :: "nat \<Rightarrow> nat \<Rightarrow> byte list" where
  "hex_digits 0 n = []"
| "hex_digits (Suc k) n = (if n < 16 then [hex_digit n] else hex_digits k (n div 16) @ [hex_digit (n mod 16)])"

definition print_hex :: "u64 \<Rightarrow> byte list" where
  "print_hex w = hex_digits 16 (unat w)"

definition is_hex :: "byte \<Rightarrow> bool" where
  "is_hex c \<longleftrightarrow> 0x30 \<le> c \<and> c \<le> 0x39 \<or> 0x41 \<le> c \<and> c \<le> 0x46 \<or> 0x61 \<le> c \<and> c \<le> 0x66"

definition digit_value :: "byte \<Rightarrow> nat" where
  "digit_value c = (if c \<le> 0x39 then unat c - 0x30 else if c \<le> 0x46 then unat c - 0x37 else unat c - 0x57)"

definition stoull16 :: "byte list \<Rightarrow> bool + u64" where
  "stoull16 bs =
    (let cs = dropWhile (\<lambda>c. c = 0x20 \<or> 0x09 \<le> c \<and> c \<le> 0x0d) bs;
         neg = (case cs of c # _ \<Rightarrow> c = 0x2d | [] \<Rightarrow> False);
         ds = (case cs of c # r \<Rightarrow> if c = 0x2d \<or> c = 0x2b then r else cs | [] \<Rightarrow> cs);
         es = (case ds of a # b # c # r \<Rightarrow>
                 if a = 0x30 \<and> (b = 0x78 \<or> b = 0x58) \<and> is_hex c then c # r else ds | _ \<Rightarrow> ds);
         digits = takeWhile is_hex es;
         v = foldl (\<lambda>n c. 16 * n + digit_value c) 0 digits
     in if digits = [] then Inl True
        else if v \<ge> 2 ^ 64 then Inl False
        else Inr (if neg then - of_nat v else of_nat v))"

definition line :: "byte list \<Rightarrow> byte list" where
  "line text = text @ [0x0a]"

text \<open>\<open>Inr\<close> is the text; the outer error is an exception that is not caught.\<close>

definition pid_reply :: "u32 + u64 \<Rightarrow> byte list" where
  "pid_reply r =
    (case r of
       Inl e \<Rightarrow> line (str ''Target error: 0x'' @ print_hex (ucast e))
     | Inr pid \<Rightarrow> line (str ''PID: 0x'' @ print_hex pid))"

definition syntax_error :: "byte list" where
  "syntax_error = line (str ''Syntax error: expected end of input'')"

definition remote_wait :: "Env \<Rightarrow> Stub \<Rightarrow> byte list \<Rightarrow> StubStop + byte list \<times> Stub" where
  "remote_wait env s message =
    (let (wait_for, rest) = read_until 0x20 message in
     if wait_for = str ''application'' then
       (if rest \<noteq> [] then Inr (syntax_error, s)
        else Inr (pid_reply (en_WaitToDebugApplication env (now s)), log_call TWaitApplication s))
     else
       (let (tid_str, rest2) = read_until 0x20 rest in
        if rest2 \<noteq> [] then Inr (syntax_error, s)
        else (case stoull16 tid_str of
                Inl True \<Rightarrow> Inr (line (str ''Invalid argument.''), s)
              | Inl False \<Rightarrow> Inl UncaughtOutOfRange
              | Inr tid \<Rightarrow> Inr (pid_reply (en_WaitToDebugTitle env (now s) tid), log_call (TWaitTitle tid) s))))"

definition remote_get :: "Env \<Rightarrow> Stub \<Rightarrow> byte list \<Rightarrow> byte list \<times> Stub" where
  "remote_get env s message =
    (let (get_what, rest) = read_until 0x20 message in
     if get_what = str ''base'' then
       (if rest \<noteq> [] then (syntax_error, s)
        else (case gs_current_thread s of
                None \<Rightarrow> (line (str ''no thread selected''), s)
              | Some (pid, _) \<Rightarrow>
                  (case en_GetTargetEntry env (now s) pid of
                     Inl e \<Rightarrow> line (str ''Target error: 0x'' @ print_hex (ucast e))
                   | Inr addr \<Rightarrow> line (str ''aslr base (best guess): 0x'' @ print_hex addr),
                   log_call (TEntry pid) s)))
     else (line (str ''Unknown value '' @ [0x27] @ get_what @ [0x27]), s))"

definition help_text :: "byte list" where
  "help_text = line (str ''Available commands:'') @ line (str ''  - get base'') @
     line (str ''  - wait application'') @ line (str ''  - wait title <title id>'')"

definition QueryGetRemoteCommand :: "Env \<Rightarrow> Stub \<Rightarrow> byte list \<Rightarrow> stub_result" where
  "QueryGetRemoteCommand env s packet =
    (let (command, rest) = read_until 0x20 (hex_pairs packet) in
     sum_bind
       (if command = str ''help'' then Inr (help_text, s)
        else if command = str ''wait'' then remote_wait env s rest
        else if command = str ''get'' then Inr (remote_get env s rest)
        else Inr (line (str ''Unknown command '' @ [0x27] @ command @ [0x27]), s))
       (\<lambda>(text, s1). Inr (respond (encode_bytes text) s1)))"

section \<open>Transfer objects\<close>

definition library_entry :: "string \<Rightarrow> byte list \<times> u64 \<Rightarrow> byte list" where
  "library_entry type_name = (\<lambda>(build_id, base_addr).
    (let quoted = [0x22] @ encode_bytes build_id @ [0x22] in
     line (str ''  <library name='' @ quoted @ str '' build_id='' @ quoted @
           str '' type='' @ [0x22] @ str type_name @ [0x22] @ str ''>'') @
     line (str ''    <segment address='' @ [0x22] @ str ''0x'' @ print_hex base_addr @ [0x22] @ str '' />'') @
     line (str ''  </library>'')))"

text \<open>The main module is skipped: the only one, or the second of several.\<close>

definition skip_main :: "'a list \<Rightarrow> 'a list" where
  "skip_main nsos = (if length nsos = 1 then [] else take 1 nsos @ drop 2 nsos)"

definition BuildLibraryList :: "Env \<Rightarrow> u64 \<Rightarrow> Stub \<Rightarrow> byte list \<times> Stub" where
  "BuildLibraryList env pid s =
    (let s1 = log_call (TNsoInfos pid) s;
         nsos = (case en_GetNsoInfos env (now s) pid of Inl _ \<Rightarrow> [] | Inr ms \<Rightarrow> skip_main ms);
         nros = (case en_GetNroInfos env (now s1) pid of Inl _ \<Rightarrow> [] | Inr ms \<Rightarrow> ms)
     in (line (str ''<library-list>'') @ concat (map (library_entry ''nso'') nsos) @
         concat (map (library_entry ''nro'') nros) @ line (str ''</library-list>''),
         log_call (TNroInfos pid) s1))"

definition XferReadLibraries :: "Env \<Rightarrow> Stub \<Rightarrow> byte list \<times> Stub" where
  "XferReadLibraries env s =
    (case gs_current_thread s of
       None \<Rightarrow> (str ''<library-list></library-list>'', s)
     | Some (pid, _) \<Rightarrow> BuildLibraryList env pid s)"

text \<open>The part of the string that \<open>Read\<close> writes; sizes are 64-bit and wrap.\<close>

definition xfer_slice :: "byte list \<Rightarrow> u64 \<Rightarrow> u64 \<Rightarrow> byte list option" where
  "xfer_slice text offset len =
    (let sz = of_nat (length text) :: u64;
         n = unat (min (sz - offset) len)
     in if unat offset + n \<le> length text
        then Some ((if offset + len \<ge> sz then [0x6c] else [0x6d]) @ take n (drop (unat offset) text))
        else None)"

definition XferObject_Read :: "Env \<Rightarrow> Stub \<Rightarrow> byte list \<Rightarrow> u64 \<Rightarrow> u64 \<Rightarrow> stub_result" where
  "XferObject_Read env s annex offset len =
    (if annex \<noteq> [] then Inr (respond_error 0 s)
     else (let (text, s1) = XferReadLibraries env s in
           case xfer_slice text offset len of
             None \<Rightarrow> Inl OutOfBounds
           | Some payload \<Rightarrow> Inr (respond payload s1)))"

definition XferObject_Write :: "Stub \<Rightarrow> byte list \<Rightarrow> u64 \<Rightarrow> byte list \<Rightarrow> stub_result" where
  "XferObject_Write s annex offset data = Inr (respond_error 30 s)"

definition QueryXfer :: "Env \<Rightarrow> Stub \<Rightarrow> byte list \<Rightarrow> stub_result" where
  "QueryXfer env s packet =
    (let (object_name, rest) = read_until 0x3a packet in
     if object_name \<noteq> str ''libraries'' then Inr (respond_empty s)
     else
       (let (op, rest2) = read_until 0x3a rest in
        if op = str ''read'' then
          (let (annex, rest3) = read_until 0x3a rest2;
               (offset, rest4) = decode_sep 0x2c rest3
           in XferObject_Read env s annex offset (hex_value 0 rest4))
        else if op = str ''write'' then
          (let (annex, rest3) = read_until 0x3a rest2;
               (offset, rest4) = decode_sep 0x3a rest3
           in XferObject_Write s annex offset rest4)
        else Inr (respond_empty s)))"

section \<open>Dispatch\<close>

datatype Query = QSupported | QC | QFThreadInfo | QSThreadInfo | QThreadExtraInfo | QOffsets | QRcmd | QXfer
  | QStartNoAckMode | QThreadEvents

definition gettable_queries :: "(byte list \<times> Query \<times> byte) list" where
  "gettable_queries =
    [(str ''Supported'', QSupported, 0x3a), (str ''C'', QC, 0x3a), (str ''fThreadInfo'', QFThreadInfo, 0x3a),
     (str ''sThreadInfo'', QSThreadInfo, 0x3a), (str ''ThreadExtraInfo'', QThreadExtraInfo, 0x2c),
     (str ''Offsets'', QOffsets, 0x3a), (str ''Rcmd'', QRcmd, 0x2c), (str ''Xfer'', QXfer, 0x3a)]"

definition settable_queries :: "(byte list \<times> Query \<times> byte) list" where
  "settable_queries =
    [(str ''StartNoAckMode'', QStartNoAckMode, 0x3a), (str ''ThreadEvents'', QThreadEvents, 0x3a)]"

fun match_query :: "(byte list \<times> Query \<times> byte) list \<Rightarrow> byte list \<Rightarrow> byte list \<Rightarrow> byte list \<times> byte list" where
  "match_query queries field [] = (field, [])"
| "match_query queries field (c # cs) =
    (case map_of queries field of
       Some (_, sep) \<Rightarrow> if c = sep then (field, cs) else match_query queries (field @ [c]) cs
     | None \<Rightarrow> match_query queries (field @ [c]) cs)"

fun visit :: "nat \<Rightarrow> Env \<Rightarrow> Query \<Rightarrow> Stub \<Rightarrow> byte list \<Rightarrow> stub_result" where
  "visit fuel env QSupported s packet = QueryGetSupported s packet"
| "visit fuel env QC s packet = QueryGetCurrentThread s packet"
| "visit fuel env QFThreadInfo s packet = QueryGetFThreadInfo s packet"
| "visit fuel env QSThreadInfo s packet = QueryGetSThreadInfo s packet"
| "visit fuel env QThreadExtraInfo s packet = QueryGetThreadExtraInfo fuel env s packet"
| "visit fuel env QOffsets s packet = QueryGetOffsets env s packet"
| "visit fuel env QRcmd s packet = QueryGetRemoteCommand env s packet"
| "visit fuel env QXfer s packet = QueryXfer env s packet"
| "visit fuel env QStartNoAckMode s packet = QuerySetStartNoAckMode s packet"
| "visit fuel env QThreadEvents s packet = QuerySetThreadEvents s packet"

definition HandleGeneralQuery ::
    "nat \<Rightarrow> Env \<Rightarrow> (byte list \<times> Query \<times> byte) list \<Rightarrow> Stub \<Rightarrow> byte list \<Rightarrow> stub_result" where
  "HandleGeneralQuery fuel env queries s packet =
    (let (field, rest) = match_query queries [] packet in
     case map_of queries field of
       Some (q, _) \<Rightarrow> visit fuel env q s rest
     | None \<Rightarrow> Inr (respond_empty s))"

definition HandleGeneralGetQuery :: "nat \<Rightarrow> Env \<Rightarrow> Stub \<Rightarrow> byte list \<Rightarrow> stub_result" where
  "HandleGeneralGetQuery fuel env = HandleGeneralQuery fuel env gettable_queries"

definition HandleGeneralSetQuery :: "nat \<Rightarrow> Env \<Rightarrow> Stub \<Rightarrow> byte list \<Rightarrow> stub_result" where
  "HandleGeneralSetQuery fuel env = HandleGeneralQuery fuel env settable_queries"

text \<open>The \<open>switch\<close> of \<open>Prepare\<close> on a packet.\<close>

definition dispatch :: "nat \<Rightarrow> Env \<Rightarrow> byte list \<Rightarrow> Stub \<Rightarrow> byte list \<Rightarrow> stub_result" where
  "dispatch fuel env string_object s packet =
    (case packet of
       [] \<Rightarrow> Inr (out ConnectionError s)
     | ident # rest \<Rightarrow>
         if ident = 0x21 then Inr (respond_ok s)
         else if ident = 0x3f then Inr (HandleGetStopReason s)
         else if ident = 0x44 then HandleDetach s rest
         else if ident = 0x67 then HandleReadGeneralRegisters env s
         else if ident = 0x47 then HandleWriteGeneralRegisters env s rest
         else if ident = 0x48 then HandleSetCurrentThread s rest
         else if ident = 0x6d then HandleReadMemory env s rest
         else if ident = 0x4d then HandleWriteMemory env s rest
         else if ident = 0x71 then HandleGeneralGetQuery fuel env s rest
         else if ident = 0x51 then HandleGeneralSetQuery fuel env s rest
         else if ident = 0x54 then HandleIsThreadAlive s rest
         else if ident = 0x76 then HandleMultiletterPacket env string_object s rest
         else Inr (respond_empty s))"

text \<open>The part of \<open>Prepare\<close> after the packets: breaks for an interrupt, and the stop of a process
  that has events.\<close>

fun poll_processes :: "Env \<Rightarrow> bool \<Rightarrow> u64 list \<Rightarrow> Stub \<Rightarrow> stub_result" where
  "poll_processes env interrupted [] s = Inr s"
| "poll_processes env interrupted (pid # pids) s =
    sum_bind
      (if interrupted \<and> is_running s pid
       then (case en_BreakProcess env (now s) pid of
               Some e \<Rightarrow> Inl (UncaughtResultError e)
             | None \<Rightarrow> Inr (log_call (TBreak pid) s))
       else Inr s)
      (\<lambda>s1. sum_bind
        (if gs_waiting_for_stop s1 \<and> (case find_process s1 pid of Some p \<Rightarrow> gp_has_events p | None \<Rightarrow> False)
         then sum_bind (IngestEvents env pid s1) (\<lambda>(stopped, s2). Inr (if stopped then Stop s2 else s2))
         else Inr s1)
        (poll_processes env interrupted pids))"

definition poll :: "Env \<Rightarrow> bool \<Rightarrow> Stub \<Rightarrow> stub_result" where
  "poll env interrupted s =
    (if interrupted \<or> gs_waiting_for_stop s
     then poll_processes env interrupted (map fst (gs_attached_processes s)) s
     else Inr s)"

text \<open>\<open>Prepare\<close>, given the packets and the interrupt that \<open>connection.Process\<close> delivers. An empty packet
  ends it at once.\<close>

fun Prepare :: "nat \<Rightarrow> Env \<Rightarrow> byte list \<Rightarrow> byte list list \<Rightarrow> bool \<Rightarrow> Stub \<Rightarrow> stub_result" where
  "Prepare fuel env string_object [] interrupted s = poll env interrupted s"
| "Prepare fuel env string_object (packet # packets) interrupted s =
    (if packet = [] then Inr (out ConnectionError s)
     else sum_bind (dispatch fuel env string_object s packet)
            (Prepare fuel env string_object packets interrupted))"

text \<open>The callback of \<open>AsyncWait\<close>. The flag it sets is shared with the process, which may be gone.\<close>

definition AsyncWait_done :: "u64 \<Rightarrow> u32 \<Rightarrow> Stub \<Rightarrow> Stub" where
  "AsyncWait_done pid r s =
    (let s1 = s\<lparr>gs_has_async_wait := False\<rparr> in
     if r = 0 then modify_process pid (\<lambda>p. p\<lparr>gp_has_events := True\<rparr>) s1 else s1)"

end
