(* ===== verification/GdbStubInv.thy ===== *)
theory GdbStubInv
  imports GdbStub
begin

text \<open>
  The state invariant of the gdb stub: its maps are ordered, the selected thread is a live thread of an
  attached process (the raw pointer \<open>current_thread\<close> never dangles), and the threads a process is
  to be continued with are threads it has. Every packet, every poll and every completion keeps it.
\<close>

section \<open>Invariant\<close>

definition proc_ok :: "GProcess \<Rightarrow> bool" where
  "proc_ok p \<longleftrightarrow> map_ok (gp_threads p) \<and> set (gp_running_thread_ids p) \<subseteq> dom (map_of (gp_threads p))"

definition has_thread :: "Stub \<Rightarrow> u64 \<Rightarrow> u64 \<Rightarrow> bool" where
  "has_thread s pid tid \<longleftrightarrow>
    (case find_process s pid of None \<Rightarrow> False | Some p \<Rightarrow> map_of (gp_threads p) tid \<noteq> None)"

definition current_ok :: "Stub \<Rightarrow> bool" where
  "current_ok s \<longleftrightarrow> (case gs_current_thread s of None \<Rightarrow> True | Some (pid, tid) \<Rightarrow> has_thread s pid tid)"

definition procs_ok :: "Stub \<Rightarrow> bool" where
  "procs_ok s \<longleftrightarrow> map_ok (gs_attached_processes s) \<and> (\<forall>pid p. find_process s pid = Some p \<longrightarrow> proc_ok p)"

definition stub_ok :: "Stub \<Rightarrow> bool" where
  "stub_ok s \<longleftrightarrow> procs_ok s \<and> current_ok s \<and> gs_info_left s = []"

lemma find_process_modify [simp]:
  "find_process (modify_process pid f s) k =
    (if k = pid then map_option f (find_process s pid) else find_process s k)"
  by (simp add: find_process_def modify_process_def)

text \<open>The fields the invariant does not read.\<close>

definition same_procs :: "Stub \<Rightarrow> Stub \<Rightarrow> bool" where
  "same_procs s t \<longleftrightarrow> gs_attached_processes t = gs_attached_processes s \<and>
     gs_current_thread t = gs_current_thread s \<and> gs_info_left t = gs_info_left s"

lemma same_procs_ok: "same_procs s t \<Longrightarrow> stub_ok t = stub_ok s"
  by (auto simp: same_procs_def stub_ok_def procs_ok_def current_ok_def has_thread_def find_process_def
      split: option.splits)

lemma stub_ok_neutral [simp]:
  "stub_ok (out e s) = stub_ok s"
  "stub_ok (respond r s) = stub_ok s"
  "stub_ok (respond_empty s) = stub_ok s"
  "stub_ok (respond_error n s) = stub_ok s"
  "stub_ok (respond_ok s) = stub_ok s"
  "stub_ok (log_call c s) = stub_ok s"
  "stub_ok (HandleGetStopReason s) = stub_ok s"
  "stub_ok (Stop s) = stub_ok s"
  "stub_ok (s\<lparr>gs_stop_reason := x\<rparr>) = stub_ok s"
  "stub_ok (s\<lparr>gs_waiting_for_stop := w\<rparr>) = stub_ok s"
  "stub_ok (s\<lparr>gs_has_async_wait := w\<rparr>) = stub_ok s"
  "stub_ok (s\<lparr>gs_multiprocess_enabled := w\<rparr>) = stub_ok s"
  "stub_ok (s\<lparr>gs_thread_events_enabled := w\<rparr>) = stub_ok s"
  "stub_ok (s\<lparr>gs_info_valid := w\<rparr>) = stub_ok s"
  "stub_ok (s\<lparr>gs_events := q\<rparr>) = stub_ok s"
  by (rule same_procs_ok; simp add: same_procs_def out_def respond_def respond_empty_def respond_error_def
      respond_ok_def log_call_def HandleGetStopReason_def Stop_def)+

lemma stub_ok_modify:
  assumes "stub_ok s" and "\<And>p. proc_ok p \<Longrightarrow> proc_ok (f p)"
    and "\<And>p. proc_ok p \<Longrightarrow> dom (map_of (gp_threads p)) \<subseteq> dom (map_of (gp_threads (f p)))"
  shows "stub_ok (modify_process pid f s)"
proof -
  have keep: "has_thread (modify_process pid f s) k t" if h: "has_thread s k t" for k t
  proof -
    obtain p where p: "find_process s k = Some p" "map_of (gp_threads p) t \<noteq> None"
      using h by (auto simp: has_thread_def split: option.splits)
    then have "proc_ok p" using assms(1) by (auto simp: stub_ok_def procs_ok_def)
    then have "map_of (gp_threads (f p)) t \<noteq> None" using assms(3) p by blast
    with p show ?thesis by (auto simp: has_thread_def split: option.splits)
  qed
  have "procs_ok (modify_process pid f s)"
    using assms(1,2) by (auto simp: stub_ok_def procs_ok_def) (simp add: modify_process_def)
  moreover have "current_ok (modify_process pid f s)"
    using assms(1) keep
    by (auto simp: stub_ok_def current_ok_def split: option.splits) (simp_all add: modify_process_def)
  ultimately show ?thesis using assms(1) by (simp add: stub_ok_def modify_process_def)
qed

lemma Stub_new_ok: "stub_ok Stub_new"
  by (simp add: Stub_new_def stub_ok_def procs_ok_def current_ok_def find_process_def)

section \<open>Debug events\<close>

lemma attach_thread_ok:
  "proc_ok p \<Longrightarrow> proc_ok (p\<lparr>gp_running_thread_ids := gp_running_thread_ids p @ [tid],
                          gp_threads := map_emplace tid tls (gp_threads p)\<rparr>)"
  by (auto simp: proc_ok_def subset_iff dom_def split: option.splits)

lemma exit_thread_ok:
  "proc_ok p \<Longrightarrow> proc_ok (p\<lparr>gp_threads := map_erase tid (gp_threads p),
       gp_running_thread_ids := filter (\<lambda>t. t \<noteq> tid) (gp_running_thread_ids p)\<rparr>)"
  by (auto simp: proc_ok_def)

definition remove_thread :: "u64 \<Rightarrow> u64 \<Rightarrow> Stub \<Rightarrow> Stub" where
  "remove_thread pid tid s =
    (modify_process pid (\<lambda>p. p\<lparr>gp_threads := map_erase tid (gp_threads p),
       gp_running_thread_ids := filter (\<lambda>t. t \<noteq> tid) (gp_running_thread_ids p)\<rparr>) s)
     \<lparr>gs_current_thread := (if gs_current_thread s = Some (pid, tid) then None else gs_current_thread s),
      gs_info_valid := False\<rparr>"

lemma remove_thread_ok: "stub_ok s \<Longrightarrow> stub_ok (remove_thread pid tid s)"
proof -
  assume ok: "stub_ok s"
  have find: "find_process (remove_thread pid tid s) k =
      (if k = pid then map_option (\<lambda>p. p\<lparr>gp_threads := map_erase tid (gp_threads p),
         gp_running_thread_ids := filter (\<lambda>t. t \<noteq> tid) (gp_running_thread_ids p)\<rparr>) (find_process s k)
       else find_process s k)" for k
    using find_process_modify by (simp add: remove_thread_def find_process_def)
  have "has_thread (remove_thread pid tid s) k t" if "has_thread s k t" "(k, t) \<noteq> (pid, tid)" for k t
    using that by (auto simp: has_thread_def find split: option.splits)
  then have "current_ok (remove_thread pid tid s)"
    using ok by (auto simp: stub_ok_def current_ok_def remove_thread_def split: option.splits if_splits)
  moreover have "procs_ok (remove_thread pid tid s)"
    using ok exit_thread_ok unfolding procs_ok_def find
    by (auto simp: stub_ok_def procs_ok_def split: if_splits) (simp add: remove_thread_def modify_process_def)
  ultimately show ?thesis using ok by (simp add: stub_ok_def remove_thread_def modify_process_def)
qed

lemma ingest_event_exit:
  "snd (ingest_event pid (DebugEvent tid ExitThread) l s) =
    (let s0 = modify_process pid (\<lambda>p. p\<lparr>gp_running := False\<rparr>) s in
     if has_thread s0 pid tid then remove_thread pid tid s0 else s0)"
  by (simp add: ingest_event_def remove_thread_def has_thread_def Let_def)

lemma ingest_event_ok: "stub_ok s \<Longrightarrow> stub_ok (snd (ingest_event pid ev l s))"
proof -
  assume ok: "stub_ok s"
  define s0 where "s0 = modify_process pid (\<lambda>p. p\<lparr>gp_running := False\<rparr>) s"
  have ok0: "stub_ok s0" unfolding s0_def
    by (rule stub_ok_modify [OF ok]) (simp_all add: proc_ok_def)
  obtain t ty where ev: "ev = DebugEvent t ty" by (cases ev)
  show ?thesis
  proof (cases ty)
    case (AttachThread tid tls)
    have "stub_ok (modify_process pid (\<lambda>p. p\<lparr>gp_running_thread_ids := gp_running_thread_ids p @ [tid],
                          gp_threads := map_emplace tid tls (gp_threads p)\<rparr>) s0)"
      by (rule stub_ok_modify [OF ok0])
        (auto simp: attach_thread_ok proc_ok_def split: option.splits)
    then show ?thesis using ev AttachThread by (simp add: ingest_event_def Let_def s0_def)
  next
    case ExitThread
    then show ?thesis
      using ok0 remove_thread_ok by (simp add: ev ingest_event_exit Let_def s0_def)
  qed (use ok0 in \<open>simp_all add: ev ingest_event_def Let_def s0_def\<close>)
qed

lemma ingest_loop_ok: "stub_ok s \<Longrightarrow> ingest_loop pid queue l s = Inr (q, l1, s1) \<Longrightarrow> stub_ok s1"
proof (induction pid queue l s rule: ingest_loop.induct)
  case (3 pid ev queue l s)
  obtain l2 s2 where e: "ingest_event pid ev l s = (l2, s2)" by fastforce
  with 3(2) have "stub_ok s2" using ingest_event_ok [of s pid ev l] by simp
  with 3(1) [OF e [symmetric]] 3(3) e show ?case by (auto split: if_splits)
qed simp_all

lemma set_running_ok: "stub_ok s \<Longrightarrow> stub_ok (modify_process pid (\<lambda>p. p\<lparr>gp_running := b\<rparr>) s)"
  by (rule stub_ok_modify) (simp_all add: proc_ok_def)

lemma continue_process_ok: "stub_ok s \<Longrightarrow> continue_process env pid s = Inr t \<Longrightarrow> stub_ok t"
  by (auto simp: continue_process_def Let_def set_running_ok split: option.splits)

lemma IngestEvents_ok:
  assumes ok: "stub_ok s" and run: "IngestEvents env pid s = Inr (b, t)"
  shows "stub_ok t"
proof -
  obtain q l s1 where loop: "ingest_loop pid (gs_events s pid)
      \<lparr>ig_style = 0x54, ig_signal = 0, ig_thread_id = 0, ig_stopped = False\<rparr> s = Inr (q, l, s1)"
    using run by (auto simp: IngestEvents_def Let_def sum_bind_eq_Inr)
  define s2 where "s2 = s1\<lparr>gs_events := (gs_events s1)(pid := q)\<rparr>"
  define s3 where "s3 = (if ig_stopped l then s2\<lparr>gs_stop_reason := stop_reason pid l\<rparr> else s2)"
  define s4 where "s4 = (if \<not> gs_has_async_wait s3
                    then (log_call (TAsyncWait pid) s3)\<lparr>gs_has_async_wait := True\<rparr> else s3)"
  have "stub_ok s1" by (rule ingest_loop_ok [OF ok loop])
  then have s4: "stub_ok s4" by (simp add: s4_def s3_def s2_def)
  have "(if is_running s pid \<and> \<not> is_running s4 pid \<and> \<not> ig_stopped l
         then sum_bind (continue_process env pid s4) (\<lambda>s5. Inr (ig_stopped l, s5))
         else Inr (ig_stopped l, s4)) = Inr (b, t)"
    using run unfolding IngestEvents_def Let_def loop sum_bind.simps split s4_def s3_def s2_def .
  then show ?thesis
    using s4 continue_process_ok [OF s4] by (auto simp: sum_bind_eq_Inr split: if_splits)
qed

section \<open>Packets\<close>

text \<open>A handler keeps the invariant when every state it returns has it.\<close>

definition keeps_ok :: "stub_result \<Rightarrow> bool" where
  "keeps_ok r \<longleftrightarrow> (case r of Inl _ \<Rightarrow> True | Inr t \<Rightarrow> stub_ok t)"

lemma keeps_ok_simps [simp]: "keeps_ok (Inl e)" "keeps_ok (Inr t) = stub_ok t"
  by (simp_all add: keeps_ok_def)

lemma keeps_ok_bind: "keeps_ok r \<Longrightarrow> (\<And>t. stub_ok t \<Longrightarrow> keeps_ok (f t)) \<Longrightarrow> keeps_ok (sum_bind r f)"
  by (cases r) simp_all

lemma keeps_ok_ingest:
  "stub_ok s \<Longrightarrow> (\<And>b t. stub_ok t \<Longrightarrow> keeps_ok (f (b, t))) \<Longrightarrow> keeps_ok (sum_bind (IngestEvents env pid s) f)"
  using IngestEvents_ok by (cases "IngestEvents env pid s") force+

named_theorems stub_keeps

lemma HandleDetach_ok [stub_keeps]: "stub_ok s \<Longrightarrow> keeps_ok (HandleDetach s packet)"
proof -
  assume ok: "stub_ok s"
  have all: "stub_ok (s\<lparr>gs_current_thread := None, gs_info_valid := False,
      gs_attached_processes := []\<rparr>)"
    using ok by (simp add: stub_ok_def procs_ok_def current_ok_def find_process_def)
  have one: "stub_ok (s\<lparr>gs_current_thread := None, gs_info_valid := False,
       gs_attached_processes := map_erase pid (gs_attached_processes s)\<rparr>)" for pid
    using ok by (auto simp: stub_ok_def procs_ok_def current_ok_def find_process_def)
  have other: "stub_ok (s\<lparr>gs_info_valid := False,
       gs_attached_processes := map_erase pid (gs_attached_processes s)\<rparr>)"
    if "gs_current_thread s = Some (cpid, tid)" "cpid \<noteq> pid" for cpid tid pid
    using ok that by (auto simp: stub_ok_def procs_ok_def current_ok_def find_process_def has_thread_def)
  show ?thesis
    by (auto simp: HandleDetach_def Let_def all one other ok split: list.splits option.splits)
qed

lemma select_thread_ok: "stub_ok s \<Longrightarrow> has_thread s pid tid \<Longrightarrow> stub_ok (s\<lparr>gs_current_thread := Some (pid, tid)\<rparr>)"
  by (simp add: stub_ok_def procs_ok_def current_ok_def find_process_def has_thread_def)

lemma HandleSetCurrentThread_ok [stub_keeps]: "stub_ok s \<Longrightarrow> keeps_ok (HandleSetCurrentThread s packet)"
proof -
  assume ok: "stub_ok s"
  have sel: "keeps_ok
     (if tid = 0 then
        (case gp_threads p of
           (t, _) # _ \<Rightarrow> Inr (respond_ok (s\<lparr>gs_current_thread := Some (key, t)\<rparr>))
         | [] \<Rightarrow> Inl EndDeref)
      else if map_of (gp_threads p) tid = None then Inr (respond_error 1 s)
      else Inr (respond_ok (s\<lparr>gs_current_thread := Some (key, tid)\<rparr>)))"
    if "find_process s key = Some p" for key p tid
    using select_thread_ok [OF ok] that ok by (auto simp: has_thread_def split: list.splits)
  obtain pid tid rest where rd: "ReadThreadId s (tl packet) = (pid, tid, rest)"
    by (metis prod_cases3)
  show ?thesis
  proof (cases "pid = 0")
    case True
    show ?thesis
    proof (cases "gs_attached_processes s")
      case Nil
      with True ok show ?thesis by (simp add: HandleSetCurrentThread_def rd)
    next
      case (Cons e es)
      obtain key p where e: "e = (key, p)" by fastforce
      have "find_process s key = Some p" by (simp add: find_process_def Cons e)
      from sel [OF this, of tid] ok True show ?thesis
        by (simp add: HandleSetCurrentThread_def rd Cons e del: if_split_asm)
    qed
  next
    case False
    then show ?thesis
      using sel [of pid _ tid] ok
      by (simp add: HandleSetCurrentThread_def rd split: option.split)
  qed
qed

lemma keeps_ok_reply [stub_keeps]:
  assumes "stub_ok s"
  shows "keeps_ok (HandleIsThreadAlive s packet)" "keeps_ok (HandleReadGeneralRegisters env s)"
    "keeps_ok (HandleWriteGeneralRegisters env s packet)" "keeps_ok (HandleReadMemory env s packet)"
    "keeps_ok (HandleWriteMemory env s packet)" "keeps_ok (HandleVContQuery so s packet)"
  using assms
  by (auto simp: HandleIsThreadAlive_def HandleReadGeneralRegisters_def HandleWriteGeneralRegisters_def
      HandleReadMemory_def HandleWriteMemory_def HandleVContQuery_def Let_def
      split: option.splits prod.splits sum.splits)

lemma attach_process_ok:
  assumes "stub_ok s" "find_process s pid = None"
  shows "stub_ok (s\<lparr>gs_attached_processes := map_emplace pid Process_new (gs_attached_processes s)\<rparr>)"
proof -
  have "proc_ok Process_new" by (simp add: proc_ok_def Process_new_def)
  with assms show ?thesis
    by (auto simp: stub_ok_def procs_ok_def current_ok_def find_process_def has_thread_def
        split: option.splits)
qed

lemma HandleVAttach_ok [stub_keeps]: "stub_ok s \<Longrightarrow> keeps_ok (HandleVAttach env s packet)"
proof -
  assume ok: "stub_ok s"
  have "keeps_ok (sum_bind (IngestEvents env pid s2) (\<lambda>(_, s3).
                  if (case find_process s3 pid of Some p \<Rightarrow> gp_threads p = [] | None \<Rightarrow> True)
                  then sum_bind (IngestEvents env pid (log_call (TLaunch pid) s3))
                         (\<lambda>(_, s4). Inr (HandleGetStopReason s4))
                  else Inr (HandleGetStopReason s3)))" if "stub_ok s2" for s2 pid
    by (auto intro!: keeps_ok_ingest that)
  moreover have "stub_ok ((log_call c s)\<lparr>gs_attached_processes :=
      map_emplace pid Process_new (gs_attached_processes (log_call c s))\<rparr>)"
    if "find_process s pid = None" for c pid
    by (rule attach_process_ok) (use ok that in simp, simp add: find_process_def log_call_def that [unfolded find_process_def])
  ultimately show ?thesis
    by (simp add: HandleVAttach_def Let_def ok split: option.split)
qed

lemma restrict_running_ok:
  "stub_ok s \<Longrightarrow> stub_ok (modify_process pid
     (\<lambda>p. p\<lparr>gp_running_thread_ids := filter (\<lambda>t. map_of (gp_threads p) t \<noteq> None) ids\<rparr>) s)"
  by (rule stub_ok_modify) (auto simp: proc_ok_def)

lemma keeps_ok_continue: "stub_ok s \<Longrightarrow> keeps_ok (continue_process env pid s)"
  using continue_process_ok by (cases "continue_process env pid s") auto

lemma vCont_run_ok: "stub_ok s \<Longrightarrow> keeps_ok (vCont_run env acts s)"
proof (induction env acts s rule: vCont_run.induct)
  case (2 env pid acts rest s)
  show ?case
  proof (cases "find_process s pid = None")
    case False
    have "keeps_ok (sum_bind (continue_process env pid (modify_process pid
       (\<lambda>p. p\<lparr>gp_running_thread_ids := filter (\<lambda>t. map_of (gp_threads p) t \<noteq> None) (map fst acts)\<rparr>) t))
             (vCont_run env rest))" if "stub_ok t" for t
      by (rule keeps_ok_bind [OF keeps_ok_continue [OF restrict_running_ok [OF that]]])
        (rule "2.IH"(2) [OF False], auto intro: that)
    with False "2.prems" show ?thesis by (auto intro!: keeps_ok_ingest)
  qed (use 2 in simp)
qed simp

lemma HandleVCont_ok [stub_keeps]: "stub_ok s \<Longrightarrow> keeps_ok (HandleVCont env s packet)"
  by (simp add: HandleVCont_def vCont_run_ok split: option.split)

lemma HandleMultiletterPacket_ok [stub_keeps]:
  "stub_ok s \<Longrightarrow> keeps_ok (HandleMultiletterPacket env so s packet)"
  by (simp add: HandleMultiletterPacket_def stub_keeps split: prod.split)

section \<open>Queries\<close>

lemma name_loop_ok:
  "stub_ok s \<Longrightarrow> name_loop fuel env pid addr i acc name s = Inr (info, t) \<Longrightarrow> stub_ok t"
  by (induction fuel env pid addr i acc name s rule: name_loop.induct)
    (auto simp: Let_def split: if_splits sum.splits)

lemma read_name_ok: "stub_ok s \<Longrightarrow> read_name fuel env pid tls s = Inr (info, t) \<Longrightarrow> stub_ok t"
  by (auto simp: read_name_def try_read_def Let_def split: option.splits sum.splits if_splits
      dest: name_loop_ok [rotated])

lemma QueryGetThreadExtraInfo_ok [stub_keeps]:
  "stub_ok s \<Longrightarrow> keeps_ok (QueryGetThreadExtraInfo fuel env s packet)"
proof -
  assume ok: "stub_ok s"
  have "keeps_ok (sum_bind (read_name fuel env pid tls s) (\<lambda>(info, s1). Inr (respond (f info) s1)))"
    for pid tls f using read_name_ok [OF ok] by (cases "read_name fuel env pid tls s") auto
  then show ?thesis
    by (simp add: QueryGetThreadExtraInfo_def ok split: prod.split option.split)
qed

lemma QueryGetRemoteCommand_ok [stub_keeps]:
  "stub_ok s \<Longrightarrow> keeps_ok (QueryGetRemoteCommand env s packet)"
proof -
  assume ok: "stub_ok s"
  have rw: "stub_ok t" if "remote_wait env s rest = Inr (msg, t)" for rest t msg
    using that ok by (auto simp: remote_wait_def Let_def split: prod.splits if_splits sum.splits bool.splits)
  have w: "keeps_ok (sum_bind (remote_wait env s rest) (\<lambda>(text, s1). Inr (respond (f text) s1)))" for rest f
    using rw by (cases "remote_wait env s rest") auto
  have g: "stub_ok (snd (remote_get env s rest))" for rest
    using ok by (auto simp: remote_get_def Let_def split: prod.splits option.splits)
  show ?thesis
    using ok w g by (auto simp: QueryGetRemoteCommand_def Let_def split: prod.splits) (metis snd_conv)
qed

lemma XferReadLibraries_ok: "stub_ok s \<Longrightarrow> stub_ok (snd (XferReadLibraries env s))"
  by (simp add: XferReadLibraries_def BuildLibraryList_def Let_def split: option.split prod.split)

lemma QueryXfer_ok [stub_keeps]: "stub_ok s \<Longrightarrow> keeps_ok (QueryXfer env s packet)"
proof -
  assume ok: "stub_ok s"
  have "keeps_ok (XferObject_Read env s annex offset len)" for annex offset len
    using ok XferReadLibraries_ok [OF ok, of env]
    by (auto simp: XferObject_Read_def split: prod.splits option.splits)
  then show ?thesis
    using ok by (simp add: QueryXfer_def XferObject_Write_def split: prod.split)
qed

lemma QueryGetSThreadInfo_keeps:
  assumes ok: "stub_ok (s\<lparr>gs_info_left := []\<rparr>)" and v: "gs_info_valid s \<or> gs_info_left s = []"
  shows "keeps_ok (QueryGetSThreadInfo s packet)"
proof (cases "gs_info_left s = []")
  case True
  then have "same_procs s (s\<lparr>gs_info_left := []\<rparr>)" by (simp add: same_procs_def)
  then have "stub_ok s" using same_procs_ok ok by blast
  with True show ?thesis by (simp add: QueryGetSThreadInfo_def)
next
  case False
  with ok v show ?thesis by (simp add: QueryGetSThreadInfo_def)
qed

lemma QueryGetThreadInfo_ok [stub_keeps]:
  assumes ok: "stub_ok s"
  shows "keeps_ok (QueryGetSThreadInfo s packet)" and "keeps_ok (QueryGetFThreadInfo s packet)"
proof -
  have left: "gs_info_left s = []" using ok by (simp add: stub_ok_def)
  have s: "s\<lparr>gs_info_left := []\<rparr> = s" by (subst left [symmetric]) simp
  show "keeps_ok (QueryGetSThreadInfo s packet)"
    by (rule QueryGetSThreadInfo_keeps) (unfold s, use ok left in simp_all)
  have "stub_ok ((s\<lparr>gs_info_left := all_threads s, gs_info_valid := True\<rparr>)\<lparr>gs_info_left := []\<rparr>)"
    by (rule iffD2 [OF same_procs_ok ok]) (simp add: same_procs_def left)
  then show "keeps_ok (QueryGetFThreadInfo s packet)"
    unfolding QueryGetFThreadInfo_def by (rule QueryGetSThreadInfo_keeps) simp
qed

lemma visit_ok: "stub_ok s \<Longrightarrow> keeps_ok (visit fuel env q s packet)"
  by (cases q)
    (auto simp: stub_keeps QueryGetSupported_def QueryGetCurrentThread_def QueryGetOffsets_def
      QuerySetStartNoAckMode_def QuerySetThreadEvents_def Let_def
      split: option.split sum.split list.split prod.split)

lemma HandleGeneralQuery_ok [stub_keeps]: "stub_ok s \<Longrightarrow> keeps_ok (HandleGeneralQuery fuel env queries s packet)"
  by (simp add: HandleGeneralQuery_def visit_ok split: prod.split option.split)

section \<open>The event loop\<close>

lemma dispatch_ok: "stub_ok s \<Longrightarrow> keeps_ok (dispatch fuel env so s packet)"
  by (simp add: dispatch_def stub_keeps HandleGeneralGetQuery_def HandleGeneralSetQuery_def split: list.split)

lemma poll_processes_ok: "stub_ok s \<Longrightarrow> keeps_ok (poll_processes env interrupted pids s)"
proof (induction pids arbitrary: s)
  case (Cons pid pids)
  have brk: "keeps_ok (if interrupted \<and> is_running s pid
       then (case en_BreakProcess env (now s) pid of
               Some e \<Rightarrow> Inl (UncaughtResultError e) | None \<Rightarrow> Inr (log_call (TBreak pid) s))
       else Inr s)"
    using Cons.prems by (simp split: option.split)
  have ing: "keeps_ok (if P then sum_bind (IngestEvents env pid t) (\<lambda>(stopped, u). Inr (if stopped then Stop u else u))
         else Inr t)" if "stub_ok t" for P t
    using that by (auto intro: keeps_ok_ingest)
  show ?case
    unfolding poll_processes.simps
    by (rule keeps_ok_bind [OF brk], rule keeps_ok_bind [OF ing Cons.IH])
qed simp

lemma Prepare_ok: "stub_ok s \<Longrightarrow> keeps_ok (Prepare fuel env so packets interrupted s)"
proof (induction packets arbitrary: s)
  case Nil
  then show ?case by (simp add: poll_def poll_processes_ok)
next
  case (Cons packet packets)
  then show ?case by (auto intro: keeps_ok_bind dispatch_ok)
qed

lemma AsyncWait_done_ok: "stub_ok s \<Longrightarrow> stub_ok (AsyncWait_done pid r s)"
  by (auto simp: AsyncWait_done_def Let_def proc_ok_def intro!: stub_ok_modify)

text \<open>The states the stub can be in, whatever gdb sends, whatever the target answers and whichever events
  it raises.\<close>

inductive stub_reachable :: "Stub \<Rightarrow> bool" where
  start: "stub_reachable Stub_new"
| prepare: "stub_reachable s \<Longrightarrow> Prepare fuel env so packets interrupted s = Inr t \<Longrightarrow> stub_reachable t"
| signalled: "stub_reachable s \<Longrightarrow> stub_reachable (AsyncWait_done pid r s)"
| event: "stub_reachable s \<Longrightarrow>
    stub_reachable (s\<lparr>gs_events := (gs_events s)(pid := gs_events s pid @ [e])\<rparr>)"

lemma stub_reachable_ok: "stub_reachable s \<Longrightarrow> stub_ok s"
proof (induction rule: stub_reachable.induct)
  case (prepare s fuel env so packets interrupted t)
  then show ?case using Prepare_ok [of s fuel env so packets interrupted] by simp
qed (simp_all add: Stub_new_ok AsyncWait_done_ok)

end
