(* ===== verification/GdbStubProps.thy ===== *)
theory GdbStubProps
  imports GdbStubInv
begin

text \<open>
  What the packets of the gdb stub do: memory and register transfers, the chunks of a transfer object,
  the threads that \<open>vCont\<close> continues, the stop that a debug event reports, and the packets that
  dereference a null thread pointer.
\<close>

section \<open>Hexadecimal fields of packets\<close>

lemma EncodeHexNybble_is_hex: "n < 0x10 \<Longrightarrow> is_hex (EncodeHexNybble n)"
  using nybble_cases [of n] by (auto simp: EncodeHexNybble_def is_hex_def)

lemma hex2_is_hex: "c \<in> set (hex2 n) \<Longrightarrow> is_hex c"
  by (auto simp: hex2_def nybble_less intro: EncodeHexNybble_is_hex)

lemma encode_is_hex: "c \<in> set (encode n sz) \<Longrightarrow> is_hex c"
  by (auto simp: encode_def dest: hex2_is_hex split: if_splits)

lemma hex_value_encode [simp]: "hex_value 0 (encode n 8) = n"
  by (simp add: encode_def hex_value_concat foldl_be_bytes take_bit_word_eq_self)

lemma read_until_app: "\<forall>c \<in> set pre. c \<noteq> sep \<Longrightarrow> read_until sep (pre @ sep # rest) = (pre, rest)"
  by (simp add: read_until_def takeWhile_append2 dropWhile_append2)

lemma decode_sep_encode: "\<not> is_hex sep \<Longrightarrow> decode_sep sep (encode n 8 @ sep # rest) = (n, rest)"
  by (subst decode_sep_def, subst read_until_app) (auto dest: encode_is_hex)

lemma separators_not_hex [simp]: "\<not> is_hex 0x2c" "\<not> is_hex 0x3a" "\<not> is_hex 0x2e" "\<not> is_hex 0x3b"
  by (simp_all add: is_hex_def)

lemma hex_pairs_encode_bytes [simp]: "hex_pairs (encode_bytes bs) = bs"
  by (simp add: encode_bytes_def hex_pairs_concat)

section \<open>Null thread pointers\<close>

definition no_null :: "stub_result \<Rightarrow> bool" where
  "no_null r \<longleftrightarrow> r \<noteq> Inl NullDeref"

lemma no_null_simps [simp]: "no_null (Inr t)" "no_null (Inl e) \<longleftrightarrow> e \<noteq> NullDeref"
  by (simp_all add: no_null_def)

lemma no_null_bind: "r \<noteq> Inl NullDeref \<Longrightarrow> (\<And>x. no_null (f x)) \<Longrightarrow> no_null (sum_bind r f)"
  by (cases r) simp_all

lemma ingest_loop_no_null: "ingest_loop pid queue l s \<noteq> Inl NullDeref"
  by (induction pid queue l s rule: ingest_loop.induct) (simp_all split: prod.split)

lemma continue_process_no_null: "continue_process env pid s \<noteq> Inl NullDeref"
  by (simp add: continue_process_def Let_def split: option.split)

lemma bind_no_null: "r \<noteq> Inl e \<Longrightarrow> (\<And>x. f x \<noteq> Inl e) \<Longrightarrow> sum_bind r f \<noteq> Inl e"
  by (cases r) simp_all

lemma IngestEvents_no_null: "IngestEvents env pid s \<noteq> Inl NullDeref"
proof -
  have "sum_bind (continue_process env pid t) (\<lambda>u. Inr (b, u)) \<noteq> Inl NullDeref" for t and b :: bool
    by (rule bind_no_null [OF continue_process_no_null]) simp
  then show ?thesis
    unfolding IngestEvents_def Let_def
    by (intro bind_no_null [OF ingest_loop_no_null]) (simp split: prod.split)
qed

named_theorems null_free

lemma vCont_run_no_null: "no_null (vCont_run env acts s)"
proof (induction env acts s rule: vCont_run.induct)
  case (2 env pid acts rest s)
  have "no_null (case x of (stopped, s1) \<Rightarrow> if stopped then Inr (Stop s1)
         else sum_bind (continue_process env pid (modify_process pid
                 (\<lambda>p. p\<lparr>gp_running_thread_ids := filter (\<lambda>t. map_of (gp_threads p) t \<noteq> None) (map fst acts)\<rparr>) s1))
             (vCont_run env rest))" if "find_process s pid \<noteq> None" for x
    using 2(2) [OF that]
    by (cases x) (auto intro!: no_null_bind continue_process_no_null)
  with 2(1) show ?case by (auto intro!: no_null_bind IngestEvents_no_null)
qed simp

lemma HandleMultiletter_no_null [null_free]: "no_null (HandleMultiletterPacket env so s packet)"
proof -
  have "no_null (HandleVAttach env s rest)" for rest
    by (auto simp: HandleVAttach_def Let_def split: option.split prod.split
        intro!: no_null_bind IngestEvents_no_null)
  moreover have "no_null (HandleVCont env s rest)" for rest
    by (simp add: HandleVCont_def vCont_run_no_null split: option.split)
  ultimately show ?thesis
    by (simp add: HandleMultiletterPacket_def HandleVContQuery_def split: prod.split)
qed

lemma name_loop_no_null: "name_loop fuel env pid addr i acc name s \<noteq> Inl NullDeref"
  by (induction fuel env pid addr i acc name s rule: name_loop.induct)
    (auto simp: Let_def split: sum.splits)

lemma visit_no_null: "no_null (visit fuel env q s packet)"
proof -
  have "read_name fuel env pid tls s \<noteq> Inl NullDeref" for pid tls
    by (auto simp: read_name_def Let_def name_loop_no_null split: option.split prod.split)
  then have "no_null (QueryGetThreadExtraInfo fuel env s packet)"
    by (auto simp: QueryGetThreadExtraInfo_def split: prod.split option.split intro!: no_null_bind)
  moreover have "no_null (QueryGetRemoteCommand env s packet)"
    by (auto simp: QueryGetRemoteCommand_def remote_wait_def Let_def intro!: no_null_bind
        split: prod.splits if_splits sum.splits bool.splits)
  moreover have "no_null (QueryXfer env s packet)"
    by (simp add: QueryXfer_def XferObject_Read_def XferObject_Write_def split: prod.split option.split)
  ultimately show ?thesis
    by (cases q) (simp_all add: QueryGetSupported_def QueryGetCurrentThread_def QueryGetFThreadInfo_def
        QueryGetSThreadInfo_def QueryGetOffsets_def QuerySetStartNoAckMode_def QuerySetThreadEvents_def Let_def
        split: option.split sum.split list.split prod.split)
qed

lemma query_no_null [null_free]:
  "no_null (HandleGeneralGetQuery fuel env s packet)" "no_null (HandleGeneralSetQuery fuel env s packet)"
  by (simp_all add: HandleGeneralGetQuery_def HandleGeneralSetQuery_def HandleGeneralQuery_def visit_no_null
      split: prod.split option.split)

lemma simple_no_null [null_free]:
  "no_null (HandleReadGeneralRegisters env s)" "no_null (HandleSetCurrentThread s packet)"
  "no_null (HandleReadMemory env s packet)" "no_null (HandleWriteMemory env s packet)"
  "no_null (HandleIsThreadAlive s packet)"
  by (simp_all add: HandleReadGeneralRegisters_def HandleSetCurrentThread_def HandleReadMemory_def
      HandleWriteMemory_def HandleIsThreadAlive_def Let_def split: option.split sum.split prod.split list.split)

lemma detach_null_iff:
  "HandleDetach s packet = Inl NullDeref \<longleftrightarrow> gs_current_thread s = None \<and> (\<exists>pid. packet = 0x3b # pid)"
  by (auto simp: HandleDetach_def Let_def split: list.splits option.splits)

lemma write_registers_null_iff:
  "HandleWriteGeneralRegisters env s packet = Inl NullDeref \<longleftrightarrow>
     gs_current_thread s = None \<and> 788 \<le> length (hex_pairs packet)"
  by (auto simp: HandleWriteGeneralRegisters_def Let_def split: option.splits)

text \<open>C33: of all packets, exactly two dereference the null \<open>current_thread\<close>, and only while no thread is
  selected: \<open>D;pid\<close>, and a \<open>G\<close> with a full set of registers, whose error answer does not return.\<close>

theorem null_thread_packets:
  "dispatch fuel env so s packet = Inl NullDeref \<longleftrightarrow>
     gs_current_thread s = None \<and>
     ((\<exists>pid. packet = 0x44 # 0x3b # pid) \<or>
      (\<exists>regs. packet = 0x47 # regs \<and> 788 \<le> length (hex_pairs regs)))"
proof (cases packet)
  case (Cons ident rest)
  show ?thesis
  proof (cases "ident = 0x44 \<or> ident = 0x47")
    case True
    then show ?thesis using Cons by (auto simp: dispatch_def detach_null_iff write_registers_null_iff)
  next
    case False
    then have "no_null (dispatch fuel env so s packet)"
      by (simp add: Cons dispatch_def null_free)
    then show ?thesis using False Cons by (simp add: no_null_def)
  qed
qed (simp add: dispatch_def)

section \<open>Memory and registers\<close>


definition demo_env :: Env where
  "demo_env = \<lparr>en_OpenActiveDebugger = (\<lambda>_ _. None), en_ReadMemory = (\<lambda>_ _ a n. Inr (replicate (unat n) 0xab)),
     en_WriteMemory = (\<lambda>_ _ _ _. None), en_GetThreadContext = (\<lambda>_ _ t. Inr (replicate 800 (ucast t))),
     en_SetThreadContext = (\<lambda>_ _ _ _. None), en_ContinueDebugEvent = (\<lambda>_ _ _. None),
     en_BreakProcess = (\<lambda>_ _. None), en_LaunchDebugProcess = (\<lambda>_ _. None), en_GetTargetEntry = (\<lambda>_ _. Inr 0x1000),
     en_GetNsoInfos = (\<lambda>_ _. Inr []), en_GetNroInfos = (\<lambda>_ _. Inr []),
     en_WaitToDebugApplication = (\<lambda>_. Inr 1), en_WaitToDebugTitle = (\<lambda>_ _. Inr 1)\<rparr>"

definition demo_stub :: Stub where
  "demo_stub = Stub_new\<lparr>gs_current_thread := Some (5, 7),
     gs_attached_processes := [(5, Process_new\<lparr>gp_threads := [(7, 0x2000), (9, 0x3000)], gp_has_events := True\<rparr>)]\<rparr>"

lemma demo_simps [simp]:
  "gs_current_thread demo_stub = Some (5, 7)" "gs_calls demo_stub = []" "gs_out demo_stub = []"
  "en_ReadMemory demo_env k pid a n = Inr (replicate (unat n) 0xab)"
  "en_WriteMemory demo_env k pid a bytes = None" "en_SetThreadContext demo_env k pid tid tc = None"
  "en_GetThreadContext demo_env k pid tid = Inr (replicate 800 (ucast tid))"
  "en_ContinueDebugEvent demo_env k pid ids = None"
  by (simp_all add: demo_stub_def demo_env_def Stub_new_def)


text \<open>The registers that \<open>g\<close> answers, sent back by \<open>G\<close>, set the context that was read except for the
  padding after \<open>psr\<close> and for \<open>tpidr\<close>, both of which become zero.\<close>

theorem registers_round_trip:
  assumes cur: "gs_current_thread s = Some (pid, tid)"
    and rd: "en_GetThreadContext env (now s) pid tid = Inr tc" and len: "length tc = 800"
    and wr: "\<And>k tc. en_SetThreadContext env k pid tid tc = None"
  shows "\<exists>r s1. dispatch fuel env so s [0x67] = Inr s1 \<and> gs_out s1 = gs_out s @ [Reply r] \<and>
     (\<exists>t. dispatch fuel env so s1 (0x47 # r) = Inr t \<and>
       gs_calls t = gs_calls s @ [TGetContext pid tid,
         TSetContext pid tid (take 268 tc @ replicate 4 0 @ take 520 (drop 272 tc) @ replicate 8 0)])"
proof -
  let ?r = "encode_bytes (registers_of_context tc)"
  let ?s1 = "respond ?r (log_call (TGetContext pid tid) s)"
  have len': "length (registers_of_context tc) = 788"
    and ctx: "context_of_registers (registers_of_context tc) =
      take 268 tc @ replicate 4 0 @ take 520 (drop 272 tc) @ replicate 8 0"
    using len by (simp_all add: registers_of_context_def context_of_registers_def)
  have "dispatch fuel env so s [0x67] = Inr ?s1" and "gs_out ?s1 = gs_out s @ [Reply ?r]"
    using cur rd by (simp_all add: dispatch_def HandleReadGeneralRegisters_def respond_def out_def log_call_def)
  moreover have "dispatch fuel env so ?s1 (0x47 # ?r) =
      Inr (respond_ok (log_call (TSetContext pid tid (context_of_registers (registers_of_context tc))) ?s1))"
    using cur wr by (simp add: dispatch_def HandleWriteGeneralRegisters_def Let_def len' respond_def out_def log_call_def)
  ultimately show ?thesis
    by (intro exI [of _ ?r] exI [of _ ?s1])
      (simp add: ctx, simp add: respond_ok_def respond_def out_def log_call_def)
qed

theorem registers_round_trip_witness:
  "\<exists>r s1. dispatch 1 demo_env [] demo_stub [0x67] = Inr s1 \<and> gs_out s1 = [Reply r] \<and>
     (\<exists>t. dispatch 1 demo_env [] s1 (0x47 # r) = Inr t \<and>
       gs_calls t = [TGetContext 5 7,
         TSetContext 5 7 (replicate 268 7 @ replicate 4 0 @ replicate 520 7 @ replicate 8 0)])"
  using registers_round_trip [of demo_stub 5 7 demo_env "replicate 800 7" 1 "[]"]
  by simp

section \<open>Transfer objects\<close>

lemma xfer_slice_inside:
  assumes "length msg + unat len < 2 ^ 64" and "off \<le> length msg"
  shows "xfer_slice msg (of_nat off) len =
    Some ((if length msg \<le> off + unat len then 0x6c else 0x6d) # take (unat len) (drop off msg))"
proof -
  have bounds: "length msg < 2 ^ 64" "off < 2 ^ 64" "off + unat len < 2 ^ 64" using assms by simp_all
  have off: "unat (of_nat off :: u64) = off" and sz: "unat (of_nat (length msg) :: u64) = length msg"
    using bounds by (simp_all add: unat_of_nat_u64)
  have left: "unat (of_nat (length msg) - of_nat off :: u64) = length msg - off"
    using assms(2) off sz by (subst unat_sub) (simp_all add: word_le_nat_alt)
  have sum: "unat (of_nat off + len) = off + unat len"
    using bounds off by (subst unat_plus_if') simp
  have n: "unat (min (of_nat (length msg) - of_nat off) len) = min (length msg - off) (unat len)"
    using left by (simp add: min_def word_le_nat_alt)
  have ge: "of_nat (length msg) \<le> of_nat off + len \<longleftrightarrow> length msg \<le> off + unat len"
    by (simp add: word_le_nat_alt sum sz)
  have "take (min (length msg - off) (unat len)) (drop off msg) = take (unat len) (drop off msg)"
    by (simp add: min_def)
  then show ?thesis
    using assms(2) by (simp add: xfer_slice_def Let_def n off ge)
qed

text \<open>gdb's side of a transfer: it asks for \<open>len\<close> bytes at a time until the answer says it was the last.\<close>

fun xfer_fetch :: "nat \<Rightarrow> byte list \<Rightarrow> u64 \<Rightarrow> u64 \<Rightarrow> byte list option" where
  "xfer_fetch 0 msg off len = None"
| "xfer_fetch (Suc k) msg off len =
    (case xfer_slice msg off len of
       Some (c # bytes) \<Rightarrow>
         if c = 0x6c then Some bytes
         else map_option ((@) bytes) (xfer_fetch k msg (off + of_nat (length bytes)) len)
     | _ \<Rightarrow> None)"

lemma xfer_fetch_from:
  assumes "length msg + unat len < 2 ^ 64" and "0 < unat len"
  shows "off \<le> length msg \<Longrightarrow> length msg - off < k \<Longrightarrow>
    xfer_fetch k msg (of_nat off) len = Some (drop off msg)"
proof (induction k arbitrary: off)
  case (Suc k)
  show ?case
  proof (cases "length msg \<le> off + unat len")
    case True
    then show ?thesis using xfer_slice_inside [OF assms(1) Suc.prems(1)] by simp
  next
    case False
    have "xfer_fetch k msg (of_nat (off + unat len)) len = Some (drop (off + unat len) msg)"
      by (rule Suc.IH) (use False Suc.prems assms(2) in linarith)+
    moreover have "take (unat len) (drop off msg) @ drop (off + unat len) msg = drop off msg"
      by (metis add.commute append_take_drop_id drop_drop)
    ultimately show ?thesis
      using False xfer_slice_inside [OF assms(1) Suc.prems(1)] by simp
  qed
qed simp

text \<open>C31: however large the chunks gdb asks for, the chunks of a transfer object it gets, put together,
  are the object, and the last one is marked; it takes at most one request per byte and one more.\<close>

theorem xfer_chunks_rebuild:
  assumes "length msg + unat len < 2 ^ 64" and "0 < unat len"
  shows "xfer_fetch (Suc (length msg)) msg 0 len = Some msg"
  using xfer_fetch_from [OF assms, of 0 "Suc (length msg)"] by (simp del: xfer_fetch.simps)

theorem xfer_chunks_rebuild_witness: 
  "xfer_fetch (Suc (length (str ''library''))) (str ''library'') 0 3 = Some (str ''library'')"
  by (rule xfer_chunks_rebuild) simp_all



section \<open>Continuing and stopping\<close>

lemma add_actions_last:
  assumes "map_ok (acts @ [(pid, [])])"
  shows "add_actions pid tids acts = acts @ [(pid, fold (\<lambda>t. map_emplace t ()) tids [])]"
proof -
  have "map_emplace pid [] acts = acts @ [(pid, [])]" "\<forall>e \<in> set acts. fst e \<noteq> pid"
    using assms by (induction acts) (auto simp: map_ok_def)
  moreover from this have "map_modify pid f acts = acts" for f
    unfolding map_modify_def by (intro map_idI) auto
  ultimately show ?thesis by (simp add: add_actions_def map_modify_def)
qed

lemma fold_emplace_sorted:
  "sorted_wrt (<) (map fst m @ tids) \<Longrightarrow>
    fold (\<lambda>t. map_emplace t ()) tids m = m @ map (\<lambda>t. (t, ())) tids"
proof (induction tids arbitrary: m)
  case (Cons t tids)
  have "map_emplace t () m = m @ [(t, ())]"
    using Cons.prems by (induction m) (auto simp: sorted_wrt_append)
  with Cons.IH [of "m @ [(t, ())]"] Cons.prems show ?case by simp
qed simp

lemma all_actions:
  assumes "map_ok (acts @ map (\<lambda>(k, p). (k, [])) procs)" and "\<forall>(k, p) \<in> set procs. map_ok (gp_threads p)"
  shows "fold (\<lambda>(k, p). add_actions k (map fst (gp_threads p))) procs acts =
    acts @ map (\<lambda>(k, p). (k, map (\<lambda>t. (t, ())) (map fst (gp_threads p)))) procs"
  using assms
proof (induction procs arbitrary: acts)
  case (Cons e procs)
  obtain k p where e: "e = (k, p)" by fastforce
  have "map_ok (acts @ [(k, [])])" using Cons.prems(1) by (auto simp: e map_ok_def sorted_wrt_append)
  moreover have "fold (\<lambda>t. map_emplace t ()) (map fst (gp_threads p)) [] = map (\<lambda>t. (t, ())) (map fst (gp_threads p))"
    using Cons.prems(2) by (subst fold_emplace_sorted) (auto simp: e map_ok_def)
  ultimately have "add_actions k (map fst (gp_threads p)) acts =
      acts @ [(k, map (\<lambda>t. (t, ())) (map fst (gp_threads p)))]" by (simp add: add_actions_last)
  moreover have "map_ok ((acts @ [(k, map (\<lambda>t. (t, ())) (map fst (gp_threads p)))]) @ map (\<lambda>(k, p). (k, [])) procs)"
    using Cons.prems(1) by (simp add: e map_ok_def)
  ultimately show ?case using Cons by (simp add: e)
qed simp

definition is_continue :: "TargetCall \<Rightarrow> bool" where
  "is_continue c \<longleftrightarrow> (case c of TContinue _ _ \<Rightarrow> True | _ \<Rightarrow> False)"

definition continued :: "u64 list \<Rightarrow> GProcess \<Rightarrow> GProcess" where
  "continued ids p = p\<lparr>gp_running_thread_ids := filter (\<lambda>t. map_of (gp_threads p) t \<noteq> None) ids, gp_running := True\<rparr>"

lemma IngestEvents_quiet:
  assumes "gs_events s pid = []"
  obtains t where "IngestEvents env pid s = Inr (False, t)" and "gs_events t = gs_events s"
    and "gs_attached_processes t = gs_attached_processes s" and "gs_out t = gs_out s"
    and "filter is_continue (gs_calls t) = filter is_continue (gs_calls s)"
    and "gs_current_thread t = gs_current_thread s"
proof -
  define t where "t = (if gs_has_async_wait s then s
    else (log_call (TAsyncWait pid) s)\<lparr>gs_has_async_wait := True\<rparr>)"
  have ev: "(gs_events s)(pid := []) = gs_events s" using assms by (metis fun_upd_triv)
  have run: "is_running t pid = is_running s pid"
    by (simp add: t_def is_running_def find_process_def log_call_def)
  have "IngestEvents env pid s = Inr (False, t)"
    using run assms by (auto simp: IngestEvents_def Let_def ev t_def)
  then show thesis
    by (rule that) (simp_all add: t_def log_call_def is_continue_def)
qed

lemma find_process_log [simp]: "find_process (log_call c s) k = find_process s k"
  by (simp add: find_process_def log_call_def)

lemma vCont_run_quiet:
  assumes acc: "\<And>k pid ids. en_ContinueDebugEvent env k pid ids = None"
  shows "gs_events s = (\<lambda>_. []) \<Longrightarrow> distinct (map fst acts) \<Longrightarrow>
    \<exists>t. vCont_run env acts s = Inr t \<and> gs_waiting_for_stop t \<and> gs_out t = gs_out s \<and>
      gs_current_thread t = gs_current_thread s \<and>
      (\<forall>pid. find_process t pid = (case map_of acts pid of None \<Rightarrow> find_process s pid
         | Some a \<Rightarrow> map_option (continued (map fst a)) (find_process s pid)))"
proof (induction acts arbitrary: s)
  case (Cons e acts)
  obtain pid a where e: "e = (pid, a)" by fastforce
  have fresh: "map_of acts pid = None" using Cons.prems(2) by (simp add: e map_of_eq_None_iff)
  show ?case
  proof (cases "find_process s pid = None")
    case True
    then show ?thesis using Cons.IH [OF Cons.prems(1)] Cons.prems(2) fresh by (auto simp: e)
  next
    case False
    obtain t where t: "IngestEvents env pid s = Inr (False, t)" "gs_events t = gs_events s"
      "gs_attached_processes t = gs_attached_processes s" "gs_out t = gs_out s"
      "gs_current_thread t = gs_current_thread s"
      using IngestEvents_quiet [of s pid env] Cons.prems(1) by auto
    define u where "u = modify_process pid
      (\<lambda>p. p\<lparr>gp_running_thread_ids := filter (\<lambda>t. map_of (gp_threads p) t \<noteq> None) (map fst a)\<rparr>) t"
    define v where "v = modify_process pid (\<lambda>p. p\<lparr>gp_running := True\<rparr>) (log_call (TContinue pid (running_ids u pid)) u)"
    have "continue_process env pid u = Inr v"
      using acc by (simp add: continue_process_def Let_def v_def)
    then have step: "vCont_run env (e # acts) s = vCont_run env acts v"
      using False t(1) by (auto simp: e u_def)
    have v: "gs_events v = (\<lambda>_. [])" "gs_out v = gs_out s" "gs_current_thread v = gs_current_thread s"
      using t Cons.prems(1) by (simp_all add: v_def u_def modify_process_def log_call_def)
    have "find_process t k = find_process s k" for k by (simp add: find_process_def t(3))
    then have find: "find_process v k = (if k = pid then map_option (continued (map fst a)) (find_process s k)
        else find_process s k)" for k
      by (cases "find_process s pid") (simp_all add: v_def u_def continued_def)
    have "distinct (map fst acts)" using Cons.prems(2) by simp
    from Cons.IH [OF v(1) this] obtain w where w: "vCont_run env acts v = Inr w" "gs_waiting_for_stop w"
      "gs_out w = gs_out s" "gs_current_thread w = gs_current_thread s"
      "\<And>k. find_process w k = (case map_of acts k of None \<Rightarrow> find_process v k
         | Some a \<Rightarrow> map_option (continued (map fst a)) (find_process v k))" using v by auto
    have "find_process w k = (case map_of (e # acts) k of None \<Rightarrow> find_process s k
         | Some a \<Rightarrow> map_option (continued (map fst a)) (find_process s k))" for k
      using fresh by (auto simp: e w(5) find split: option.split)
    with w(1-4) step show ?thesis by auto
  qed
qed (auto simp: find_process_def)

lemma dispatch_vCont: "dispatch fuel env so s (str ''vCont;'' @ rest) = HandleVCont env s rest"
proof -
  have "str ''vCont;'' @ rest = 0x76 # str ''Cont'' @ 0x3b # rest" by (simp add: str_def)
  moreover have "read_until 0x3b (str ''Cont'' @ 0x3b # rest) = (str ''Cont'', rest)"
    by (rule read_until_app) (simp add: str_def)
  moreover have "str ''Cont'' \<noteq> str ''Attach''" "str ''Cont'' \<noteq> str ''Cont?''" by (simp_all add: str_def)
  ultimately show ?thesis by (simp add: dispatch_def HandleMultiletterPacket_def)
qed

lemma vCont_loop_thread:
  "\<forall>c \<in> set cs. c \<noteq> 0x3b \<and> c \<noteq> 0x3a \<Longrightarrow>
    vCont_loop s cs action thread_id False acts = finish_action s action (thread_id @ cs) acts"
  by (induction cs arbitrary: thread_id) simp_all

lemma vCont_all:
  assumes ok: "stub_ok s" and quiet: "gs_events s = (\<lambda>_. [])"
    and acc: "\<And>k pid ids. en_ContinueDebugEvent env k pid ids = None"
  shows "\<exists>t. HandleVCont env s [0x63] = Inr t \<and> gs_waiting_for_stop t \<and> gs_out t = gs_out s \<and>
     (\<forall>k. find_process t k = map_option (\<lambda>p. continued (map fst (gp_threads p)) p) (find_process s k))"
proof -
  define acts where "acts = map (\<lambda>(k, p). (k, map (\<lambda>t. (t, ())) (map fst (gp_threads p)))) (gs_attached_processes s)"
  have procs: "map_ok (gs_attached_processes s)" "\<forall>(k, p) \<in> set (gs_attached_processes s). map_ok (gp_threads p)"
    using ok by (auto simp: stub_ok_def procs_ok_def find_process_def proc_ok_def dest: map_of_mem [THEN iffD1])
  have "map_ok (map (\<lambda>(k, p). (k, [])) (gs_attached_processes s))"
    using procs(1) by (simp add: map_ok_def comp_def case_prod_beta')
  then have loop: "vCont_loop s [0x63] [] [] True [] = Some acts"
    using all_actions [of "[]" "gs_attached_processes s"] procs(2) by (simp add: finish_action_def acts_def)
  have keys: "map fst acts = map fst (gs_attached_processes s)" by (simp add: acts_def comp_def case_prod_beta')
  have lookup: "map_of acts k = map_option (\<lambda>p. map (\<lambda>t. (t, ())) (map fst (gp_threads p))) (find_process s k)" for k
    by (simp add: find_process_def acts_def map_of_map)
  have "distinct (map fst acts)" by (simp only: keys map_ok_distinct [OF procs(1)])
  from vCont_run_quiet [where acts = acts, OF acc quiet this] obtain t where t: "vCont_run env acts s = Inr t"
    "gs_waiting_for_stop t" "gs_out t = gs_out s"
    "\<And>k. find_process t k = (case map_of acts k of None \<Rightarrow> find_process s k
         | Some a \<Rightarrow> map_option (continued (map fst a)) (find_process s k))" by auto
  have "find_process t k = map_option (\<lambda>p. continued (map fst (gp_threads p)) p) (find_process s k)" for k
    by (cases "find_process s k") (simp_all add: t(4) lookup comp_def)
  with t(1-3) loop show ?thesis by (simp add: HandleVCont_def)
qed

lemma vCont_one:
  assumes quiet: "gs_events s = (\<lambda>_. [])" and acc: "\<And>k pid ids. en_ContinueDebugEvent env k pid ids = None"
    and has: "has_thread s pid tid" and pid: "pid \<noteq> - 1" "tid \<noteq> - 1"
  shows "\<exists>t. HandleVCont env s (0x63 # 0x3a # 0x70 # encode pid 8 @ 0x2e # encode tid 8) = Inr t \<and>
     gs_waiting_for_stop t \<and> gs_out t = gs_out s \<and>
     (\<forall>k. find_process t k = (if k = pid then map_option (continued [tid]) (find_process s k) else find_process s k))"
proof -
  obtain p where p: "find_process s pid = Some p" "map_of (gp_threads p) tid \<noteq> None"
    using has by (auto simp: has_thread_def split: option.splits)
  let ?th = "0x70 # encode pid 8 @ 0x2e # encode tid 8"
  have hex: "c \<in> set (encode n 8) \<Longrightarrow> c \<noteq> 0x3b \<and> c \<noteq> 0x3a \<and> c \<noteq> 0x2d" for c n
    by (auto dest: encode_is_hex simp: is_hex_def)
  have ne: "encode n 8 \<noteq> []" for n by (simp add: encode_def eval_nat_numeral hex2_def)
  obtain c cs where tid: "encode tid 8 = c # cs" using ne by (cases "encode tid 8") auto
  obtain d ds where pd: "encode pid 8 = d # ds" using ne by (cases "encode pid 8") auto
  have "c \<noteq> 0x2d" "d \<noteq> 0x2d" using hex [of c tid] hex [of d pid] tid pd by simp_all
  then have rd: "ReadThreadId s ?th = (pid, tid, [])"
    using decode_sep_encode [of "0x2e" pid "encode tid 8"] hex_value_encode [of tid]
    by (simp add: ReadThreadId_def read_tid_def tid pd)
  have "vCont_loop s (0x63 # 0x3a # ?th) [] [] True [] = finish_action s [0x63] ?th []"
    using vCont_loop_thread [of ?th s "[0x63]" "[]" "[]"] hex by auto
  also have "\<dots> = Some [(pid, [(tid, ())])]"
    using rd p pid by (auto simp: finish_action_def add_actions_last map_ok_def)
  finally have loop: "vCont_loop s (0x63 # 0x3a # ?th) [] [] True [] = Some [(pid, [(tid, ())])]" .
  have "distinct (map fst [(pid, [(tid, ())])])" by simp
  from vCont_run_quiet [OF acc quiet this] p(1) show ?thesis
    by (simp only: HandleVCont_def loop option.case) (auto split: if_splits)
qed


lemma demo_stub_ok: "stub_ok demo_stub"
  by (simp add: demo_stub_def stub_ok_def procs_ok_def current_ok_def has_thread_def find_process_def
      proc_ok_def map_ok_def Stub_new_def Process_new_def)


text \<open>Events that do not stop a process while thread events are off.\<close>

definition silent :: "DebugEvent \<Rightarrow> bool" where
  "silent ev \<longleftrightarrow> (case ev_type ev of Exception _ \<Rightarrow> False | ExitProcess \<Rightarrow> False | _ \<Rightarrow> True)"

lemma ingest_event_fields:
  "gs_thread_events_enabled (snd (ingest_event pid ev l s)) = gs_thread_events_enabled s"
  "gs_out (snd (ingest_event pid ev l s)) = gs_out s"
  "map fst (gs_attached_processes (snd (ingest_event pid ev l s))) = map fst (gs_attached_processes s)"
  "gs_waiting_for_stop (snd (ingest_event pid ev l s)) = gs_waiting_for_stop s"
  by (simp_all add: ingest_event_def Let_def modify_process_def split: EventType.split)

lemma ingest_event_silent:
  "silent ev \<Longrightarrow> \<not> gs_thread_events_enabled s \<Longrightarrow>
    ig_stopped (fst (ingest_event pid ev l s)) = ig_stopped l \<and>
    ig_style (fst (ingest_event pid ev l s)) = ig_style l \<and>
    ig_signal (fst (ingest_event pid ev l s)) = ig_signal l"
  by (auto simp: silent_def ingest_event_def Let_def split: EventType.splits)

lemma ingest_loop_stop:
  assumes "\<not> ig_stopped l" "ig_style l = 0x54" "\<not> gs_thread_events_enabled s" "\<forall>ev \<in> set pre. silent ev"
    and "ty \<noteq> UnknownException"
  shows "\<exists>l1 s1. ingest_loop pid (map Inr pre @ Inr (DebugEvent tid (Exception ty)) # queue) l s = Inr (queue, l1, s1) \<and>
    ig_stopped l1 \<and> ig_style l1 = 0x54 \<and> ig_thread_id l1 = tid \<and> ig_signal l1 = exception_signal ty 0 \<and>
    gs_out s1 = gs_out s \<and> map fst (gs_attached_processes s1) = map fst (gs_attached_processes s)"
  using assms
proof (induction pre arbitrary: l s)
  case Nil
  then show ?case by (cases ty) (simp_all add: ingest_event_def Let_def modify_process_def)
next
  case (Cons ev pre)
  obtain l1 s1 where e: "ingest_event pid ev l s = (l1, s1)" by fastforce
  have "\<not> ig_stopped l1" "ig_style l1 = 0x54" "\<not> gs_thread_events_enabled s1" "gs_out s1 = gs_out s"
    "map fst (gs_attached_processes s1) = map fst (gs_attached_processes s)"
    using ingest_event_silent [of ev s pid l] ingest_event_fields [of pid ev l s] Cons.prems e by simp_all
  with Cons.IH [of l1 s1] Cons.prems e show ?case by simp
qed

text \<open>C18: a stop is reported. When gdb waits for a stop and the event of the one attached process was
  signalled, the next poll takes the events up to the first exception, answers one stop reply with the signal
  of that exception and the process and thread it happened in, stops waiting, and leaves the later events
  for the next continue.\<close>

theorem exception_reported:
  assumes procs: "gs_attached_processes s = [(pid, p)]" and "gp_has_events p" and "gs_waiting_for_stop s"
    and events: "gs_events s pid = map Inr pre @ Inr (DebugEvent tid (Exception ty)) # queue"
    and pre: "\<forall>ev \<in> set pre. silent ev" and off: "\<not> gs_thread_events_enabled s"
    and ty: "ty \<noteq> UnknownException" and "tid \<noteq> 0"
  shows "\<exists>t. poll env False s = Inr t \<and> \<not> gs_waiting_for_stop t \<and> gs_events t pid = queue \<and>
    gs_out t = gs_out s @ [Reply (str ''T'' @ encode (exception_signal ty 0) 1 @
      str ''thread:p'' @ encode pid 0 @ str ''.'' @ encode tid 0 @ str '';'')]"
proof -
  let ?l0 = "\<lparr>ig_style = 0x54, ig_signal = 0, ig_thread_id = 0, ig_stopped = False\<rparr>"
  obtain l1 s1 where loop: "ingest_loop pid (gs_events s pid) ?l0 s = Inr (queue, l1, s1)"
    and l1: "ig_stopped l1" "ig_style l1 = 0x54" "ig_thread_id l1 = tid" "ig_signal l1 = exception_signal ty 0"
    and s1: "gs_out s1 = gs_out s"
    using ingest_loop_stop [of ?l0 s pre ty pid tid queue] off pre ty events by auto
  define s2 where "s2 = s1\<lparr>gs_events := (gs_events s1)(pid := queue), gs_stop_reason := stop_reason pid l1\<rparr>"
  define s3 where "s3 = (if gs_has_async_wait s1 then s2
      else (log_call (TAsyncWait pid) s2)\<lparr>gs_has_async_wait := True\<rparr>)"
  have ing: "IngestEvents env pid s = Inr (True, s3)"
    by (simp add: IngestEvents_def Let_def loop l1(1) s3_def s2_def)
  have "find_process s pid = Some p" by (simp add: find_process_def procs)
  then have "poll env False s = Inr (Stop s3)"
    using assms(2,3) by (simp add: poll_def procs ing)
  moreover have "gs_out (Stop s3) = gs_out s @ [Reply (stop_reason pid l1)]" "\<not> gs_waiting_for_stop (Stop s3)"
    "gs_events (Stop s3) pid = queue"
    by (simp_all add: Stop_def HandleGetStopReason_def respond_def out_def s3_def s2_def log_call_def s1)
  moreover have "stop_reason pid l1 = str ''T'' @ encode (exception_signal ty 0) 1 @
      str ''thread:p'' @ encode pid 0 @ str ''.'' @ encode tid 0 @ str '';''"
    using assms(8) by (simp add: stop_reason_def l1)
  ultimately show ?thesis by simp
qed

theorem exception_reported_witness:
  "\<exists>t. poll demo_env False
       (demo_stub\<lparr>gs_waiting_for_stop := True,
          gs_events := (\<lambda>_. [Inr (DebugEvent 7 AttachProcess), Inr (DebugEvent 7 (Exception BreakPoint))])\<rparr>) = Inr t \<and>
     \<not> gs_waiting_for_stop t \<and> gs_events t 5 = [] \<and>
     gs_out t = [Reply (str ''T'' @ encode 5 1 @ str ''thread:p'' @ encode 5 0 @ str ''.'' @ encode 7 0 @ str '';'')]"
  using exception_reported [of "demo_stub\<lparr>gs_waiting_for_stop := True,
      gs_events := (\<lambda>_. [Inr (DebugEvent 7 AttachProcess), Inr (DebugEvent 7 (Exception BreakPoint))])\<rparr>" 5
      "Process_new\<lparr>gp_threads := [(7, 0x2000), (9, 0x3000)], gp_has_events := True\<rparr>"
      "[DebugEvent 7 AttachProcess]" 7 BreakPoint "[]" demo_env]
  by (simp add: demo_stub_def Stub_new_def silent_def)

text \<open>C5: in every state the stub can reach, whatever packets arrive, whatever the target answers and
  whichever events it raises, the selected thread is a live thread of an attached process, so the pointer never
  dangles, the maps are ordered, and the threads to continue a process with are threads it has.\<close>

theorem stub_never_dangles:
  assumes "stub_reachable s"
  shows "stub_ok s"
  using assms by (rule stub_reachable_ok)

theorem stub_never_dangles_witness:
  "\<exists>t. Prepare 1 demo_env [] [str ''vAttach;5'', str ''Hgp5.7''] False
      (Stub_new\<lparr>gs_events := (gs_events Stub_new)(5 := gs_events Stub_new 5 @ [Inr (DebugEvent 0 (AttachThread 7 0x2000))])\<rparr>) = Inr t \<and>
     gs_current_thread t = Some (5, 7) \<and> stub_ok t"
proof -
  let ?r = "Prepare 1 demo_env [] [str ''vAttach;5'', str ''Hgp5.7''] False
      (Stub_new\<lparr>gs_events := (gs_events Stub_new)(5 := gs_events Stub_new 5 @ [Inr (DebugEvent 0 (AttachThread 7 0x2000))])\<rparr>)"
  have "case ?r of Inl _ \<Rightarrow> False | Inr t \<Rightarrow> gs_current_thread t = Some (5, 7)"
    by code_simp
  then obtain t where t: "?r = Inr t" "gs_current_thread t = Some (5, 7)" by (auto split: sum.splits)
  have "stub_reachable t"
    using stub_reachable.prepare [OF stub_reachable.event [OF stub_reachable.start] t(1)] .
  from stub_never_dangles [OF this] t show ?thesis by blast
qed

end
