(* ===== verification/ProcessFS.thy ===== *)
theory ProcessFS
  imports Protocol
begin

text \<open>
  The files a launched process is loaded from (src/twili/process/fs): vectors and stdio files, files
  made of segments of others, the NSO made out of an NRO, and the file system that serves them to the
  loader.

  A read returns the bytes it writes to \<open>out\<close>; an error is the result code with what \<open>size_out\<close> was set
  to, if it was, or an access outside of the memory of a file. Offsets come from another process and are
  any \<open>size_t\<close>; the sizes of the segments of one file add up to less than \<open>2 ^ 64\<close>, so their sums do not wrap.
\<close>

section \<open>Files and segments\<close>

datatype FileError = Code u32 "byte list option" | Overrun

type_synonym file_result = "FileError + byte list"

text \<open>A segment of a file made of others, and the files. An \<open>ActualFile\<close> is what \<open>fseek\<close> and \<open>fread\<close>
  answer for it.\<close>

datatype Segment =
    BackedSegment File nat nat
  | MemorySegment "byte list"
and File =
    VectorFile "byte list"
  | ActualFile "nat \<Rightarrow> bool" "nat \<Rightarrow> nat \<Rightarrow> byte list"
  | TransmutationFile "Segment list"

fun Segment_Size :: "Segment \<Rightarrow> nat" where
  "Segment_Size (BackedSegment f file_offset sz) = sz"
| "Segment_Size (MemorySegment buf) = length buf"

definition VectorFile_Read :: "byte list \<Rightarrow> nat \<Rightarrow> nat \<Rightarrow> file_result" where
  "VectorFile_Read v off sz =
    (let actual_size = min (size_sub (length v) off) sz in
     if actual_size = 0 then Inr []
     else if off + actual_size \<le> length v then Inr (take actual_size (drop off v))
     else Inl Overrun)"

definition ActualFile_Read :: "(nat \<Rightarrow> bool) \<Rightarrow> (nat \<Rightarrow> nat \<Rightarrow> byte list) \<Rightarrow> nat \<Rightarrow> nat \<Rightarrow> file_result" where
  "ActualFile_Read fseek fread off sz =
    (if \<not> fseek off then Inl (Code TWILI_ERR_IO_ERROR None) else Inr (fread off sz))"

definition MemorySegment_Read :: "byte list \<Rightarrow> nat \<Rightarrow> nat \<Rightarrow> file_result" where
  "MemorySegment_Read buf off sz =
    (if off + sz \<le> length buf then Inr (take sz (drop off buf)) else Inl Overrun)"

text \<open>\<open>TransmutationFile::Read\<close> is the loop over the segments; \<open>acc\<close> is what is in \<open>out\<close> so far.\<close>

fun File_Read :: "File \<Rightarrow> nat \<Rightarrow> nat \<Rightarrow> file_result"
  and Segment_Read :: "Segment \<Rightarrow> nat \<Rightarrow> nat \<Rightarrow> file_result"
  and read_segments :: "Segment list \<Rightarrow> nat \<Rightarrow> nat \<Rightarrow> nat \<Rightarrow> byte list \<Rightarrow> file_result" where
  "File_Read (VectorFile v) off sz = VectorFile_Read v off sz"
| "File_Read (ActualFile fseek fread) off sz = ActualFile_Read fseek fread off sz"
| "File_Read (TransmutationFile segments) off sz = read_segments segments 0 off sz []"
| "Segment_Read (BackedSegment f file_offset n) off sz = File_Read f (file_offset + off) sz"
| "Segment_Read (MemorySegment buf) off sz = MemorySegment_Read buf off sz"
| "read_segments [] segment_begin off sz acc = Inr acc"
| "read_segments (seg # segments) segment_begin off sz acc =
    (if sz = 0 then Inr acc
     else
       (let segment_end = segment_begin + Segment_Size seg in
        if off < segment_end then
          (let seg_size = min (segment_end - off) sz in
           case Segment_Read seg (off - segment_begin) seg_size of
             Inl e \<Rightarrow> Inl e
           | Inr bytes \<Rightarrow>
               if length bytes < seg_size then Inl (Code TWILI_ERR_IO_ERROR (Some (acc @ bytes)))
               else read_segments segments segment_end (off + seg_size) (sz - seg_size) (acc @ bytes))
        else read_segments segments segment_end off sz acc))"

fun File_GetSize :: "File \<Rightarrow> nat option" where
  "File_GetSize (VectorFile v) = Some (length v)"
| "File_GetSize (ActualFile _ _) = None"
| "File_GetSize (TransmutationFile segments) = Some (sum_list (map Segment_Size segments))"

text \<open>\<open>ActualFile::GetSize\<close> keeps the size it found: \<open>cached\<close> is the pair \<open>has_size\<close>, \<open>size\<close>. The
  arguments are whether \<open>fseek\<close> to the end works and what \<open>ftello\<close> returns.\<close>

definition ActualFile_GetSize :: "bool \<Rightarrow> int \<Rightarrow> nat option \<Rightarrow> (u32 + nat) \<times> nat option" where
  "ActualFile_GetSize seek_end ftello cached =
    (case cached of
       Some n \<Rightarrow> (Inr n, cached)
     | None \<Rightarrow>
         if \<not> seek_end then (Inl TWILI_ERR_IO_ERROR, None)
         else if ftello = - 1 then (Inl TWILI_ERR_IO_ERROR, None)
         else (Inr (nat ftello), Some (nat ftello)))"

section \<open>NSO files\<close>

record SegmentHeader =
  sg_file_offset :: u32
  sg_memory_offset :: u32
  sg_decompressed_size :: u32

definition SegmentHeader_bytes :: "SegmentHeader \<Rightarrow> byte list" where
  "SegmentHeader_bytes h = bytes32 (sg_file_offset h) @ bytes32 (sg_memory_offset h) @ bytes32 (sg_decompressed_size h)"

record NSOHeader =
  nso_text_header :: SegmentHeader
  nso_rodata_header :: SegmentHeader
  nso_data_header :: SegmentHeader
  nso_bss_size :: u32
  nso_build_id :: "byte list"

text \<open>The 256 bytes of the header; the fields the constructor does not set have their defaults.\<close>

definition NSOHeader_bytes :: "NSOHeader \<Rightarrow> byte list" where
  "NSOHeader_bytes h =
    bytes32 0x304f534e @ bytes32 0 @ bytes32 0 @ bytes32 0 @
    SegmentHeader_bytes (nso_text_header h) @ bytes32 0 @
    SegmentHeader_bytes (nso_rodata_header h) @ bytes32 0 @
    SegmentHeader_bytes (nso_data_header h) @ bytes32 (nso_bss_size h) @
    nso_build_id h @ replicate 12 0 @ replicate 0x1c 0 @ replicate 24 0 @ replicate 0x60 0"

definition NSOHeader_new :: "nat \<Rightarrow> nat \<Rightarrow> nat \<Rightarrow> nat \<Rightarrow> byte list option \<Rightarrow> NSOHeader" where
  "NSOHeader_new text_size rodata_size data_size bss_size build_id =
    (let file_offset = 0x100;
         text = \<lparr>sg_file_offset = of_nat file_offset, sg_memory_offset = 0, sg_decompressed_size = of_nat text_size\<rparr>;
         file_offset1 = file_offset + unat (sg_decompressed_size text);
         memory_offset1 = unat (sg_decompressed_size text);
         rodata = \<lparr>sg_file_offset = of_nat file_offset1, sg_memory_offset = of_nat memory_offset1,
                   sg_decompressed_size = of_nat rodata_size\<rparr>;
         file_offset2 = file_offset1 + unat (sg_decompressed_size rodata);
         memory_offset2 = memory_offset1 + unat (sg_decompressed_size rodata);
         data = \<lparr>sg_file_offset = of_nat file_offset2, sg_memory_offset = of_nat memory_offset2,
                 sg_decompressed_size = of_nat data_size\<rparr>
     in \<lparr>nso_text_header = text, nso_rodata_header = rodata, nso_data_header = data,
         nso_bss_size = of_nat bss_size,
         nso_build_id = (case build_id of Some b \<Rightarrow> take 0x20 b | None \<Rightarrow> replicate 0x20 0)\<rparr>)"

definition NSOTransmutationFile :: "Segment \<Rightarrow> Segment \<Rightarrow> Segment \<Rightarrow> nat \<Rightarrow> byte list option \<Rightarrow> File" where
  "NSOTransmutationFile text rodata data bss_size build_id =
    TransmutationFile
      [MemorySegment (NSOHeader_bytes
         (NSOHeader_new (Segment_Size text) (Segment_Size rodata) (Segment_Size data) bss_size build_id)),
       text, rodata, data]"

record NROHeader =
  nro_magic :: u32
  nro_segments :: "(u32 \<times> u32) list"
  nro_bss_size :: u32
  nro_build_id :: "byte list"

definition field32 :: "nat \<Rightarrow> byte list \<Rightarrow> u32" where
  "field32 off bs = word32 (take 4 (drop off bs))"

definition NROHeader_of_bytes :: "byte list \<Rightarrow> NROHeader" where
  "NROHeader_of_bytes bs =
    \<lparr>nro_magic = field32 0 bs,
     nro_segments = [(field32 16 bs, field32 20 bs), (field32 24 bs, field32 28 bs), (field32 32 bs, field32 36 bs)],
     nro_bss_size = field32 40 bs, nro_build_id = take 0x20 (drop 48 bs)\<rparr>"

definition NROHeader_Read :: "File \<Rightarrow> FileError + NROHeader" where
  "NROHeader_Read nro =
    (case File_Read nro 0x10 0x70 of
       Inl Overrun \<Rightarrow> Inl Overrun
     | Inl (Code _ _) \<Rightarrow> Inl (Code TWILI_ERR_INVALID_NRO None)
     | Inr bs \<Rightarrow>
         if length bs < 0x70 \<or> nro_magic (NROHeader_of_bytes bs) \<noteq> 0x304f524e
         then Inl (Code TWILI_ERR_INVALID_NRO None)
         else Inr (NROHeader_of_bytes bs))"

definition NRONSO_Create :: "File \<Rightarrow> FileError + File" where
  "NRONSO_Create nro =
    sum_bind (NROHeader_Read nro) (\<lambda>h.
      let seg = (\<lambda>i. BackedSegment nro (unat (fst (nro_segments h ! i))) (unat (snd (nro_segments h ! i))))
      in Inr (NSOTransmutationFile (seg 0) (seg 1) (seg 2) (unat (nro_bss_size h)) (Some (nro_build_id h))))"

section \<open>The file system\<close>

record ProcessFileSystem =
  pfs_rtld :: "File option"
  pfs_main :: "File option"
  pfs_npdm :: "File option"

definition SetRtld :: "File option \<Rightarrow> ProcessFileSystem \<Rightarrow> ProcessFileSystem" where
  "SetRtld f pfs = pfs\<lparr>pfs_rtld := f\<rparr>"

definition SetMain :: "File option \<Rightarrow> ProcessFileSystem \<Rightarrow> ProcessFileSystem" where
  "SetMain f pfs = pfs\<lparr>pfs_main := f\<rparr>"

definition SetNpdm :: "File option \<Rightarrow> ProcessFileSystem \<Rightarrow> ProcessFileSystem" where
  "SetNpdm f pfs = pfs\<lparr>pfs_npdm := f\<rparr>"

text \<open>\<open>!strncmp (path, name, path.size)\<close>: \<open>path\<close> is the whole buffer, \<open>name\<close> has its terminator.\<close>

fun strncmp_eq :: "byte list \<Rightarrow> byte list \<Rightarrow> bool" where
  "strncmp_eq [] name = True"
| "strncmp_eq (c # path) [] = True"
| "strncmp_eq (c # path) (d # name) = (c = d \<and> (c = 0 \<or> strncmp_eq path name))"

definition OpenFile :: "ProcessFileSystem \<Rightarrow> byte list \<Rightarrow> u32 + File" where
  "OpenFile pfs path =
    (let file = (if strncmp_eq path (str ''/main'' @ [0]) then pfs_main pfs
                 else if strncmp_eq path (str ''/rtld'' @ [0]) then pfs_rtld pfs
                 else if strncmp_eq path (str ''/main.npdm'' @ [0]) then pfs_npdm pfs
                 else None)
     in case file of None \<Rightarrow> Inl 0x202 | Some f \<Rightarrow> Inr f)"

text \<open>A read of the served file, into a buffer of \<open>room\<close> bytes.\<close>

definition IFile_Read :: "File \<Rightarrow> nat \<Rightarrow> nat \<Rightarrow> nat \<Rightarrow> file_result" where
  "IFile_Read f off in_size room = File_Read f off (min in_size room)"

section \<open>What a file holds\<close>

text \<open>The contract of \<open>ProcessFile::Read\<close> that the loader relies on: a read inside the file returns the bytes
  there, as many as are asked for and left.\<close>

locale stored_file =
  fixes rd :: "nat \<Rightarrow> nat \<Rightarrow> file_result" and bs :: "byte list"
  assumes rd_slice: "off \<le> length bs \<Longrightarrow> rd off sz = Inr (take sz (drop off bs))"
begin

lemma rd_exact: "off + sz \<le> length bs \<Longrightarrow> \<exists>out. rd off sz = Inr out \<and> length out = sz"
  using rd_slice [of off sz] by simp

lemma rd_part:
  "bs = pre @ mid @ post \<Longrightarrow> rd (length pre) (length mid) = Inr mid"
  using rd_slice [of "length pre" "length mid"] by simp

end

lemma VectorFile_stored: "stored_file (File_Read (VectorFile v)) v"
  by unfold_locales (auto simp: VectorFile_Read_def Let_def min_def)

interpretation vector: stored_file "File_Read (VectorFile v)" v for v
  by (rule VectorFile_stored)

lemma ActualFile_stored:
  assumes "\<And>off. off \<le> length bs \<Longrightarrow> fseek off" and "\<And>off sz. fread off sz = take sz (drop off bs)"
  shows "stored_file (File_Read (ActualFile fseek fread)) bs"
  by unfold_locales (simp add: ActualFile_Read_def assms)

text \<open>A segment is asked only for bytes it has.\<close>

definition stored_segment :: "Segment \<Rightarrow> byte list \<Rightarrow> bool" where
  "stored_segment seg bs \<longleftrightarrow> Segment_Size seg = length bs \<and>
     (\<forall>off sz. off + sz \<le> length bs \<longrightarrow> Segment_Read seg off sz = Inr (take sz (drop off bs)))"

lemma MemorySegment_stored: "stored_segment (MemorySegment bs) bs"
  by (simp add: stored_segment_def MemorySegment_Read_def)

lemma BackedSegment_stored:
  assumes "stored_file (File_Read f) fb" and "file_offset + n \<le> length fb"
  shows "stored_segment (BackedSegment f file_offset n) (take n (drop file_offset fb))"
proof -
  have "File_Read f (file_offset + off) sz = Inr (take sz (drop off (take n (drop file_offset fb))))"
    if "off + sz \<le> n" for off sz
    using stored_file.rd_slice [OF assms(1), of "file_offset + off" sz] assms(2) that
    by (simp add: drop_take min_absorb1 add.commute)
  with assms(2) show ?thesis by (simp add: stored_segment_def)
qed

lemma read_segments_slice:
  "list_all2 stored_segment segs bss \<Longrightarrow> segment_begin \<le> off \<Longrightarrow>
    read_segments segs segment_begin off sz acc = Inr (acc @ take sz (drop (off - segment_begin) (concat bss)))"
proof (induction segs arbitrary: bss segment_begin off sz acc)
  case (Cons seg segs)
  obtain bs bss' where bss: "bss = bs # bss'" "stored_segment seg bs" "list_all2 stored_segment segs bss'"
    using Cons.prems(1) by (cases bss) auto
  have size: "Segment_Size seg = length bs" using bss(2) by (simp add: stored_segment_def)
  show ?case
  proof (cases "sz = 0")
    case False
    show ?thesis
    proof (cases "off < segment_begin + length bs")
      case True
      let ?n = "min (segment_begin + length bs - off) sz"
      have rd: "Segment_Read seg (off - segment_begin) ?n = Inr (take ?n (drop (off - segment_begin) bs))"
        using bss(2) True Cons.prems(2) by (simp add: stored_segment_def)
      have split: "take ?n (drop (off - segment_begin) bs) @
          take (sz - ?n) (drop (off + ?n - (segment_begin + length bs)) (concat bss')) =
        take sz (drop (off - segment_begin) (bs @ concat bss'))"
        using True Cons.prems(2) by (cases "segment_begin + length bs - off \<le> sz") (auto simp: min_def add.commute)
      show ?thesis
      proof (cases "segment_begin + length bs - off \<le> sz")
        case le: True
        have "read_segments segs (segment_begin + length bs) (off + ?n) (sz - ?n) (acc @ take ?n (drop (off - segment_begin) bs)) =
          Inr ((acc @ take ?n (drop (off - segment_begin) bs)) @
            take (sz - ?n) (drop (off + ?n - (segment_begin + length bs)) (concat bss')))"
          by (rule Cons.IH [OF bss(3)]) (use True le in simp)
        with split False True rd size bss(1) Cons.prems(2) show ?thesis by (simp add: Let_def)
      next
        case gt: False
        have "read_segments segs (segment_begin + length bs) (off + sz) 0 xs = Inr xs" for xs
          by (cases segs) simp_all
        with split gt False True rd size bss(1) Cons.prems(2) show ?thesis by (simp add: Let_def min_absorb2)
      qed
    next
      case beyond: False
      then have "drop (off - segment_begin) (bs @ concat bss') = drop (off - (segment_begin + length bs)) (concat bss')"
        using Cons.prems(2) by simp
      with Cons.IH [OF bss(3), of "segment_begin + length bs" off sz acc] beyond False size bss(1)
      show ?thesis by simp
    qed
  qed simp
qed simp

lemma TransmutationFile_stored:
  "list_all2 stored_segment segs bss \<Longrightarrow> stored_file (File_Read (TransmutationFile segs)) (concat bss)"
  by unfold_locales (simp add: read_segments_slice)

text \<open>A file made of segments reads as the concatenation of what its segments hold, whatever the offset
  and size of the read and however the read falls on the boundaries; past the end it reads nothing.\<close>

theorem transmutation_reads_concatenation:
  assumes "list_all2 stored_segment segs bss"
  shows "File_Read (TransmutationFile segs) off sz = Inr (take sz (drop off (concat bss))) \<and>
    File_GetSize (TransmutationFile segs) = Some (length (concat bss))"
proof -
  have "map Segment_Size segs = map length bss"
    using assms by (induction rule: list_all2_induct) (simp_all add: stored_segment_def)
  then show ?thesis using read_segments_slice [OF assms] by (simp add: length_concat)
qed

theorem transmutation_reads_concatenation_witness:
  "File_Read (TransmutationFile [MemorySegment [1, 2], BackedSegment (VectorFile [7, 8, 9]) 1 2]) 1 9 = Inr [2, 8, 9]"
  using transmutation_reads_concatenation [of "[MemorySegment [1, 2], BackedSegment (VectorFile [7, 8, 9]) 1 2]"
      "[[1, 2], take 2 (drop 1 [7, 8, 9])]" 1 9]
    MemorySegment_stored [of "[1, 2]"] BackedSegment_stored [OF VectorFile_stored, of 1 2 "[7, 8, 9]"] by simp

section \<open>From NRO to NSO\<close>

definition nro_segment :: "byte list \<Rightarrow> nat \<Rightarrow> byte list" where
  "nro_segment nb i = take (unat (field32 (0x24 + 8 * i) nb)) (drop (unat (field32 (0x20 + 8 * i) nb)) nb)"

lemma length_NSOHeader_bytes: "length (nso_build_id h) = 0x20 \<Longrightarrow> length (NSOHeader_bytes h) = 0x100"
  by (simp add: NSOHeader_bytes_def SegmentHeader_bytes_def)

lemma field32_slice: "off + 4 \<le> sz \<Longrightarrow> field32 off (take sz (drop k bs)) = field32 (k + off) bs"
  by (simp add: field32_def drop_take min_absorb1 add.commute)

lemma NROHeader_Read_stored:
  assumes "stored_file (File_Read nro) nb" and "0x80 \<le> length nb" and "field32 0x10 nb = 0x304f524e"
  shows "NROHeader_Read nro = Inr \<lparr>nro_magic = 0x304f524e,
    nro_segments = [(field32 0x20 nb, field32 0x24 nb), (field32 0x28 nb, field32 0x2c nb), (field32 0x30 nb, field32 0x34 nb)],
    nro_bss_size = field32 0x38 nb, nro_build_id = take 0x20 (drop 0x40 nb)\<rparr>"
proof -
  have "File_Read nro 0x10 0x70 = Inr (take 0x70 (drop 0x10 nb))"
    by (rule stored_file.rd_slice [OF assms(1)]) (use assms(2) in simp)
  with assms(2,3) show ?thesis
    by (simp add: NROHeader_Read_def NROHeader_of_bytes_def field32_slice drop_take min_absorb1)
qed

text \<open>C23: the NSO made out of a well-formed NRO. Its first 256 bytes are its header; what the header says is
  the file range of the text, the read-only data and the data is exactly that segment of the NRO; and the
  segments are placed in memory one after the other from zero.\<close>

theorem nso_serves_nro_segments:
  assumes stored: "stored_file (File_Read nro) nb" and len: "0x80 \<le> length nb"
    and magic: "field32 0x10 nb = 0x304f524e"
    and inside: "\<And>i. i < 3 \<Longrightarrow> unat (field32 (0x20 + 8 * i) nb) + unat (field32 (0x24 + 8 * i) nb) \<le> length nb"
    and total: "0x100 + unat (field32 0x24 nb) + unat (field32 0x2c nb) + unat (field32 0x34 nb) < 2 ^ 32"
  shows "\<exists>nso h. NRONSO_Create nro = Inr nso \<and> File_Read nso 0 0x100 = Inr (NSOHeader_bytes h) \<and>
    (let t = nso_text_header h; r = nso_rodata_header h; d = nso_data_header h;
         range = (\<lambda>sh. File_Read nso (unat (sg_file_offset sh)) (unat (sg_decompressed_size sh)))
     in range t = Inr (nro_segment nb 0) \<and> range r = Inr (nro_segment nb 1) \<and> range d = Inr (nro_segment nb 2) \<and>
        sg_memory_offset t = 0 \<and> sg_memory_offset r = sg_decompressed_size t \<and>
        sg_memory_offset d = sg_decompressed_size t + sg_decompressed_size r \<and>
        nso_bss_size h = field32 0x38 nb \<and> nso_build_id h = take 0x20 (drop 0x40 nb))"
proof -
  define off where "off = (\<lambda>i. unat (field32 (0x20 + 8 * i) nb))"
  define sz where "sz = (\<lambda>i. unat (field32 (0x24 + 8 * i) nb))"
  define seg where "seg = (\<lambda>i. BackedSegment nro (off i) (sz i))"
  define h where "h = NSOHeader_new (sz 0) (sz 1) (sz 2) (unat (field32 0x38 nb)) (Some (take 0x20 (drop 0x40 nb)))"
  let ?hb = "NSOHeader_bytes h" and ?s0 = "nro_segment nb 0" and ?s1 = "nro_segment nb 1" and ?s2 = "nro_segment nb 2"
  define nso where "nso = TransmutationFile [MemorySegment ?hb, seg 0, seg 1, seg 2]"
  have create: "NRONSO_Create nro = Inr nso"
    by (simp add: NRONSO_Create_def NROHeader_Read_stored [OF stored len magic] NSOTransmutationFile_def nso_def
        h_def seg_def off_def sz_def)
  have "stored_segment (seg i) (nro_segment nb i)" if "i < 3" for i
    unfolding seg_def off_def sz_def nro_segment_def by (rule BackedSegment_stored [OF stored inside [OF that]])
  then have "list_all2 stored_segment [MemorySegment ?hb, seg 0, seg 1, seg 2] [?hb, ?s0, ?s1, ?s2]"
    by (simp add: MemorySegment_stored)
  from TransmutationFile_stored [OF this]
  have whole: "stored_file (File_Read nso) (?hb @ ?s0 @ ?s1 @ ?s2)" by (simp add: nso_def)
  have lens: "length (nro_segment nb i) = sz i" if "i < 3" for i
    using inside [OF that] by (simp add: nro_segment_def sz_def)
  have hb: "length ?hb = 0x100" using len by (simp add: length_NSOHeader_bytes h_def NSOHeader_new_def Let_def)
  have bound: "0x100 + sz 0 + sz 1 < 2 ^ 32" using total by (simp add: sz_def)
  have offs: "unat (sg_file_offset (nso_text_header h)) = 0x100"
    "unat (sg_file_offset (nso_rodata_header h)) = 0x100 + sz 0"
    "unat (sg_file_offset (nso_data_header h)) = 0x100 + sz 0 + sz 1"
    using bound unat_of_nat_u32 [of "0x100 + sz 0"] unat_of_nat_u32 [of "0x100 + sz 0 + sz 1"]
    by (simp_all add: h_def NSOHeader_new_def Let_def sz_def)
  have sizes: "unat (sg_decompressed_size (nso_text_header h)) = sz 0"
    "unat (sg_decompressed_size (nso_rodata_header h)) = sz 1"
    "unat (sg_decompressed_size (nso_data_header h)) = sz 2"
    by (simp_all add: h_def NSOHeader_new_def Let_def sz_def)
  have "File_Read nso 0 0x100 = Inr ?hb" using stored_file.rd_part [OF whole, of "[]" ?hb] hb by simp
  moreover have "File_Read nso 0x100 (sz 0) = Inr ?s0" "File_Read nso (0x100 + sz 0) (sz 1) = Inr ?s1"
    "File_Read nso (0x100 + sz 0 + sz 1) (sz 2) = Inr ?s2"
    using stored_file.rd_part [OF whole, of ?hb ?s0] stored_file.rd_part [OF whole, of "?hb @ ?s0" ?s1]
      stored_file.rd_part [OF whole, of "?hb @ ?s0 @ ?s1" ?s2 "[]"] hb lens
    by (simp_all add: add.assoc)
  moreover have "sg_memory_offset (nso_text_header h) = 0"
    "sg_memory_offset (nso_rodata_header h) = sg_decompressed_size (nso_text_header h)"
    "sg_memory_offset (nso_data_header h) = sg_decompressed_size (nso_text_header h) + sg_decompressed_size (nso_rodata_header h)"
    "nso_bss_size h = field32 0x38 nb" "nso_build_id h = take 0x20 (drop 0x40 nb)"
    by (simp_all add: h_def NSOHeader_new_def Let_def)
  ultimately show ?thesis
    using create by (intro exI [of _ nso] exI [of _ h]) (simp add: offs sizes)
qed

text \<open>An NRO of 128 bytes whose three segments are the bytes 0 to 4, 16 to 20 and 20 to 22 of itself.\<close>

definition demo_nro :: "byte list" where
  "demo_nro = replicate 16 0 @ bytes32 0x304f524e @ replicate 12 0 @
     bytes32 0 @ bytes32 4 @ bytes32 16 @ bytes32 4 @ bytes32 20 @ bytes32 2 @ bytes32 9 @ replicate 68 0"

lemma demo_nro_accepted: "\<exists>nso. NRONSO_Create (VectorFile demo_nro) = Inr nso"
  by (simp add: NRONSO_Create_def NROHeader_Read_def VectorFile_Read_def demo_nro_def NROHeader_of_bytes_def
      field32_def size_sub_def Let_def)

theorem nso_serves_nro_segments_witness:
  "\<exists>nso h. NRONSO_Create (VectorFile demo_nro) = Inr nso \<and> File_Read nso 0 0x100 = Inr (NSOHeader_bytes h) \<and>
     File_Read nso (unat (sg_file_offset (nso_rodata_header h))) (unat (sg_decompressed_size (nso_rodata_header h))) =
       Inr (bytes32 0x304f524e) \<and> nso_bss_size h = 9"
proof -
  have fields: "length demo_nro = 0x80" "field32 0x10 demo_nro = 0x304f524e" "field32 0x20 demo_nro = 0"
    "field32 0x24 demo_nro = 4" "field32 0x28 demo_nro = 16" "field32 0x2c demo_nro = 4" "field32 0x30 demo_nro = 20"
    "field32 0x34 demo_nro = 2" "field32 0x38 demo_nro = 9" "nro_segment demo_nro 1 = bytes32 0x304f524e"
    by (simp_all add: demo_nro_def field32_def nro_segment_def)
  have inside: "unat (field32 (0x20 + 8 * i) demo_nro) + unat (field32 (0x24 + 8 * i) demo_nro) \<le> length demo_nro"
    if "i < 3" for i
  proof -
    have "i = 0 \<or> i = 1 \<or> i = 2" using that by arith
    then show ?thesis by (elim disjE) (simp_all add: fields)
  qed
  have len: "0x80 \<le> length demo_nro"
    and total: "0x100 + unat (field32 0x24 demo_nro) + unat (field32 0x2c demo_nro) + unat (field32 0x34 demo_nro) < 2 ^ 32"
    by (simp_all only: fields) simp_all
  from nso_serves_nro_segments [OF VectorFile_stored len fields(2) inside total] obtain nso h
    where "NRONSO_Create (VectorFile demo_nro) = Inr nso" "File_Read nso 0 0x100 = Inr (NSOHeader_bytes h)"
      "File_Read nso (unat (sg_file_offset (nso_rodata_header h))) (unat (sg_decompressed_size (nso_rodata_header h))) =
         Inr (nro_segment demo_nro 1)" "nso_bss_size h = field32 0x38 demo_nro"
    unfolding Let_def by blast
  then show ?thesis unfolding fields(9,10) by blast
qed

text \<open>C35: what becomes of an NRO that arrived as a vector of bytes. A file shorter than the 16 bytes before its
  header is read outside of its memory, because the remaining size wraps; any other file that is too short for
  the header or has the wrong magic is refused; every other is accepted.\<close>

theorem nro_outcomes:
  "(NRONSO_Create (VectorFile v) = Inl Overrun \<longleftrightarrow> length v < 0x10) \<and>
   (NRONSO_Create (VectorFile v) = Inl (Code TWILI_ERR_INVALID_NRO None) \<longleftrightarrow>
      0x10 \<le> length v \<and> \<not> (0x80 \<le> length v \<and> field32 0x10 v = 0x304f524e)) \<and>
   ((\<exists>nso. NRONSO_Create (VectorFile v) = Inr nso) \<longleftrightarrow> 0x80 \<le> length v \<and> field32 0x10 v = 0x304f524e)"
proof (cases "length v < 0x10")
  case True
  have "size_sub (length v) 0x10 = 2 ^ 64 - (0x10 - length v)"
    by (rule size_sub_underflow) (use True in simp_all)
  then have "min (size_sub (length v) 0x10) 0x70 = 0x70" by simp
  then have "File_Read (VectorFile v) 0x10 0x70 = Inl Overrun" using True by (simp add: VectorFile_Read_def)
  then have "NRONSO_Create (VectorFile v) = Inl Overrun" by (simp add: NRONSO_Create_def NROHeader_Read_def)
  with True show ?thesis by simp
next
  case False
  have rd: "File_Read (VectorFile v) 0x10 0x70 = Inr (take 0x70 (drop 0x10 v))"
    by (rule stored_file.rd_slice [OF VectorFile_stored]) (use False in simp)
  have "nro_magic (NROHeader_of_bytes (take 0x70 (drop 0x10 v))) = field32 0x10 v"
    by (simp add: NROHeader_of_bytes_def field32_slice)
  with rd False show ?thesis
    by (cases "length v < 0x80") (auto simp: NRONSO_Create_def NROHeader_Read_def Let_def)
qed

section \<open>Opening files by name\<close>

lemma strncmp_eq_terminated:
  "0 \<notin> set p \<Longrightarrow> 0 \<notin> set name \<Longrightarrow> strncmp_eq (p @ 0 # rest) (name @ [0]) \<longleftrightarrow> p = name"
proof (induction p arbitrary: name)
  case Nil
  then show ?case by (cases name) auto
next
  case (Cons c p)
  then show ?case by (cases name) auto
qed

text \<open>For a path that is terminated inside its buffer the file system serves exactly its three files by
  their names; a name whose file is not set, and every other path, is reported as not existing.\<close>

theorem open_file_by_name:
  assumes "0 \<notin> set path"
  shows "OpenFile pfs (path @ 0 # rest) =
    (case (if path = str ''/main'' then pfs_main pfs else if path = str ''/rtld'' then pfs_rtld pfs
           else if path = str ''/main.npdm'' then pfs_npdm pfs else None)
     of None \<Rightarrow> Inl 0x202 | Some f \<Rightarrow> Inr f)"
proof -
  have names: "0 \<notin> set (str ''/main'')" "0 \<notin> set (str ''/rtld'')" "0 \<notin> set (str ''/main.npdm'')"
    by (simp_all add: str_def)
  show ?thesis
    by (simp only: OpenFile_def Let_def names [THEN strncmp_eq_terminated [OF assms]])
qed

theorem open_file_by_name_witness:
  "OpenFile \<lparr>pfs_rtld = None, pfs_main = Some (VectorFile [1]), pfs_npdm = Some (VectorFile [2])\<rparr>
     (str ''/main.npdm'' @ 0 # replicate 8 0xff) = Inr (VectorFile [2])"
proof -
  have "str ''/main.npdm'' \<noteq> str ''/main''" "str ''/main.npdm'' \<noteq> str ''/rtld''" "0 \<notin> set (str ''/main.npdm'')"
    by (simp_all add: str_def)
  with open_file_by_name [of "str ''/main.npdm''"] show ?thesis by simp
qed

end
