(* ===== verification/MonitoredProcess.thy ===== *)
theory MonitoredProcess
  imports TwibPipe ProcessFS
begin

text \<open>
  Monitored processes (src/twili/process: MonitoredProcess, ECSProcess, TrackedProcess, AppletProcess,
  ProcessMonitor; src/twili/bridge/interfaces/ITwibProcessMonitor).

  A process is an object: a \<open>shared_ptr\<close> to it is its index in a store, and one record has the members of
  all classes of the hierarchy. Monitors are objects too. A response that was opened and not yet given is its
  number; what the program tells the outside, and what it asks of the system, are events of a log. The answers
  of the system services are a parameter and may depend on the length of the log.
\<close>

section \<open>Data\<close>

datatype State = Created | Started | Attached | ShimSuspended | Running | Crashed | Exited

datatype Monitor = TrackerMonitor | BridgeMonitor nat

record Proc =
  pr_state :: State
  pr_result :: u32
  pr_suspended_launch_enabled :: bool
  pr_suspended_launch_cb :: "nat option"
  pr_monitors :: "Monitor list"
  pr_proc :: "u64 option"
  pr_target_entry :: u64
  pr_files :: "File list"
  pr_next_load_path :: "byte list"
  pr_next_load_argv :: "byte list"
  pr_argv :: "byte list"
  pr_stdin :: TwibPipe
  pr_stdout :: TwibPipe
  pr_stderr :: TwibPipe
  pr_exefs :: ProcessFileSystem
  pr_ecs_pending :: bool
  pr_run_opener :: "nat option"
  pr_exit_pending :: bool
  pr_kill_timeout :: bool
  pr_commands :: "u32 list"

text \<open>The bridge's monitor: the process it watches, the response that waits for the next state, and the states
  nobody has asked for yet.\<close>

record BridgeMon =
  bm_process :: nat
  bm_state_observer :: "nat option"
  bm_state_changes :: "State list"

datatype Pipe = PipeStdin | PipeStdout | PipeStderr

datatype PEvent =
    LaunchCb nat u32
  | OpenerOk nat u64
  | OpenerError nat u32
  | ObserverState nat State
  | EvPipe Pipe PipeEvent
  | SetECS nat
  | ClearECS nat
  | TerminateProcess u64
  | TerminateProgram u64
  | LaunchProgram u32
  | QueuedSignal
  | CommandSignal

datatype PStop = Abort u32 | BadFunctionCall | NullPointer | MemoryOverrun | OutOfFuel

record World =
  w_procs :: "nat \<Rightarrow> Proc"
  w_mons :: "nat \<Rightarrow> BridgeMon"
  w_next :: nat
  w_log :: "PEvent list"

text \<open>The services: result codes, the memory map of a process (type, permission, base of each region up to the
  end of the address space), and the files that can be opened.\<close>

record PEnv =
  pe_SetECS :: "nat \<Rightarrow> u32"
  pe_ClearECS :: "nat \<Rightarrow> u32"
  pe_AttachSession :: "nat \<Rightarrow> u32"
  pe_TerminateProcess :: "nat \<Rightarrow> u32"
  pe_LaunchProgram :: "nat \<Rightarrow> u32 + u64"
  pe_regions :: "u64 \<Rightarrow> (nat \<times> nat \<times> u64) list"
  pe_open :: "byte list \<Rightarrow> File option"
  pe_hbmenu_nro :: "u32 + File"
  pe_rtld :: File
  pe_npdm :: File
  pe_pipe_limit :: nat
  pe_version_5 :: bool

definition emit :: "PEvent \<Rightarrow> 'a World_scheme \<Rightarrow> 'a World_scheme" where
  "emit ev w = w\<lparr>w_log := w_log w @ [ev]\<rparr>"

definition at_time :: "'a World_scheme \<Rightarrow> nat" where
  "at_time w = length (w_log w)"

definition mod_proc :: "nat \<Rightarrow> (Proc \<Rightarrow> Proc) \<Rightarrow> 'a World_scheme \<Rightarrow> 'a World_scheme" where
  "mod_proc i f w = w\<lparr>w_procs := (w_procs w)(i := f (w_procs w i))\<rparr>"

definition mod_mon :: "nat \<Rightarrow> (BridgeMon \<Rightarrow> BridgeMon) \<Rightarrow> 'a World_scheme \<Rightarrow> 'a World_scheme" where
  "mod_mon k f w = w\<lparr>w_mons := (w_mons w)(k := f (w_mons w k))\<rparr>"

section \<open>Construction\<close>

definition Proc_new :: "PEnv \<Rightarrow> Proc" where
  "Proc_new env =
    \<lparr>pr_state = Created, pr_result = RESULT_OK, pr_suspended_launch_enabled = False,
     pr_suspended_launch_cb = None, pr_monitors = [], pr_proc = None, pr_target_entry = 0, pr_files = [],
     pr_next_load_path = [], pr_next_load_argv = [], pr_argv = [],
     pr_stdin = TwibPipe_new (pe_pipe_limit env), pr_stdout = TwibPipe_new (pe_pipe_limit env),
     pr_stderr = TwibPipe_new (pe_pipe_limit env),
     pr_exefs = SetNpdm (Some (pe_npdm env)) (SetRtld (Some (pe_rtld env))
                  \<lparr>pfs_rtld = None, pfs_main = None, pfs_npdm = None\<rparr>),
     pr_ecs_pending = False, pr_run_opener = None, pr_exit_pending = False,
     pr_kill_timeout = False, pr_commands = []\<rparr>"

definition CreateProcess :: "PEnv \<Rightarrow> 'a World_scheme \<Rightarrow> nat \<times> 'a World_scheme" where
  "CreateProcess env w =
    (w_next w, w\<lparr>w_procs := (w_procs w)(w_next w := Proc_new env), w_next := w_next w + 1\<rparr>)"

section \<open>Plain members\<close>

definition GetPid :: "Proc \<Rightarrow> u64" where
  "GetPid p = (case pr_proc p of None \<Rightarrow> 0 | Some pid \<Rightarrow> pid)"

definition GetResult :: "Proc \<Rightarrow> u32" where
  "GetResult p = (if pr_result p \<noteq> 0 then pr_result p else TWILI_ERR_UNSPECIFIED)"

definition AppendCode :: "nat \<Rightarrow> File \<Rightarrow> 'a World_scheme \<Rightarrow> 'a World_scheme" where
  "AppendCode i f = mod_proc i (\<lambda>p. p\<lparr>pr_files := pr_files p @ [f]\<rparr>)"

definition SetResult :: "nat \<Rightarrow> u32 \<Rightarrow> 'a World_scheme \<Rightarrow> 'a World_scheme" where
  "SetResult i r = mod_proc i (\<lambda>p. p\<lparr>pr_result := r\<rparr>)"

definition AddMonitor :: "nat \<Rightarrow> Monitor \<Rightarrow> 'a World_scheme \<Rightarrow> 'a World_scheme" where
  "AddMonitor i m = mod_proc i (\<lambda>p. p\<lparr>pr_monitors := pr_monitors p @ [m]\<rparr>)"

definition RemoveMonitor :: "nat \<Rightarrow> Monitor \<Rightarrow> 'a World_scheme \<Rightarrow> 'a World_scheme" where
  "RemoveMonitor i m = mod_proc i (\<lambda>p. p\<lparr>pr_monitors := filter (\<lambda>x. x \<noteq> m) (pr_monitors p)\<rparr>)"

definition SetNextLoadPath :: "nat \<Rightarrow> byte list \<Rightarrow> byte list \<Rightarrow> 'a World_scheme \<Rightarrow> 'a World_scheme" where
  "SetNextLoadPath i path argv = mod_proc i (\<lambda>p. p\<lparr>pr_next_load_path := path, pr_next_load_argv := argv\<rparr>)"

definition PushCommand :: "nat \<Rightarrow> u32 \<Rightarrow> 'a World_scheme \<Rightarrow> 'a World_scheme" where
  "PushCommand i c w = emit CommandSignal (mod_proc i (\<lambda>p. p\<lparr>pr_commands := pr_commands p @ [c]\<rparr>) w)"

definition PopCommand :: "nat \<Rightarrow> 'a World_scheme \<Rightarrow> u32 option \<times> 'a World_scheme" where
  "PopCommand i w =
    (case pr_commands (w_procs w i) of
       [] \<Rightarrow> (None, w)
     | c # cs \<Rightarrow> (Some c, mod_proc i (\<lambda>p. p\<lparr>pr_commands := cs\<rparr>) w))"

text \<open>Take the callback out of the process and call it. A call of an empty \<open>std::function\<close> throws.\<close>

definition take_launch_cb :: "nat \<Rightarrow> u32 \<Rightarrow> 'a World_scheme \<Rightarrow> PStop + 'a World_scheme" where
  "take_launch_cb i r w =
    (case pr_suspended_launch_cb (w_procs w i) of
       None \<Rightarrow> Inl BadFunctionCall
     | Some cb \<Rightarrow> Inr (emit (LaunchCb cb r) (mod_proc i (\<lambda>p. p\<lparr>pr_suspended_launch_cb := None\<rparr>) w)))"

section \<open>Changes of state\<close>

definition emit_all :: "Pipe \<Rightarrow> PipeEvent list \<Rightarrow> 'a World_scheme \<Rightarrow> 'a World_scheme" where
  "emit_all pipe evs w = w\<lparr>w_log := w_log w @ map (EvPipe pipe) evs\<rparr>"

definition close_pipes :: "nat \<Rightarrow> 'a World_scheme \<Rightarrow> 'a World_scheme" where
  "close_pipes i w =
    (let (p0, e0) = CloseReader (pr_stdin (w_procs w i));
         (p1, e1) = CloseWriter (pr_stdout (w_procs w i));
         (p2, e2) = CloseWriter (pr_stderr (w_procs w i))
     in emit_all PipeStderr e2 (emit_all PipeStdout e1 (emit_all PipeStdin e0
          (mod_proc i (\<lambda>p. p\<lparr>pr_stdin := p0, pr_stdout := p1, pr_stderr := p2\<rparr>) w))))"

text \<open>\<open>MonitoredProcess::ChangeState\<close> up to the monitors.\<close>

definition enter_state :: "nat \<Rightarrow> State \<Rightarrow> 'a World_scheme \<Rightarrow> 'a World_scheme" where
  "enter_state i st w =
    (let w1 = (if st = Exited then close_pipes i w else w);
         w2 = (if st = Exited
               then (case take_launch_cb i TWILI_ERR_NO_LONGER_REQUESTED_TO_LAUNCH w1 of Inl _ \<Rightarrow> w1 | Inr w' \<Rightarrow> w')
               else w1)
     in mod_proc i (\<lambda>p. p\<lparr>pr_state := st\<rparr>) w2)"

definition bridge_StateChanged :: "nat \<Rightarrow> State \<Rightarrow> 'a World_scheme \<Rightarrow> 'a World_scheme" where
  "bridge_StateChanged k st w =
    (case bm_state_observer (w_mons w k) of
       Some obs \<Rightarrow> emit (ObserverState obs st) (mod_mon k (\<lambda>m. m\<lparr>bm_state_observer := None\<rparr>) w)
     | None \<Rightarrow> mod_mon k (\<lambda>m. m\<lparr>bm_state_changes := bm_state_changes m @ [st]\<rparr>) w)"

text \<open>The part of \<open>ECSProcess::ChangeState\<close> after its base class.\<close>

definition after_state_ecs :: "PEnv \<Rightarrow> nat \<Rightarrow> State \<Rightarrow> 'a World_scheme \<Rightarrow> PStop + 'a World_scheme" where
  "after_state_ecs env i st w =
    (let w1 = (if st = Attached then mod_proc i (\<lambda>p. p\<lparr>pr_ecs_pending := False\<rparr>) w else w) in
     if st = Exited \<and> pr_ecs_pending (w_procs w1 i) then
       (if pe_ClearECS env (at_time w1) \<noteq> RESULT_OK then Inl (Abort (pe_ClearECS env (at_time w1)))
        else Inr (emit (ClearECS i) w1))
     else Inr w1)"

text \<open>The walk over the memory regions: how many are code, and the base of the second that is.\<close>

definition is_code :: "nat \<times> nat \<times> u64 \<Rightarrow> bool" where
  "is_code = (\<lambda>(memory_type, permission, base). memory_type = 3 \<and> permission = 5)"

fun find_code :: "(nat \<times> nat \<times> u64) list \<Rightarrow> nat \<Rightarrow> u64 \<Rightarrow> nat \<times> u64" where
  "find_code [] found entry = (found, entry)"
| "find_code (r # rs) found entry =
    (if is_code r then find_code rs (found + 1) (if found + 1 = 2 then snd (snd r) else entry)
     else find_code rs found entry)"

text \<open>The part of \<open>TrackedProcessBase::ChangeState\<close> after its base class.\<close>

definition after_state_tracked :: "PEnv \<Rightarrow> nat \<Rightarrow> State \<Rightarrow> 'a World_scheme \<Rightarrow> PStop + 'a World_scheme" where
  "after_state_tracked env i st w =
    (if st = Attached then
       (let w1 = (case pr_run_opener (w_procs w i) of
                    None \<Rightarrow> w
                  | Some opener \<Rightarrow>
                      emit (OpenerOk opener (GetPid (w_procs w i))) (mod_proc i (\<lambda>p. p\<lparr>pr_run_opener := None\<rparr>) w))
        in case pr_proc (w_procs w1 i) of
             None \<Rightarrow> Inl NullPointer
           | Some pid \<Rightarrow>
               (let (found, entry) = find_code (pe_regions env pid) 0 (pr_target_entry (w_procs w1 i));
                    w2 = mod_proc i (\<lambda>p. p\<lparr>pr_target_entry := entry\<rparr>) w1
                in if found \<noteq> 2 then Inl (Abort TWILI_ERR_ECS_CONFUSED) else Inr w2))
     else if st = Exited then
       (case pr_run_opener (w_procs w i) of
          None \<Rightarrow> Inr w
        | Some opener \<Rightarrow>
            Inr (emit (OpenerError opener (GetResult (w_procs w i))) (mod_proc i (\<lambda>p. p\<lparr>pr_run_opener := None\<rparr>) w)))
     else Inr w)"

section \<open>Launching\<close>

definition ECS_PrepareForLaunch :: "PEnv \<Rightarrow> nat \<Rightarrow> 'a World_scheme \<Rightarrow> PStop + u32 \<times> 'a World_scheme" where
  "ECS_PrepareForLaunch env i w =
    (case pr_files (w_procs w i) of
       [] \<Rightarrow> Inr (TWILI_ERR_NO_MODULES, w)
     | nro # more_files \<Rightarrow>
         if more_files \<noteq> [] then Inr (TWILI_ERR_TOO_MANY_MODULES, w)
         else
           (case NRONSO_Create nro of
              Inl Overrun \<Rightarrow> Inl MemoryOverrun
            | Inl (Code c _) \<Rightarrow> Inr (c, w)
            | Inr transmutation \<Rightarrow>
                (let w1 = mod_proc i (\<lambda>p. p\<lparr>pr_exefs := SetMain (Some transmutation) (pr_exefs p)\<rparr>) w;
                     r = pe_SetECS env (at_time w1)
                 in if r \<noteq> RESULT_OK then Inr (r, w1)
                    else
                      (let w2 = mod_proc i (\<lambda>p. p\<lparr>pr_ecs_pending := True\<rparr>) (emit (SetECS i) w1) in
                       if pe_AttachSession env (at_time w2) \<noteq> RESULT_OK
                       then Inl (Abort (pe_AttachSession env (at_time w2)))
                       else Inr (RESULT_OK, w2)))))"

text \<open>The rest of \<open>MonitoredProcess::Terminate\<close> once the process is not in \<open>Created\<close>.\<close>

definition terminate_rest :: "PEnv \<Rightarrow> nat \<Rightarrow> 'a World_scheme \<Rightarrow> PStop + 'a World_scheme" where
  "terminate_rest env i w =
    sum_bind (if pr_state (w_procs w i) = ShimSuspended
              then take_launch_cb i TWILI_ERR_NO_LONGER_REQUESTED_TO_LAUNCH w else Inr w)
      (\<lambda>w1.
        if pr_state (w_procs w1 i) = Exited then Inr w1
        else (case pr_proc (w_procs w1 i) of
                None \<Rightarrow> Inr w1
              | Some pid \<Rightarrow>
                  if pe_TerminateProcess env (at_time w1) \<noteq> RESULT_OK
                  then Inl (Abort (pe_TerminateProcess env (at_time w1)))
                  else Inr (emit (TerminateProcess pid) w1)))"

text \<open>\<open>AppletProcess::KillImpl\<close> arms the timeout and asks the applet to exit; \<open>ShellProcess::KillImpl\<close> asks
  the shell.\<close>

definition applet_KillImpl :: "nat \<Rightarrow> 'a World_scheme \<Rightarrow> 'a World_scheme" where
  "applet_KillImpl i w = PushCommand i 0 (mod_proc i (\<lambda>p. p\<lparr>pr_kill_timeout := True\<rparr>) w)"

definition shell_KillImpl :: "nat \<Rightarrow> 'a World_scheme \<Rightarrow> 'a World_scheme" where
  "shell_KillImpl i w = emit (TerminateProgram (GetPid (w_procs w i))) w"

section \<open>The bridge's monitor\<close>

definition WaitStateChange :: "nat \<Rightarrow> nat \<Rightarrow> 'a World_scheme \<Rightarrow> 'a World_scheme" where
  "WaitStateChange k opener w =
    (case bm_state_changes (w_mons w k) of
       st # rest \<Rightarrow> emit (ObserverState opener st) (mod_mon k (\<lambda>m. m\<lparr>bm_state_changes := rest\<rparr>) w)
     | [] \<Rightarrow>
         (let w1 = (case bm_state_observer (w_mons w k) of
                      Some obs \<Rightarrow> emit (OpenerError obs TWILI_ERR_INTERRUPTED) w
                    | None \<Rightarrow> w)
          in mod_mon k (\<lambda>m. m\<lparr>bm_state_observer := Some opener\<rparr>) w1))"

end
