(* ===== verification/AppletTracker.thy ===== *)
theory AppletTracker
  imports MonitoredProcess
begin

text \<open>
  \<open>AppletTracker\<close> (src/twili/process/AppletTracker.cpp) with the virtual functions of \<open>AppletProcess\<close>, the
  services that call it (IAppletShimControlImpl, IAppletController, IHBABIShim) and the process monitor of the
  bridge.

  A change of state notifies monitors, the tracker's own monitor may queue the next program, and queueing may
  kill the home menu, which changes a state: the functions call each other, so they take fuel. Reachable states
  need little of it, because the tracker never has a home menu between two operations.
\<close>

section \<open>State\<close>

record AWorld = World +
  at_queued :: "nat list"
  at_created :: "nat list"
  at_has_control_process :: bool
  at_hbmenu :: "nat option"
  at_hbmenu_nro :: "File option"
  at_monitor_process :: "nat option"
  at_monitored_processes :: "nat list"

type_synonym applet_result = "PStop + AWorld"

definition AWorld_new :: "PEnv \<Rightarrow> AWorld" where
  "AWorld_new env =
    \<lparr>w_procs = (\<lambda>_. Proc_new env), w_mons = (\<lambda>_. \<lparr>bm_process = 0, bm_state_observer = None, bm_state_changes = []\<rparr>),
     w_next = 0, w_log = [], at_queued = [], at_created = [], at_has_control_process = False, at_hbmenu = None,
     at_hbmenu_nro = None, at_monitor_process = None, at_monitored_processes = []\<rparr>"

definition ReadyToLaunch :: "AWorld \<Rightarrow> bool" where
  "ReadyToLaunch w \<longleftrightarrow> at_created w = [] \<and>
    (case at_monitor_process w of None \<Rightarrow> True | Some i \<Rightarrow> pr_state (w_procs w i) = Exited)"

definition signal_if_ready :: "AWorld \<Rightarrow> AWorld" where
  "signal_if_ready w = (if ReadyToLaunch w then emit QueuedSignal w else w)"

definition Reattach :: "nat option \<Rightarrow> AWorld \<Rightarrow> AWorld" where
  "Reattach new_process w =
    (let w1 = (case at_monitor_process w of None \<Rightarrow> w | Some i \<Rightarrow> RemoveMonitor i TrackerMonitor w);
         w2 = w1\<lparr>at_monitor_process := new_process\<rparr>
     in case new_process of None \<Rightarrow> w2 | Some i \<Rightarrow> AddMonitor i TrackerMonitor w2)"

text \<open>The path on the card that \<open>HBLLoad\<close> opens: 0x301 bytes with the terminator.\<close>

definition transmute_path :: "byte list \<Rightarrow> byte list" where
  "transmute_path path =
    take 0x300 (str ''/sd/'' @ (if take 6 path = str ''sdmc:/'' then drop 6 path else path))"

section \<open>The recursive operations\<close>

text \<open>\<open>change\<close> is the virtual function \<open>ChangeState\<close> that the others call.\<close>

type_synonym change = "nat \<Rightarrow> State \<Rightarrow> AWorld \<Rightarrow> applet_result"

definition Kill :: "change \<Rightarrow> nat \<Rightarrow> AWorld \<Rightarrow> applet_result" where
  "Kill change i w =
    (case pr_state (w_procs w i) of
       Created \<Rightarrow> change i Exited w
     | Started \<Rightarrow> Inr (mod_proc i (\<lambda>p. p\<lparr>pr_exit_pending := True\<rparr>) w)
     | ShimSuspended \<Rightarrow> take_launch_cb i TWILI_ERR_NO_LONGER_REQUESTED_TO_LAUNCH w
     | Exited \<Rightarrow> Inr w
     | _ \<Rightarrow> Inr (applet_KillImpl i w))"

definition QueueLaunch :: "change \<Rightarrow> nat \<Rightarrow> AWorld \<Rightarrow> applet_result" where
  "QueueLaunch change i w =
    sum_bind (case at_hbmenu w of None \<Rightarrow> Inr w | Some h \<Rightarrow> Kill change h w)
      (\<lambda>w1. Inr (signal_if_ready (w1\<lparr>at_queued := at_queued w1 @ [i]\<rparr>)))"

definition HBLLoad :: "change \<Rightarrow> PEnv \<Rightarrow> byte list \<Rightarrow> byte list \<Rightarrow> AWorld \<Rightarrow> applet_result" where
  "HBLLoad change env path argv w =
    (case pe_open env (transmute_path path) of
       None \<Rightarrow> Inr w
     | Some f \<Rightarrow>
         (let (i, w1) = CreateProcess env w;
              w2 = AppendCode i f w1;
              w3 = mod_proc i (\<lambda>p. p\<lparr>pr_argv := argv\<rparr>) w2
          in QueueLaunch change i w3))"

definition tracker_StateChanged :: "change \<Rightarrow> PEnv \<Rightarrow> State \<Rightarrow> AWorld \<Rightarrow> applet_result" where
  "tracker_StateChanged change env st w =
    (let w1 = signal_if_ready w in
     if st \<noteq> Exited then Inr w1
     else
       (case at_monitor_process w1 of
          None \<Rightarrow> Inl NullPointer
        | Some i \<Rightarrow>
            (let w2 = (if at_hbmenu w1 = Some i then w1\<lparr>at_hbmenu := None\<rparr> else w1) in
             sum_bind
               (if pr_next_load_path (w_procs w2 i) \<noteq> []
                then HBLLoad change env (pr_next_load_path (w_procs w2 i)) (pr_next_load_argv (w_procs w2 i)) w2
                else Inr w2)
               (\<lambda>w3. Inr (Reattach None w3)))))"

fun notify :: "change \<Rightarrow> PEnv \<Rightarrow> State \<Rightarrow> Monitor list \<Rightarrow> AWorld \<Rightarrow> applet_result" where
  "notify change env st [] w = Inr w"
| "notify change env st (BridgeMonitor k # ms) w = notify change env st ms (bridge_StateChanged k st w)"
| "notify change env st (TrackerMonitor # ms) w =
    sum_bind (tracker_StateChanged change env st w) (notify change env st ms)"

primrec ChangeState :: "nat \<Rightarrow> PEnv \<Rightarrow> change" where
  "ChangeState 0 = (\<lambda>env i st w. Inl OutOfFuel)"
| "ChangeState (Suc n) = (\<lambda>env i st w.
    let w1 = enter_state i st w in
     sum_bind (notify (ChangeState n env) env st (pr_monitors (w_procs w1 i)) w1) (\<lambda>w2.
     sum_bind (after_state_ecs env i st w2) (\<lambda>w3.
     sum_bind (after_state_tracked env i st w3) (\<lambda>w4.
     Inr (if st = Exited then mod_proc i (\<lambda>p. p\<lparr>pr_kill_timeout := False\<rparr>) w4 else w4)))))"

section \<open>Operations on processes\<close>

definition Terminate :: "nat \<Rightarrow> PEnv \<Rightarrow> nat \<Rightarrow> AWorld \<Rightarrow> applet_result" where
  "Terminate n env i w =
    (if pr_state (w_procs w i) = Created then ChangeState n env i Exited w else terminate_rest env i w)"

definition Continue :: "nat \<Rightarrow> PEnv \<Rightarrow> nat \<Rightarrow> AWorld \<Rightarrow> applet_result" where
  "Continue n env i w =
    (if pr_state (w_procs w i) = ShimSuspended
     then sum_bind (ChangeState n env i Running w) (take_launch_cb i RESULT_OK)
     else Inr (mod_proc i (\<lambda>p. p\<lparr>pr_suspended_launch_enabled := False\<rparr>) w))"

definition WaitToStart :: "nat \<Rightarrow> PEnv \<Rightarrow> nat \<Rightarrow> nat \<Rightarrow> AWorld \<Rightarrow> applet_result" where
  "WaitToStart n env i cb w =
    (if pr_suspended_launch_enabled (w_procs w i)
     then sum_bind (ChangeState n env i ShimSuspended w)
            (\<lambda>w1. Inr (mod_proc i (\<lambda>p. p\<lparr>pr_suspended_launch_cb := Some cb\<rparr>) w1))
     else sum_bind (ChangeState n env i Running w) (\<lambda>w1. Inr (emit (LaunchCb cb RESULT_OK) w1)))"

definition Attach :: "nat \<Rightarrow> PEnv \<Rightarrow> nat \<Rightarrow> u64 \<Rightarrow> AWorld \<Rightarrow> applet_result" where
  "Attach n env i pid w =
    (if pr_proc (w_procs w i) \<noteq> None then Inl (Abort TWILI_ERR_MONITORED_PROCESS_ALREADY_ATTACHED)
     else ChangeState n env i Attached (mod_proc i (\<lambda>p. p\<lparr>pr_proc := Some pid\<rparr>) w))"

definition Launch :: "nat \<Rightarrow> PEnv \<Rightarrow> nat \<Rightarrow> nat \<Rightarrow> AWorld \<Rightarrow> applet_result" where
  "Launch n env i opener w =
    sum_bind (ChangeState n env i Started (mod_proc i (\<lambda>p. p\<lparr>pr_run_opener := Some opener\<rparr>) w))
      (QueueLaunch (ChangeState n env) i)"

definition LaunchSuspended :: "nat \<Rightarrow> PEnv \<Rightarrow> nat \<Rightarrow> nat \<Rightarrow> AWorld \<Rightarrow> applet_result" where
  "LaunchSuspended n env i opener w =
    Launch n env i opener (mod_proc i (\<lambda>p. p\<lparr>pr_suspended_launch_enabled := True\<rparr>) w)"

definition PrepareForLaunch :: "nat \<Rightarrow> PEnv \<Rightarrow> nat \<Rightarrow> AWorld \<Rightarrow> PStop + u32 \<times> AWorld" where
  "PrepareForLaunch n env i w =
    (if pr_exit_pending (w_procs w i)
     then sum_bind (ChangeState n env i Exited w) (\<lambda>w1. Inr (TWILI_ERR_NO_LONGER_REQUESTED_TO_LAUNCH, w1))
     else ECS_PrepareForLaunch env i w)"

definition kill_timeout_expired :: "nat \<Rightarrow> PEnv \<Rightarrow> nat \<Rightarrow> AWorld \<Rightarrow> applet_result" where
  "kill_timeout_expired n env i w =
    sum_bind (Terminate n env i w) (\<lambda>w1. Inr (mod_proc i (\<lambda>p. p\<lparr>pr_kill_timeout := False\<rparr>) w1))"

section \<open>The control process\<close>

definition AttachControlProcess :: "AWorld \<Rightarrow> applet_result" where
  "AttachControlProcess w =
    (if at_has_control_process w then Inl (Abort TWILI_ERR_APPLET_TRACKER_INVALID_STATE)
     else Inr ((emit QueuedSignal w)\<lparr>at_has_control_process := True\<rparr>))"

fun exit_all :: "nat \<Rightarrow> PEnv \<Rightarrow> nat list \<Rightarrow> AWorld \<Rightarrow> applet_result" where
  "exit_all n env [] w = Inr w"
| "exit_all n env (i # is) w = sum_bind (ChangeState n env i Exited w) (exit_all n env is)"

definition ReleaseControlProcess :: "nat \<Rightarrow> PEnv \<Rightarrow> AWorld \<Rightarrow> applet_result" where
  "ReleaseControlProcess n env w =
    (if \<not> at_has_control_process w then Inl (Abort TWILI_ERR_APPLET_TRACKER_INVALID_STATE)
     else
       sum_bind (exit_all n env (at_created w) (w\<lparr>at_has_control_process := False\<rparr>)) (\<lambda>w1.
       sum_bind
         (case at_hbmenu w1 of
            None \<Rightarrow> Inr w1
          | Some h \<Rightarrow> sum_bind (Terminate n env h w1) (ChangeState n env h Exited))
         (\<lambda>w2. Inr (w2\<lparr>at_created := []\<rparr>))))"

definition CreateHbmenu :: "PEnv \<Rightarrow> AWorld \<Rightarrow> PStop + nat \<times> AWorld" where
  "CreateHbmenu env w =
    (let (i, w1) = CreateProcess env w in
     sum_bind
       (case at_hbmenu_nro w1 of
          Some f \<Rightarrow> Inr (f, w1)
        | None \<Rightarrow>
            (case pe_hbmenu_nro env of
               Inl e \<Rightarrow> Inl (Abort e)
             | Inr f \<Rightarrow> Inr (f, w1\<lparr>at_hbmenu_nro := Some f\<rparr>)))
       (\<lambda>(f, w2). Inr (i, mod_proc i (\<lambda>p. p\<lparr>pr_argv := str ''sdmc:/hbmenu.nro''\<rparr>) (AppendCode i f w2))))"

text \<open>\<open>*out = std::move (hbmenu)\<close> leaves \<open>hbmenu\<close> empty.\<close>

definition pop_hbmenu :: "nat \<Rightarrow> PEnv \<Rightarrow> AWorld \<Rightarrow> PStop + (u32 + nat) \<times> AWorld" where
  "pop_hbmenu n env w =
    sum_bind (CreateHbmenu env w) (\<lambda>(h, w1).
    sum_bind (PrepareForLaunch n env h (w1\<lparr>at_hbmenu := Some h\<rparr>)) (\<lambda>(r, w2).
      if r \<noteq> RESULT_OK then Inl (Abort r)
      else Inr (Inr h, w2\<lparr>at_created := at_created w2 @ [h], at_hbmenu := None\<rparr>)))"

fun PopQueuedProcess :: "nat \<Rightarrow> PEnv \<Rightarrow> AWorld \<Rightarrow> PStop + (u32 + nat) \<times> AWorld" where
  "PopQueuedProcess 0 env w = Inl OutOfFuel"
| "PopQueuedProcess (Suc n) env w =
    (case at_queued w of
       [] \<Rightarrow> pop_hbmenu n env w
     | i # rest \<Rightarrow>
         sum_bind (PrepareForLaunch n env i (w\<lparr>at_queued := rest\<rparr>)) (\<lambda>(r, w1).
           if r = TWILI_ERR_NO_LONGER_REQUESTED_TO_LAUNCH then PopQueuedProcess n env w1
           else if r \<noteq> RESULT_OK then Inr (Inl r, w1)
           else Inr (Inr i, w1\<lparr>at_created := at_created w1 @ [i]\<rparr>)))"

definition GetCommand :: "AWorld \<Rightarrow> u32 + u32" where
  "GetCommand w = (if ReadyToLaunch w then Inr 0 else Inl TWILI_ERR_APPLET_SHIM_NO_COMMANDS_LEFT)"

section \<open>The host process\<close>

definition AttachHostProcess :: "nat \<Rightarrow> PEnv \<Rightarrow> u64 \<Rightarrow> AWorld \<Rightarrow> PStop + nat \<times> AWorld" where
  "AttachHostProcess n env pid w =
    (case at_created w of
       [] \<Rightarrow> Inl (Abort TWILI_ERR_TRACKER_NO_PROCESSES_CREATED)
     | i # _ \<Rightarrow>
         sum_bind (Attach n env i pid w) (\<lambda>w1.
           Inr (i, signal_if_ready (Reattach (Some i) (w1\<lparr>at_created := tl (at_created w1)\<rparr>)))))"

text \<open>The destructor of \<open>IAppletController\<close>.\<close>

definition controller_closed :: "nat \<Rightarrow> PEnv \<Rightarrow> nat \<Rightarrow> AWorld \<Rightarrow> applet_result" where
  "controller_closed n env i w = ChangeState n env i Exited w"

section \<open>The bridge\<close>

definition monitor_new :: "nat \<Rightarrow> nat \<Rightarrow> AWorld \<Rightarrow> AWorld" where
  "monitor_new k i w =
    AddMonitor i (BridgeMonitor k)
      (mod_mon k (\<lambda>_. \<lparr>bm_process = i, bm_state_observer = None, bm_state_changes = []\<rparr>) w)"

definition monitor_destroy :: "nat \<Rightarrow> PEnv \<Rightarrow> nat \<Rightarrow> AWorld \<Rightarrow> applet_result" where
  "monitor_destroy n env k w =
    (let i = bm_process (w_mons w k) in
     sum_bind (Kill (ChangeState n env) i w) (\<lambda>w1. Inr (RemoveMonitor i (BridgeMonitor k) w1)))"

definition monitor_Launch :: "nat \<Rightarrow> PEnv \<Rightarrow> nat \<Rightarrow> nat \<Rightarrow> AWorld \<Rightarrow> applet_result" where
  "monitor_Launch n env k opener w =
    (let i = bm_process (w_mons w k) in
     if pr_state (w_procs w i) = Created
     then Launch n env i opener (w\<lparr>at_monitored_processes := at_monitored_processes w @ [i]\<rparr>)
     else Inr (emit (OpenerError opener TWILI_ERR_INVALID_PROCESS_STATE) w))"

definition monitor_LaunchSuspended :: "nat \<Rightarrow> PEnv \<Rightarrow> nat \<Rightarrow> nat \<Rightarrow> AWorld \<Rightarrow> applet_result" where
  "monitor_LaunchSuspended n env k opener w =
    (let i = bm_process (w_mons w k) in
     if pr_state (w_procs w i) = Created
     then LaunchSuspended n env i opener (w\<lparr>at_monitored_processes := at_monitored_processes w @ [i]\<rparr>)
     else Inr (emit (OpenerError opener TWILI_ERR_INVALID_PROCESS_STATE) w))"

end
