(* ===== verification/AppletTrackerInv.thy ===== *)
theory AppletTrackerInv
  imports AppletTracker
begin

text \<open>
  The invariant of the applet tracker and its preservation by every operation: no home menu is kept, the
  tracker's monitor is attached to exactly the process it names, queued and created processes are different
  processes that are not attached, and only created or dead processes hold an external content source.
\<close>

section \<open>Invariant\<close>

definition waiting :: "AWorld \<Rightarrow> nat list" where
  "waiting w = at_queued w @ at_created w"

definition tracker_monitors :: "Proc \<Rightarrow> Monitor list" where
  "tracker_monitors p = filter (\<lambda>m. m = TrackerMonitor) (pr_monitors p)"

definition bridged :: "Proc \<Rightarrow> bool" where
  "bridged p \<longleftrightarrow> (\<exists>k. BridgeMonitor k \<in> set (pr_monitors p))"

text \<open>What holds of each process, given whether it waits, is created, or is watched by the tracker.\<close>

definition proc_inv :: "bool \<Rightarrow> bool \<Rightarrow> bool \<Rightarrow> Proc \<Rightarrow> bool" where
  "proc_inv waits created watched p \<longleftrightarrow>
     tracker_monitors p = (if watched then [TrackerMonitor] else []) \<and>
     (waits \<longrightarrow> pr_proc p = None) \<and>
     (waits \<and> pr_state p = Created \<longrightarrow> \<not> bridged p) \<and>
     (pr_ecs_pending p \<longrightarrow> pr_proc p = None \<and> (created \<or> pr_state p = Exited)) \<and>
     (pr_state p = ShimSuspended \<longrightarrow> pr_proc p \<noteq> None) \<and>
     (pr_state p = Created \<longrightarrow> pr_proc p = None)"

definition all_procs :: "AWorld \<Rightarrow> bool" where
  "all_procs w \<longleftrightarrow> (\<forall>i. proc_inv (i \<in> set (waiting w)) (i \<in> set (at_created w)) (at_monitor_process w = Some i) (w_procs w i))"

definition fresh_procs :: "AWorld \<Rightarrow> bool" where
  "fresh_procs w \<longleftrightarrow> (\<forall>i \<ge> w_next w. pr_monitors (w_procs w i) = []) \<and>
     (\<forall>i \<in> set (waiting w). i < w_next w)"

definition tracker_inv :: "AWorld \<Rightarrow> bool" where
  "tracker_inv w \<longleftrightarrow> at_hbmenu w = None \<and> distinct (waiting w) \<and> all_procs w \<and> fresh_procs w"

text \<open>The invariant reads only these parts of the world.\<close>

definition same_tracker :: "AWorld \<Rightarrow> AWorld \<Rightarrow> bool" where
  "same_tracker w v \<longleftrightarrow> at_hbmenu v = at_hbmenu w \<and> at_queued v = at_queued w \<and> at_created v = at_created w \<and>
     at_monitor_process v = at_monitor_process w \<and> w_next v = w_next w"

definition same_proc :: "Proc \<Rightarrow> Proc \<Rightarrow> bool" where
  "same_proc p q \<longleftrightarrow> pr_state q = pr_state p \<and> pr_monitors q = pr_monitors p \<and> pr_proc q = pr_proc p \<and>
     pr_ecs_pending q = pr_ecs_pending p"

definition same_view :: "AWorld \<Rightarrow> AWorld \<Rightarrow> bool" where
  "same_view w v \<longleftrightarrow> same_tracker w v \<and> (\<forall>i. same_proc (w_procs w i) (w_procs v i))"

named_theorems view

lemma same_view_refl [view]: "same_view w w"
  by (simp add: same_view_def same_tracker_def same_proc_def)

lemma same_view_trans [trans]: "same_view u v \<Longrightarrow> same_view v w \<Longrightarrow> same_view u w"
  by (simp add: same_view_def same_tracker_def same_proc_def)

lemma same_view_inv: "same_view w v \<Longrightarrow> tracker_inv w \<Longrightarrow> tracker_inv v"
  by (simp add: same_view_def same_tracker_def same_proc_def tracker_inv_def waiting_def all_procs_def
      fresh_procs_def proc_inv_def tracker_monitors_def bridged_def)

lemma emit_view [view]: "same_view w (emit ev w)"
  by (simp add: same_view_def same_tracker_def same_proc_def emit_def)

lemma emit_all_view [view]: "same_view w (emit_all pipe evs w)"
  by (simp add: same_view_def same_tracker_def same_proc_def emit_all_def)

lemma mod_mon_view [view]: "same_view w (mod_mon k f w)"
  by (simp add: same_view_def same_tracker_def same_proc_def mod_mon_def)

lemma mod_proc_view: "(\<And>p. same_proc p (f p)) \<Longrightarrow> same_view w (mod_proc i f w)"
  by (simp add: same_view_def same_tracker_def mod_proc_def same_proc_def)

lemma take_launch_cb_view: "take_launch_cb i r w = Inr v \<Longrightarrow> same_view w v"
  using same_view_trans [OF mod_proc_view emit_view]
  by (auto simp: take_launch_cb_def same_proc_def split: option.splits)

lemma close_pipes_view [view]: "same_view w (close_pipes i w)"
proof -
  obtain p0 e0 p1 e1 p2 e2 where "CloseReader (pr_stdin (w_procs w i)) = (p0, e0)"
    "CloseWriter (pr_stdout (w_procs w i)) = (p1, e1)" "CloseWriter (pr_stderr (w_procs w i)) = (p2, e2)"
    by (metis surj_pair)
  then show ?thesis
    by (simp add: close_pipes_def same_view_def same_tracker_def same_proc_def emit_all_def mod_proc_def)
qed

lemma bridge_StateChanged_view [view]: "same_view w (bridge_StateChanged k st w)"
  using same_view_trans [OF mod_mon_view emit_view]
  by (simp add: bridge_StateChanged_def mod_mon_view split: option.split)

section \<open>Changing a state\<close>

lemma enter_state_eq:
  "\<exists>v. same_view w v \<and> enter_state i st w = mod_proc i (\<lambda>p. p\<lparr>pr_state := st\<rparr>) v"
proof (cases "st = Exited")
  case True
  show ?thesis
  proof (cases "take_launch_cb i TWILI_ERR_NO_LONGER_REQUESTED_TO_LAUNCH (close_pipes i w)")
    case (Inl e)
    with True show ?thesis
      by (intro exI [of _ "close_pipes i w"]) (simp add: enter_state_def close_pipes_view)
  next
    case (Inr v)
    with True same_view_trans [OF close_pipes_view take_launch_cb_view [OF Inr]] show ?thesis
      by (intro exI [of _ v]) (simp add: enter_state_def)
  qed
next
  case False
  then show ?thesis by (intro exI [of _ w]) (simp add: enter_state_def same_view_refl)
qed

lemma set_state_inv:
  assumes "tracker_inv w" and "st \<noteq> Created"
    and "pr_ecs_pending (w_procs w i) \<Longrightarrow> i \<in> set (at_created w) \<or> st = Exited"
    and "st = ShimSuspended \<Longrightarrow> pr_proc (w_procs w i) \<noteq> None"
  shows "tracker_inv (mod_proc i (\<lambda>p. p\<lparr>pr_state := st\<rparr>) w)"
  using assms
  by (auto simp: tracker_inv_def waiting_def all_procs_def fresh_procs_def mod_proc_def proc_inv_def
      tracker_monitors_def bridged_def)

text \<open>When a process may enter a state.\<close>

definition may_enter :: "AWorld \<Rightarrow> nat \<Rightarrow> State \<Rightarrow> bool" where
  "may_enter w i st \<longleftrightarrow> st \<noteq> Created \<and>
     (pr_ecs_pending (w_procs w i) \<longrightarrow> i \<in> set (at_created w) \<or> st = Exited) \<and>
     (st = ShimSuspended \<longrightarrow> pr_proc (w_procs w i) \<noteq> None)"

lemma may_enter_view: "same_view w v \<Longrightarrow> may_enter v i st = may_enter w i st"
  by (simp add: may_enter_def same_view_def same_tracker_def same_proc_def)

lemma enter_state_inv: "tracker_inv w \<Longrightarrow> may_enter w i st \<Longrightarrow> tracker_inv (enter_state i st w)"
proof -
  assume inv: "tracker_inv w" and may: "may_enter w i st"
  obtain v where v: "same_view w v" "enter_state i st w = mod_proc i (\<lambda>p. p\<lparr>pr_state := st\<rparr>) v"
    using enter_state_eq by blast
  have "tracker_inv v" "may_enter v i st"
    using same_view_inv [OF v(1) inv] may may_enter_view [OF v(1)] by simp_all
  then show ?thesis unfolding v(2) by (intro set_state_inv) (auto simp: may_enter_def)
qed

lemma signal_if_ready_view [view]: "same_view w (signal_if_ready w)"
  by (simp add: signal_if_ready_def view)

lemma Reattach_None_inv: "tracker_inv w \<Longrightarrow> tracker_inv (Reattach None w)"
  by (auto simp: Reattach_def RemoveMonitor_def mod_proc_def tracker_inv_def waiting_def all_procs_def
      fresh_procs_def proc_inv_def tracker_monitors_def bridged_def split: option.splits)

lemma monitor_allocated: "tracker_inv w \<Longrightarrow> at_monitor_process w = Some i \<Longrightarrow> i < w_next w"
proof (rule ccontr)
  assume inv: "tracker_inv w" and mon: "at_monitor_process w = Some i" and "\<not> i < w_next w"
  then have "tracker_monitors (w_procs w i) = []"
    by (simp add: tracker_inv_def fresh_procs_def tracker_monitors_def)
  moreover have "tracker_monitors (w_procs w i) = [TrackerMonitor]"
    using inv mon by (simp add: tracker_inv_def all_procs_def proc_inv_def)
  ultimately show False by simp
qed

lemma CreateProcess_inv:
  assumes inv: "tracker_inv w" and new: "CreateProcess env w = (i, v)"
  shows "tracker_inv v" and "i < w_next v" and "i \<notin> set (waiting v)" and "w_procs v i = Proc_new env"
    and "at_monitor_process v \<noteq> Some i" and "at_hbmenu v = None"
proof -
  have v: "i = w_next w" "v = w\<lparr>w_procs := (w_procs w)(i := Proc_new env), w_next := i + 1\<rparr>"
    using new by (auto simp: CreateProcess_def)
  have fresh: "i \<notin> set (waiting w)" using inv by (auto simp: tracker_inv_def fresh_procs_def v(1))
  have mon: "at_monitor_process w \<noteq> Some i" using monitor_allocated [OF inv] v(1) by force
  have inv': "at_hbmenu w = None" "distinct (waiting w)" "all_procs w" "fresh_procs w"
    using inv by (simp_all add: tracker_inv_def)
  have "proc_inv False False False (Proc_new env)"
    by (simp add: proc_inv_def tracker_monitors_def Proc_new_def)
  then have "all_procs v" using inv'(3) fresh mon by (auto simp: all_procs_def v(2) waiting_def)
  moreover have "fresh_procs v" using inv'(4) by (auto simp: fresh_procs_def v waiting_def intro: less_SucI)
  ultimately show "tracker_inv v" using inv' by (simp add: tracker_inv_def v(2) waiting_def)
  show "i < w_next v" "i \<notin> set (waiting v)" "w_procs v i = Proc_new env" "at_monitor_process v \<noteq> Some i"
    "at_hbmenu v = None"
    using fresh mon inv' by (simp_all add: v(2) waiting_def)
qed

lemma queue_inv:
  assumes "tracker_inv w" and "i < w_next w" and "i \<notin> set (waiting w)" and "pr_proc (w_procs w i) = None"
    and "pr_state (w_procs w i) = Created \<Longrightarrow> \<not> bridged (w_procs w i)"
  shows "tracker_inv (w\<lparr>at_queued := at_queued w @ [i]\<rparr>)"
  using assms
  by (auto simp: tracker_inv_def waiting_def all_procs_def fresh_procs_def proc_inv_def)

text \<open>Results whose states have the invariant.\<close>

definition inv_result :: "applet_result \<Rightarrow> bool" where
  "inv_result r \<longleftrightarrow> (case r of Inl _ \<Rightarrow> True | Inr w \<Rightarrow> tracker_inv w)"

lemma inv_result_simps [simp]: "inv_result (Inl e)" "inv_result (Inr w) = tracker_inv w"
  by (simp_all add: inv_result_def)

lemma inv_result_bind: "inv_result r \<Longrightarrow> (\<And>w. r = Inr w \<Longrightarrow> tracker_inv w \<Longrightarrow> inv_result (f w)) \<Longrightarrow> inv_result (sum_bind r f)"
  by (cases r) simp_all

lemma inv_result_view: "(\<And>v. r = Inr v \<Longrightarrow> same_view w v) \<Longrightarrow> tracker_inv w \<Longrightarrow> inv_result r"
  using same_view_inv by (cases r) auto

lemma QueueLaunch_inv:
  assumes "tracker_inv w" and "i < w_next w" and "i \<notin> set (waiting w)" and "pr_proc (w_procs w i) = None"
    and "pr_state (w_procs w i) = Created \<Longrightarrow> \<not> bridged (w_procs w i)"
  shows "inv_result (QueueLaunch change i w)"
proof -
  have "at_hbmenu w = None" using assms(1) by (simp add: tracker_inv_def)
  with same_view_inv [OF signal_if_ready_view queue_inv [OF assms]] show ?thesis
    by (simp add: QueueLaunch_def)
qed

lemma HBLLoad_inv: "tracker_inv w \<Longrightarrow> inv_result (HBLLoad change env path argv w)"
proof (cases "pe_open env (transmute_path path)")
  case (Some f)
  assume inv: "tracker_inv w"
  obtain i v where new: "CreateProcess env w = (i, v)" by fastforce
  note c = CreateProcess_inv [OF inv new]
  let ?u = "mod_proc i (\<lambda>p. p\<lparr>pr_argv := argv\<rparr>) (AppendCode i f v)"
  have "same_view v ?u"
    unfolding AppendCode_def
    by (rule same_view_trans [OF mod_proc_view mod_proc_view]) (simp_all add: same_proc_def)
  with same_view_inv [OF this c(1)] c have "inv_result (QueueLaunch change i ?u)"
    by (intro QueueLaunch_inv)
      (auto simp: same_view_def same_tracker_def same_proc_def waiting_def Proc_new_def bridged_def)
  with Some show ?thesis by (simp add: HBLLoad_def new)
qed (simp add: HBLLoad_def)

lemma tracker_StateChanged_inv: "tracker_inv w \<Longrightarrow> inv_result (tracker_StateChanged change env st w)"
proof -
  assume inv: "tracker_inv w"
  let ?w1 = "signal_if_ready w"
  have w1: "tracker_inv ?w1" by (rule same_view_inv [OF signal_if_ready_view inv])
  show ?thesis
  proof (cases "at_monitor_process ?w1")
    case (Some i)
    have "at_hbmenu ?w1 = None" using w1 by (simp add: tracker_inv_def)
    then have "inv_result (sum_bind
        (if pr_next_load_path (w_procs ?w1 i) \<noteq> []
         then HBLLoad change env (pr_next_load_path (w_procs ?w1 i)) (pr_next_load_argv (w_procs ?w1 i)) ?w1
         else Inr ?w1) (\<lambda>w3. Inr (Reattach None w3)))"
      using HBLLoad_inv [OF w1] w1 Reattach_None_inv by (intro inv_result_bind) auto
    with Some w1 \<open>at_hbmenu ?w1 = None\<close> show ?thesis
      by (simp add: tracker_StateChanged_def Let_def)
  qed (use w1 in \<open>simp add: tracker_StateChanged_def Let_def\<close>)
qed

lemma notify_inv: "tracker_inv w \<Longrightarrow> inv_result (notify change env st ms w)"
proof (induction change env st ms w rule: notify.induct)
  case (2 change env st k ms w)
  then show ?case using same_view_inv [OF bridge_StateChanged_view] by simp
next
  case (3 change env st ms w)
  then show ?case by (auto intro: inv_result_bind tracker_StateChanged_inv)
qed simp

lemma after_state_ecs_inv: "tracker_inv w \<Longrightarrow> inv_result (after_state_ecs env i st w)"
proof -
  assume inv: "tracker_inv w"
  have "tracker_inv (mod_proc i (\<lambda>p. p\<lparr>pr_ecs_pending := False\<rparr>) w)"
    using inv by (auto simp: tracker_inv_def waiting_def all_procs_def fresh_procs_def mod_proc_def proc_inv_def
        tracker_monitors_def bridged_def)
  with inv same_view_inv [OF emit_view] show ?thesis by (simp add: after_state_ecs_def Let_def)
qed

lemma after_state_tracked_view: "after_state_tracked env i st w = Inr v \<Longrightarrow> same_view w v"
  by (auto simp: after_state_tracked_def Let_def same_view_def same_tracker_def same_proc_def emit_def mod_proc_def
      split: option.splits prod.splits if_splits)

lemma ChangeState_inv:
  assumes inv: "tracker_inv w" and may: "may_enter w i st"
  shows "inv_result (ChangeState n env i st w)"
proof (cases n)
  case (Suc m)
  let ?w1 = "enter_state i st w"
  have fin: "inv_result (Inr (if st = Exited then mod_proc i (\<lambda>p. p\<lparr>pr_kill_timeout := False\<rparr>) v else v))"
    if "tracker_inv v" for v
    using that same_view_inv [OF mod_proc_view, of "\<lambda>p. p\<lparr>pr_kill_timeout := False\<rparr>" v i]
    by (simp add: same_proc_def)
  show ?thesis
    unfolding Suc ChangeState.simps Let_def
    by (rule inv_result_bind [OF notify_inv [OF enter_state_inv [OF inv may]]],
        rule inv_result_bind [OF after_state_ecs_inv], assumption,
        rule inv_result_bind [OF inv_result_view [OF after_state_tracked_view]], assumption+,
        rule fin, assumption)
qed simp

section \<open>The effect of a change to a live state\<close>

definition live_update :: "nat \<Rightarrow> State \<Rightarrow> AWorld \<Rightarrow> AWorld" where
  "live_update i st = mod_proc i
     (\<lambda>p. p\<lparr>pr_state := st, pr_ecs_pending := (if st = Attached then False else pr_ecs_pending p)\<rparr>)"

lemma mod_proc_cong:
  "same_view w v \<Longrightarrow> (\<And>p q. same_proc p q \<Longrightarrow> same_proc (f p) (f q)) \<Longrightarrow> same_view (mod_proc i f w) (mod_proc i f v)"
  by (simp add: same_view_def same_tracker_def mod_proc_def)

lemma notify_live_view: "st \<noteq> Exited \<Longrightarrow> notify change env st ms w = Inr v \<Longrightarrow> same_view w v"
proof (induction change env st ms w rule: notify.induct)
  case (1 change env st w)
  then show ?case by (simp add: view)
next
  case (2 change env st k ms w)
  then show ?case using same_view_trans [OF bridge_StateChanged_view] by simp
next
  case (3 change env st ms w)
  then show ?case
    using same_view_trans [OF signal_if_ready_view] by (simp add: tracker_StateChanged_def Let_def)
qed

lemma ChangeState_live:
  assumes "st \<noteq> Exited" and run: "ChangeState n env i st w = Inr v"
  shows "same_view (live_update i st w) v"
proof (cases n)
  case (Suc m)
  obtain u where u: "same_view w u" "enter_state i st w = mod_proc i (\<lambda>p. p\<lparr>pr_state := st\<rparr>) u"
    using enter_state_eq by blast
  let ?w1 = "enter_state i st w" and ?f = "\<lambda>p. p\<lparr>pr_state := st\<rparr>"
    and ?g = "\<lambda>p. if st = Attached then p\<lparr>pr_ecs_pending := False\<rparr> else p"
  obtain w2 w3 where n: "notify (ChangeState m env) env st (pr_monitors (w_procs ?w1 i)) ?w1 = Inr w2"
    and e: "after_state_ecs env i st w2 = Inr w3" and t: "after_state_tracked env i st w3 = Inr v"
    using run assms(1) by (auto simp: Suc Let_def sum_bind_eq_Inr)
  have w3: "w3 = (if st = Attached then mod_proc i ?g w2 else w2)"
    using e assms(1) by (auto simp: after_state_ecs_def Let_def)
  have "same_view (mod_proc i ?f w) ?w1"
    unfolding u(2) by (rule mod_proc_cong [OF u(1)]) (simp add: same_proc_def)
  then have "same_view (mod_proc i ?f w) w2"
    by (rule same_view_trans [OF _ notify_live_view [OF assms(1) n]])
  then have "same_view (mod_proc i ?g (mod_proc i ?f w)) (mod_proc i ?g w2)"
    by (rule mod_proc_cong) (simp add: same_proc_def)
  moreover have "mod_proc i ?g (mod_proc i ?f w) = live_update i st w"
    by (simp add: live_update_def mod_proc_def)
  moreover have "mod_proc i ?g w2 = w3" using w3 by (simp add: mod_proc_def)
  ultimately show ?thesis using same_view_trans after_state_tracked_view [OF t] by metis
qed (use run in simp)

section \<open>Every operation keeps the invariant\<close>

definition live_monitor :: "nat \<Rightarrow> AWorld \<Rightarrow> bool" where
  "live_monitor k w \<longleftrightarrow> BridgeMonitor k \<in> set (pr_monitors (w_procs w (bm_process (w_mons w k))))"

lemma proc_invD: "tracker_inv w \<Longrightarrow>
  proc_inv (i \<in> set (waiting w)) (i \<in> set (at_created w)) (at_monitor_process w = Some i) (w_procs w i)"
  by (simp add: tracker_inv_def all_procs_def)

lemma Launch_inv:
  assumes inv: "tracker_inv w" and st: "pr_state (w_procs w i) = Created" and br: "bridged (w_procs w i)"
  shows "inv_result (Launch n env i opener w)"
proof -
  let ?w0 = "mod_proc i (\<lambda>p. p\<lparr>pr_run_opener := Some opener\<rparr>) w"
  have view0: "same_view w ?w0" by (rule mod_proc_view) (simp add: same_proc_def)
  have w0: "tracker_inv ?w0" by (rule same_view_inv [OF view0 inv])
  have out: "i \<notin> set (waiting w)" and none: "pr_proc (w_procs w i) = None" and ecs: "\<not> pr_ecs_pending (w_procs w i)"
    using proc_invD [OF inv, of i] st br by (auto simp: proc_inv_def waiting_def)
  have alloc: "i < w_next w"
    using inv br by (auto simp: tracker_inv_def fresh_procs_def bridged_def not_le [symmetric])
  have "may_enter ?w0 i Started" using ecs by (simp add: may_enter_def mod_proc_def)
  from ChangeState_inv [OF w0 this] have cs: "inv_result (ChangeState n env i Started ?w0)" .
  show ?thesis
    unfolding Launch_def
  proof (rule inv_result_bind [OF cs])
    fix v assume run: "ChangeState n env i Started ?w0 = Inr v" and v: "tracker_inv v"
    have "same_view (live_update i Started ?w0) v" by (rule ChangeState_live [OF _ run]) simp
    then have "w_next v = w_next w" "waiting v = waiting w" "pr_proc (w_procs v i) = None"
      "pr_state (w_procs v i) = Started"
      using none by (auto simp: same_view_def same_tracker_def same_proc_def live_update_def mod_proc_def waiting_def)
    with v out alloc show "inv_result (QueueLaunch (ChangeState n env) i v)" by (intro QueueLaunch_inv) simp_all
  qed
qed

lemma take_launch_cb_inv: "tracker_inv w \<Longrightarrow> inv_result (take_launch_cb i r w)"
  by (rule inv_result_view [OF take_launch_cb_view])

lemma Kill_inv: "tracker_inv w \<Longrightarrow> inv_result (Kill (ChangeState n env) i w)"
proof -
  assume inv: "tracker_inv w"
  have views: "same_view w (mod_proc i (\<lambda>p. p\<lparr>pr_exit_pending := True\<rparr>) w)" "same_view w (applet_KillImpl i w)"
    unfolding applet_KillImpl_def PushCommand_def
    by (rule mod_proc_view same_view_trans [OF same_view_trans [OF mod_proc_view mod_proc_view] emit_view];
        simp add: same_proc_def)+
  have "inv_result (ChangeState n env i Exited w)"
    by (rule ChangeState_inv [OF inv]) (simp add: may_enter_def)
  with inv views [THEN same_view_inv, OF inv] take_launch_cb_inv [OF inv] show ?thesis
    by (simp add: Kill_def split: State.split)
qed

lemma terminate_rest_view: "terminate_rest env i w = Inr v \<Longrightarrow> same_view w v"
  using same_view_trans [OF take_launch_cb_view emit_view]
  by (auto simp: terminate_rest_def sum_bind_eq_Inr view split: if_splits option.splits dest: take_launch_cb_view)

lemma Terminate_inv: "tracker_inv w \<Longrightarrow> inv_result (Terminate n env i w)"
  using inv_result_view [OF terminate_rest_view]
  by (simp add: Terminate_def ChangeState_inv may_enter_def)

lemma Continue_inv: "tracker_inv w \<Longrightarrow> inv_result (Continue n env i w)"
proof -
  assume inv: "tracker_inv w"
  have "inv_result (sum_bind (ChangeState n env i Running w) (take_launch_cb i RESULT_OK))"
    if "pr_state (w_procs w i) = ShimSuspended"
    using proc_invD [OF inv, of i] that
    by (intro inv_result_bind [OF ChangeState_inv [OF inv]] take_launch_cb_inv)
      (auto simp: may_enter_def proc_inv_def)
  moreover have "tracker_inv (mod_proc i (\<lambda>p. p\<lparr>pr_suspended_launch_enabled := False\<rparr>) w)"
    by (rule same_view_inv [OF mod_proc_view inv]) (simp add: same_proc_def)
  ultimately show ?thesis by (simp add: Continue_def)
qed

lemma WaitToStart_inv:
  assumes inv: "tracker_inv w" and att: "pr_proc (w_procs w i) \<noteq> None"
  shows "inv_result (WaitToStart n env i cb w)"
proof -
  have "may_enter w i ShimSuspended" "may_enter w i Running"
    using proc_invD [OF inv, of i] att by (auto simp: may_enter_def proc_inv_def)
  then have cs: "inv_result (ChangeState n env i ShimSuspended w)" "inv_result (ChangeState n env i Running w)"
    by (auto intro: ChangeState_inv [OF inv])
  have v: "same_view v (mod_proc i (\<lambda>p. p\<lparr>pr_suspended_launch_cb := Some cb\<rparr>) v)" for v
    by (rule mod_proc_view) (simp add: same_proc_def)
  show ?thesis
    using cs [THEN inv_result_bind] same_view_inv [OF v] same_view_inv [OF emit_view]
    by (simp add: WaitToStart_def)
qed

lemma AttachHostProcess_inv:
  assumes inv: "tracker_inv w" and run: "AttachHostProcess n env pid w = Inr (i, v)"
  shows "tracker_inv v"
proof -
  obtain rest where cr: "at_created w = i # rest"
    using run by (auto simp: AttachHostProcess_def sum_bind_eq_Inr split: list.splits)
  let ?w0 = "mod_proc i (\<lambda>p. p\<lparr>pr_proc := Some pid\<rparr>) w"
  obtain w1 where cs: "ChangeState n env i Attached ?w0 = Inr w1"
    and v: "v = signal_if_ready (Reattach (Some i) (w1\<lparr>at_created := tl (at_created w1)\<rparr>))"
    using run cr by (auto simp: AttachHostProcess_def Attach_def sum_bind_eq_Inr split: if_splits)
  have view: "same_view (live_update i Attached ?w0) w1" by (rule ChangeState_live [OF _ cs]) simp
  let ?u = "(live_update i Attached ?w0)\<lparr>at_created := rest\<rparr>"
  have "same_view ?u (w1\<lparr>at_created := tl (at_created w1)\<rparr>)"
    using view cr by (simp add: same_view_def same_tracker_def live_update_def mod_proc_def)
  moreover have "same_view (Reattach (Some i) a) (Reattach (Some i) b)" if "same_view a b" for a b
    using that by (auto simp: same_view_def same_tracker_def same_proc_def Reattach_def AddMonitor_def
        RemoveMonitor_def mod_proc_def split: option.splits)
  moreover have "tracker_inv (Reattach (Some i) ?u)"
  proof -
    have parts: "at_hbmenu w = None" "distinct (waiting w)" "fresh_procs w" using inv by (simp_all add: tracker_inv_def)
    have "proc_inv (j \<in> set (waiting ?u)) (j \<in> set rest) (i = j) (w_procs (Reattach (Some i) ?u) j)" for j
      using proc_invD [OF inv, of j] proc_invD [OF inv, of i] parts(2)
      by (auto simp: Reattach_def AddMonitor_def RemoveMonitor_def mod_proc_def live_update_def waiting_def cr
          proc_inv_def tracker_monitors_def bridged_def split: option.splits if_splits)
    moreover have "at_monitor_process (Reattach (Some i) ?u) = Some i" "at_created (Reattach (Some i) ?u) = rest"
      "waiting (Reattach (Some i) ?u) = waiting ?u" "at_hbmenu (Reattach (Some i) ?u) = None"
      using parts(1) by (simp_all add: Reattach_def AddMonitor_def RemoveMonitor_def mod_proc_def live_update_def
          waiting_def split: option.splits)
    moreover have "distinct (waiting ?u)" using parts(2) by (auto simp: waiting_def cr live_update_def mod_proc_def)
    moreover have "fresh_procs (Reattach (Some i) ?u)"
      using parts(3) by (auto simp: fresh_procs_def Reattach_def AddMonitor_def RemoveMonitor_def mod_proc_def
          live_update_def waiting_def cr split: option.splits)
    ultimately show ?thesis by (auto simp: tracker_inv_def all_procs_def)
  qed
  ultimately show ?thesis
    unfolding v by (meson same_view_inv same_view_trans signal_if_ready_view)
qed

lemma exit_all_inv: "tracker_inv w \<Longrightarrow> inv_result (exit_all n env is w)"
  by (induction "is" arbitrary: w) (auto intro!: inv_result_bind ChangeState_inv simp: may_enter_def)

section \<open>What a change of state leaves alone\<close>

text \<open>A relation between the world before and after: no process but the changed one loses its content source
  or its place, and only the queue grows.\<close>

definition tracks :: "AWorld \<Rightarrow> AWorld \<Rightarrow> bool" where
  "tracks w v \<longleftrightarrow> at_created v = at_created w \<and> (\<exists>new. at_queued v = at_queued w @ new \<and> (\<forall>i \<in> set new. w_next w \<le> i)) \<and>
     w_next w \<le> w_next v \<and> (\<forall>i < w_next w. pr_state (w_procs v i) = pr_state (w_procs w i) \<and>
        pr_ecs_pending (w_procs v i) = pr_ecs_pending (w_procs w i))"

lemma tracks_view: "same_view w v \<Longrightarrow> tracks w v"
  by (simp add: same_view_def same_tracker_def same_proc_def tracks_def)

lemma tracks_trans: "tracks u v \<Longrightarrow> tracks v w \<Longrightarrow> tracks u w"
  by (auto simp: tracks_def) (metis Un_iff order_trans set_append)

lemma HBLLoad_tracks:
  assumes inv: "tracker_inv w" and run: "HBLLoad change env path argv w = Inr v"
  shows "tracks w v"
proof (cases "pe_open env (transmute_path path)")
  case (Some f)
  have "at_hbmenu w = None" using inv by (simp add: tracker_inv_def)
  with run Some show ?thesis
    by (auto simp: HBLLoad_def CreateProcess_def QueueLaunch_def AppendCode_def mod_proc_def tracks_def Let_def
        signal_if_ready_def emit_def split: if_splits)
qed (use run tracks_view [OF same_view_refl] in \<open>auto simp: HBLLoad_def\<close>)

lemma Reattach_None_tracks: "tracks w (Reattach None w)"
  by (simp add: Reattach_def RemoveMonitor_def mod_proc_def tracks_def split: option.split)

lemma tracker_StateChanged_tracks:
  assumes inv: "tracker_inv w" and run: "tracker_StateChanged change env st w = Inr v"
  shows "tracks w v"
proof -
  let ?w1 = "signal_if_ready w"
  have w1: "tracker_inv ?w1" "tracks w ?w1"
    by (rule same_view_inv [OF signal_if_ready_view inv], rule tracks_view [OF signal_if_ready_view])
  have "at_hbmenu ?w1 = None" using w1(1) by (simp add: tracker_inv_def)
  with run have "v = ?w1 \<or> v = Reattach None ?w1 \<or>
      (\<exists>p a u. HBLLoad change env p a ?w1 = Inr u \<and> v = Reattach None u)"
    by (auto simp: tracker_StateChanged_def Let_def sum_bind_eq_Inr split: if_splits option.splits)
  with w1 HBLLoad_tracks [OF w1(1)] show ?thesis
    using Reattach_None_tracks tracks_trans by blast
qed

lemma notify_tracks: "tracker_inv w \<Longrightarrow> notify change env st ms w = Inr v \<Longrightarrow> tracks w v"
proof (induction change env st ms w rule: notify.induct)
  case (1 change env st w)
  then show ?case by (simp add: tracks_view view)
next
  case (2 change env st k ms w)
  then show ?case
    using tracks_trans [OF tracks_view [OF bridge_StateChanged_view]] same_view_inv [OF bridge_StateChanged_view] by simp
next
  case (3 change env st ms w)
  then obtain u where u: "tracker_StateChanged change env st w = Inr u" "notify change env st ms u = Inr v"
    by (auto simp: sum_bind_eq_Inr)
  moreover have "tracker_inv u" using tracker_StateChanged_inv [OF 3(2), of change env st] u(1) by simp
  ultimately show ?case using tracks_trans tracker_StateChanged_tracks [OF 3(2)] 3(1) by blast
qed

lemma ChangeState_tracks:
  assumes inv: "tracker_inv w" and may: "may_enter w i st" and run: "ChangeState n env i st w = Inr v"
  shows "at_created v = at_created w \<and> w_next w \<le> w_next v \<and>
    (\<forall>k < w_next w. pr_state (w_procs v k) = (if k = i then st else pr_state (w_procs w k)))"
proof (cases n)
  case (Suc m)
  let ?w1 = "enter_state i st w"
  obtain u where u: "same_view w u" "?w1 = mod_proc i (\<lambda>p. p\<lparr>pr_state := st\<rparr>) u"
    using enter_state_eq by blast
  obtain w2 w3 w4 where n: "notify (ChangeState m env) env st (pr_monitors (w_procs ?w1 i)) ?w1 = Inr w2"
    and e: "after_state_ecs env i st w2 = Inr w3" and t: "after_state_tracked env i st w3 = Inr w4"
    and v: "v = (if st = Exited then mod_proc i (\<lambda>p. p\<lparr>pr_kill_timeout := False\<rparr>) w4 else w4)"
    using run by (auto simp: Suc Let_def sum_bind_eq_Inr)
  have "tracks ?w1 w2" by (rule notify_tracks [OF enter_state_inv [OF inv may] n])
  moreover have "at_created ?w1 = at_created w" "w_next ?w1 = w_next w"
    "\<forall>k. pr_state (w_procs ?w1 k) = (if k = i then st else pr_state (w_procs w k))"
    using u by (simp_all add: same_view_def same_tracker_def same_proc_def mod_proc_def)
  moreover have "at_created w3 = at_created w2" "w_next w3 = w_next w2"
    "\<forall>k. pr_state (w_procs w3 k) = pr_state (w_procs w2 k)"
    using e by (auto simp: after_state_ecs_def Let_def mod_proc_def emit_def split: if_splits)
  moreover have "same_view w3 v"
    using after_state_tracked_view [OF t] same_view_trans [OF _ mod_proc_view, of w3 w4 "\<lambda>p. p\<lparr>pr_kill_timeout := False\<rparr>" i]
    by (simp add: v same_proc_def)
  ultimately show ?thesis by (simp add: tracks_def same_view_def same_tracker_def same_proc_def)
qed (use run in simp)

lemma ChangeState_created:
  assumes "tracker_inv w" and "may_enter w i st" and "ChangeState n env i st w = Inr v"
  shows "at_created v = at_created w"
  using ChangeState_tracks [OF assms] by simp

section \<open>Popping a process\<close>

lemma dequeue_inv: "tracker_inv w \<Longrightarrow> at_queued w = i # rest \<Longrightarrow> tracker_inv (w\<lparr>at_queued := rest\<rparr>)"
  by (auto simp: tracker_inv_def waiting_def all_procs_def fresh_procs_def proc_inv_def)

text \<open>Either preparing fails and only the file system of the process changes, or it gets a content source.\<close>

lemma NRONSO_Create_code: "NRONSO_Create f = Inl (Code c out) \<Longrightarrow> c \<noteq> RESULT_OK"
  by (auto simp: NRONSO_Create_def NROHeader_Read_def RESULT_OK_def TWILI_ERR_INVALID_NRO_def TWILI_RESULT_def Let_def
      split: sum.splits FileError.splits if_splits)

lemma ECS_PrepareForLaunch_view:
  assumes "ECS_PrepareForLaunch env i w = Inr (r, v)"
  shows "r \<noteq> RESULT_OK \<Longrightarrow> same_view w v"
    and "r = RESULT_OK \<Longrightarrow> same_view (mod_proc i (\<lambda>p. p\<lparr>pr_ecs_pending := True\<rparr>) w) v"
  using assms
  by (auto simp: ECS_PrepareForLaunch_def Let_def same_view_def same_tracker_def same_proc_def mod_proc_def emit_def
      RESULT_OK_def TWILI_ERR_NO_MODULES_def TWILI_ERR_TOO_MANY_MODULES_def TWILI_RESULT_def
      dest: NRONSO_Create_code [unfolded RESULT_OK_def]
      split: list.splits if_splits sum.splits FileError.splits)

lemma push_created_inv:
  assumes inv: "tracker_inv w" and fresh: "i \<notin> set (waiting w)" "i < w_next w" "pr_proc (w_procs w i) = None"
    and unbridged: "pr_state (w_procs w i) = Created \<longrightarrow> \<not> bridged (w_procs w i)"
    and view: "same_view (mod_proc i (\<lambda>p. p\<lparr>pr_ecs_pending := True\<rparr>) w) v"
  shows "tracker_inv (v\<lparr>at_created := at_created v @ [i]\<rparr>)"
proof -
  let ?u = "(mod_proc i (\<lambda>p. p\<lparr>pr_ecs_pending := True\<rparr>) w)\<lparr>at_created := at_created w @ [i]\<rparr>"
  have "proc_inv (j \<in> set (waiting ?u)) (j \<in> set (at_created w @ [i])) (at_monitor_process w = Some j) (w_procs ?u j)" for j
    using proc_invD [OF inv, of j] fresh unbridged
    by (auto simp: proc_inv_def mod_proc_def waiting_def tracker_monitors_def bridged_def)
  then have "tracker_inv ?u"
    using inv fresh
    by (auto simp: tracker_inv_def all_procs_def fresh_procs_def mod_proc_def waiting_def)
  moreover have "same_view ?u (v\<lparr>at_created := at_created v @ [i]\<rparr>)"
    using view by (simp add: same_view_def same_tracker_def mod_proc_def)
  ultimately show ?thesis using same_view_inv by blast
qed

lemma pop_hbmenu_inv:
  assumes inv: "tracker_inv w" and run: "pop_hbmenu n env w = Inr (r, v)"
  shows "tracker_inv v \<and> (\<exists>h. at_created v = at_created w @ [h])"
proof -
  obtain i u where new: "CreateProcess env w = (i, u)" by fastforce
  note c = CreateProcess_inv [OF inv new]
  obtain h w1 w2 where hb: "CreateHbmenu env w = Inr (h, w1)"
    and prep: "PrepareForLaunch n env h (w1\<lparr>at_hbmenu := Some h\<rparr>) = Inr (RESULT_OK, w2)"
    and v: "v = w2\<lparr>at_created := at_created w2 @ [h], at_hbmenu := None\<rparr>"
    using run by (auto simp: pop_hbmenu_def sum_bind_eq_Inr split: if_splits)
  obtain f nro where w1_eq: "h = i" "w1 = mod_proc i (\<lambda>p. p\<lparr>pr_argv := str ''sdmc:/hbmenu.nro''\<rparr>)
      (mod_proc i (\<lambda>p. p\<lparr>pr_files := pr_files p @ [f]\<rparr>) (u\<lparr>at_hbmenu_nro := nro\<rparr>))"
  proof (cases "at_hbmenu_nro u")
    case None
    with hb obtain f where "pe_hbmenu_nro env = Inr f"
      by (auto simp: CreateHbmenu_def new sum_bind_eq_Inr split: sum.splits)
    with hb None show ?thesis
      by (intro that [of f "Some f"]) (auto simp: CreateHbmenu_def new AppendCode_def)
  next
    case (Some f)
    have eq: "u\<lparr>at_hbmenu_nro := Some f\<rparr> = u" by (subst Some [symmetric]) simp
    show ?thesis
      by (rule that [of f "Some f"], unfold eq)
        (use hb Some in \<open>auto simp: CreateHbmenu_def new AppendCode_def\<close>)
  qed
  have "same_view u (u\<lparr>at_hbmenu_nro := nro\<rparr>)"
    by (simp add: same_view_def same_tracker_def same_proc_def)
  then have "same_view u w1"
    unfolding w1_eq(2)
    by (rule same_view_trans [OF same_view_trans [OF _ mod_proc_view] mod_proc_view]) (simp_all add: same_proc_def)
  with w1_eq c(4) have w1: "h = i" "same_view u w1" "\<not> pr_exit_pending (w_procs w1 i)"
    by (simp_all add: mod_proc_def Proc_new_def)
  have "ECS_PrepareForLaunch env i (w1\<lparr>at_hbmenu := Some i\<rparr>) = Inr (RESULT_OK, w2)"
    using prep w1 by (simp add: PrepareForLaunch_def)
  from ECS_PrepareForLaunch_view(2) [OF this]
  have view: "same_view (mod_proc i (\<lambda>p. p\<lparr>pr_ecs_pending := True\<rparr>) w1) (w2\<lparr>at_hbmenu := None\<rparr>)"
    using same_view_inv [OF w1(2) c(1)]
    by (simp add: same_view_def same_tracker_def mod_proc_def tracker_inv_def)
  have facts: "i \<notin> set (waiting w1)" "i < w_next w1" "pr_proc (w_procs w1 i) = None"
    "pr_state (w_procs w1 i) = Created \<longrightarrow> \<not> bridged (w_procs w1 i)"
    using w1(2) c(2,3,4) by (simp_all add: same_view_def same_tracker_def same_proc_def waiting_def Proc_new_def bridged_def)
  have "tracker_inv ((w2\<lparr>at_hbmenu := None\<rparr>)\<lparr>at_created := at_created (w2\<lparr>at_hbmenu := None\<rparr>) @ [i]\<rparr>)"
    by (rule push_created_inv [OF same_view_inv [OF w1(2) c(1)] facts view])
  moreover have "at_created w2 = at_created w"
    using ECS_PrepareForLaunch_view(2) [OF \<open>ECS_PrepareForLaunch env i _ = _\<close>] w1(2) new
    by (auto simp: same_view_def same_tracker_def mod_proc_def CreateProcess_def)
  moreover have "v = (w2\<lparr>at_hbmenu := None\<rparr>)\<lparr>at_created := at_created (w2\<lparr>at_hbmenu := None\<rparr>) @ [i]\<rparr>"
    by (simp add: v w1(1))
  ultimately show ?thesis by simp
qed

lemma PopQueuedProcess_inv:
  "tracker_inv w \<Longrightarrow> PopQueuedProcess n env w = Inr (r, v) \<Longrightarrow>
    tracker_inv v \<and> (\<exists>new. at_created v = at_created w @ new \<and> length new \<le> 1)"
proof (induction n env w rule: PopQueuedProcess.induct)
  case (2 n env w)
  show ?case
  proof (cases "at_queued w")
    case Nil
    with "2.prems" pop_hbmenu_inv [OF "2.prems"(1), of n env r v] show ?thesis by fastforce
  next
    case (Cons i rest)
    let ?u = "w\<lparr>at_queued := rest\<rparr>"
    have u: "tracker_inv ?u" by (rule dequeue_inv [OF "2.prems"(1) Cons])
    have may: "may_enter ?u i Exited" by (simp add: may_enter_def)
    have fresh: "i \<notin> set (waiting ?u)" "i < w_next ?u" "pr_proc (w_procs ?u i) = None"
      "pr_state (w_procs ?u i) = Created \<longrightarrow> \<not> bridged (w_procs ?u i)"
      using "2.prems"(1) proc_invD [OF "2.prems"(1), of i] Cons
      by (auto simp: tracker_inv_def waiting_def fresh_procs_def proc_inv_def)
    obtain c w1 where prep: "PrepareForLaunch n env i ?u = Inr (c, w1)"
      using "2.prems"(2) Cons by (auto simp: sum_bind_eq_Inr)
    show ?thesis
    proof (cases "pr_exit_pending (w_procs ?u i)")
      case True
      then have cs: "ChangeState n env i Exited ?u = Inr w1" and c: "c = TWILI_ERR_NO_LONGER_REQUESTED_TO_LAUNCH"
        using prep by (auto simp: PrepareForLaunch_def sum_bind_eq_Inr)
      have "tracker_inv w1" "at_created w1 = at_created w"
        using ChangeState_inv [OF u may, of n env] cs ChangeState_created [OF u may cs] by simp_all
      moreover have "PopQueuedProcess n env w1 = Inr (r, v)" using "2.prems"(2) Cons prep c by simp
      ultimately show ?thesis using "2.IH" [OF Cons c, of w1] by simp
    next
      case False
      then have ecs: "ECS_PrepareForLaunch env i ?u = Inr (c, w1)" using prep by (simp add: PrepareForLaunch_def)
      show ?thesis
      proof (cases "c = RESULT_OK")
        case True
        have "tracker_inv (w1\<lparr>at_created := at_created w1 @ [i]\<rparr>)"
          by (rule push_created_inv [OF u fresh ECS_PrepareForLaunch_view(2) [OF ecs True]])
        moreover have "at_created w1 = at_created w"
          using ECS_PrepareForLaunch_view(2) [OF ecs True] by (simp add: same_view_def same_tracker_def mod_proc_def)
        ultimately show ?thesis
          using "2.prems"(2) Cons prep True
          by (auto simp: RESULT_OK_def TWILI_ERR_NO_LONGER_REQUESTED_TO_LAUNCH_def TWILI_RESULT_def)
      next
        case bad: False
        have w1: "tracker_inv w1" "at_created w1 = at_created w"
          using same_view_inv [OF ECS_PrepareForLaunch_view(1) [OF ecs bad] u] ECS_PrepareForLaunch_view(1) [OF ecs bad]
          by (simp_all add: same_view_def same_tracker_def)
        show ?thesis
        proof (cases "c = TWILI_ERR_NO_LONGER_REQUESTED_TO_LAUNCH")
          case True
          then have "PopQueuedProcess n env w1 = Inr (r, v)" using "2.prems"(2) Cons prep by simp
          with "2.IH" [OF Cons True w1(1)] w1(2) show ?thesis by simp
        next
          case other: False
          then have "v = w1" using "2.prems"(2) Cons prep bad by simp
          with w1 show ?thesis by simp
        qed
      qed
    qed
  qed
qed simp

section \<open>Reachable states\<close>

definition create_monitored :: "PEnv \<Rightarrow> nat \<Rightarrow> AWorld \<Rightarrow> AWorld" where
  "create_monitored env k w = (let (i, v) = CreateProcess env w in monitor_new k i v)"

lemma create_monitored_inv: "tracker_inv w \<Longrightarrow> tracker_inv (create_monitored env k w)"
proof -
  assume inv: "tracker_inv w"
  obtain i v where new: "CreateProcess env w = (i, v)" by fastforce
  note c = CreateProcess_inv [OF inv new]
  let ?u = "AddMonitor i (BridgeMonitor k) v"
  have "proc_inv (j \<in> set (waiting v)) (j \<in> set (at_created v)) (at_monitor_process v = Some j) (w_procs ?u j)" for j
    using proc_invD [OF c(1), of j] c(3,4)
    by (auto simp: AddMonitor_def mod_proc_def proc_inv_def tracker_monitors_def Proc_new_def)
  then have "tracker_inv ?u"
    using c(1,2) by (auto simp: tracker_inv_def all_procs_def fresh_procs_def AddMonitor_def mod_proc_def waiting_def)
  moreover have "same_view ?u (create_monitored env k w)"
    by (simp add: create_monitored_def new monitor_new_def AddMonitor_def mod_proc_def mod_mon_def same_view_def
        same_tracker_def same_proc_def)
  ultimately show ?thesis using same_view_inv by blast
qed

text \<open>The operations as the services and the bridge call them, in any order. The control applet pops a process
  only after \<open>GetCommand\<close> said so, and a process asks to start only through the shim it got when it was
  attached.\<close>

inductive applet_step :: "PEnv \<Rightarrow> AWorld \<Rightarrow> AWorld \<Rightarrow> bool" for env where
  create: "applet_step env w (create_monitored env k w)"
| append_code: "applet_step env w (AppendCode i f w)"
| set_result: "applet_step env w (SetResult i r w)"
| next_load: "applet_step env w (SetNextLoadPath i path argv w)"
| pop_command: "applet_step env w (snd (PopCommand i w))"
| wait_state: "applet_step env w (WaitStateChange k opener w)"
| launch: "live_monitor k w \<Longrightarrow> monitor_Launch n env k opener w = Inr v \<Longrightarrow> applet_step env w v"
| launch_suspended: "live_monitor k w \<Longrightarrow> monitor_LaunchSuspended n env k opener w = Inr v \<Longrightarrow> applet_step env w v"
| destroy: "monitor_destroy n env k w = Inr v \<Longrightarrow> applet_step env w v"
| terminate: "Terminate n env i w = Inr v \<Longrightarrow> applet_step env w v"
| timeout: "kill_timeout_expired n env i w = Inr v \<Longrightarrow> applet_step env w v"
| continue: "Continue n env i w = Inr v \<Longrightarrow> applet_step env w v"
| start: "pr_proc (w_procs w i) \<noteq> None \<Longrightarrow> WaitToStart n env i cb w = Inr v \<Longrightarrow> applet_step env w v"
| attach_control: "AttachControlProcess w = Inr v \<Longrightarrow> applet_step env w v"
| release_control: "ReleaseControlProcess n env w = Inr v \<Longrightarrow> applet_step env w v"
| pop: "GetCommand w = Inr c \<Longrightarrow> PopQueuedProcess n env w = Inr (r, v) \<Longrightarrow> applet_step env w v"
| attach_host: "AttachHostProcess n env pid w = Inr (i, v) \<Longrightarrow> applet_step env w v"
| controller: "controller_closed n env i w = Inr v \<Longrightarrow> applet_step env w v"

inductive_cases applet_stepE: "applet_step env w v"

inductive applet_reachable :: "PEnv \<Rightarrow> AWorld \<Rightarrow> bool" for env where
  init: "applet_reachable env (AWorld_new env)"
| step: "applet_reachable env w \<Longrightarrow> applet_step env w v \<Longrightarrow> applet_reachable env v"

lemma AWorld_new_inv: "tracker_inv (AWorld_new env)"
  by (simp add: tracker_inv_def AWorld_new_def waiting_def all_procs_def fresh_procs_def proc_inv_def
      tracker_monitors_def Proc_new_def)

lemma plain_views [view]:
  "same_view w (AppendCode i f w)" "same_view w (SetResult i r w)" "same_view w (SetNextLoadPath i path argv w)"
  "same_view w (snd (PopCommand i w))"
  by (auto simp: AppendCode_def SetResult_def SetNextLoadPath_def PopCommand_def same_view_refl same_proc_def
      intro!: mod_proc_view split: list.split)

lemma WaitStateChange_view [view]: "same_view w (WaitStateChange k opener w)"
  using same_view_trans [OF mod_mon_view emit_view] same_view_trans [OF emit_view mod_mon_view]
  by (simp add: WaitStateChange_def Let_def mod_mon_view split: list.split option.split)

lemma created_monitored: "tracker_inv w \<Longrightarrow> tracker_inv (w\<lparr>at_monitored_processes := ps\<rparr>)"
  by (rule same_view_inv) (simp_all add: same_view_def same_tracker_def same_proc_def)

section \<open>Operations do not create processes\<close>

text \<open>A result that has the invariant and the same created processes.\<close>

definition kept :: "AWorld \<Rightarrow> applet_result \<Rightarrow> bool" where
  "kept w r \<longleftrightarrow> (case r of Inl _ \<Rightarrow> True | Inr v \<Rightarrow> tracker_inv v \<and> at_created v = at_created w)"

lemma kept_simps [simp]: "kept w (Inl e)" "kept w (Inr v) \<longleftrightarrow> tracker_inv v \<and> at_created v = at_created w"
  by (simp_all add: kept_def)

lemma kept_same: "kept v r \<Longrightarrow> at_created v = at_created w \<Longrightarrow> kept w r"
  by (cases r) simp_all

lemma keptI: "inv_result r \<Longrightarrow> (\<And>v. r = Inr v \<Longrightarrow> at_created v = at_created w) \<Longrightarrow> kept w r"
  by (cases r) simp_all

lemma keptD: "kept w r \<Longrightarrow> r = Inr v \<Longrightarrow> tracker_inv v \<and> at_created v = at_created w"
  by simp

lemma kept_bind: "kept w r \<Longrightarrow> (\<And>v. tracker_inv v \<Longrightarrow> at_created v = at_created w \<Longrightarrow> kept v (f v)) \<Longrightarrow> kept w (sum_bind r f)"
proof (cases r)
  case (Inr v)
  assume "kept w r" and f: "\<And>v. tracker_inv v \<Longrightarrow> at_created v = at_created w \<Longrightarrow> kept v (f v)"
  then have "tracker_inv v" "at_created v = at_created w" using Inr by simp_all
  with f [OF this] Inr show ?thesis by (cases "f v") simp_all
qed simp

lemma view_created: "same_view w v \<Longrightarrow> at_created v = at_created w"
  by (simp add: same_view_def same_tracker_def)

lemma kept_view: "tracker_inv w \<Longrightarrow> (\<And>v. r = Inr v \<Longrightarrow> same_view w v) \<Longrightarrow> kept w r"
  using inv_result_view view_created by (intro keptI) auto

lemma ChangeState_kept: "tracker_inv w \<Longrightarrow> may_enter w i st \<Longrightarrow> kept w (ChangeState n env i st w)"
  by (intro keptI ChangeState_inv ChangeState_created)

lemma exited_kept: "tracker_inv w \<Longrightarrow> kept w (ChangeState n env i Exited w)"
  by (rule ChangeState_kept) (simp_all add: may_enter_def)

lemma take_launch_cb_kept: "tracker_inv w \<Longrightarrow> kept w (take_launch_cb i r w)"
  by (intro keptI take_launch_cb_inv view_created take_launch_cb_view)

lemma Kill_kept: "tracker_inv w \<Longrightarrow> kept w (Kill (ChangeState n env) i w)"
  using Kill_inv [of w n env i] exited_kept [of w n env i] take_launch_cb_kept [of w i]
  by (auto simp: Kill_def applet_KillImpl_def PushCommand_def emit_def mod_proc_def kept_def split: State.splits)

lemma Terminate_kept: "tracker_inv w \<Longrightarrow> kept w (Terminate n env i w)"
  using exited_kept kept_view [OF _ terminate_rest_view] by (simp add: Terminate_def)

lemma Launch_kept:
  assumes "tracker_inv w" and "pr_state (w_procs w i) = Created" and "bridged (w_procs w i)"
  shows "kept w (Launch n env i opener w)"
proof (rule keptI [OF Launch_inv [OF assms]])
  fix v assume run: "Launch n env i opener w = Inr v"
  let ?w0 = "mod_proc i (\<lambda>p. p\<lparr>pr_run_opener := Some opener\<rparr>) w"
  obtain u where u: "ChangeState n env i Started ?w0 = Inr u" "QueueLaunch (ChangeState n env) i u = Inr v"
    using run by (auto simp: Launch_def sum_bind_eq_Inr)
  have view: "same_view (live_update i Started ?w0) u" by (rule ChangeState_live [OF _ u(1)]) simp
  then have "at_created u = at_created w" "at_hbmenu u = None"
    using assms(1) by (simp_all add: same_view_def same_tracker_def live_update_def mod_proc_def tracker_inv_def)
  with u(2) show "at_created v = at_created w"
    by (auto simp: QueueLaunch_def signal_if_ready_def emit_def)
qed

lemma Continue_kept: "tracker_inv w \<Longrightarrow> kept w (Continue n env i w)"
proof (rule keptI [OF Continue_inv], assumption)
  fix v assume inv: "tracker_inv w" and run: "Continue n env i w = Inr v"
  show "at_created v = at_created w"
  proof (cases "pr_state (w_procs w i) = ShimSuspended")
    case True
    then obtain u where u: "ChangeState n env i Running w = Inr u" "take_launch_cb i RESULT_OK u = Inr v"
      using run by (auto simp: Continue_def sum_bind_eq_Inr)
    have "same_view (live_update i Running w) u" by (rule ChangeState_live [OF _ u(1)]) simp
    with take_launch_cb_view [OF u(2)] show ?thesis
      by (simp add: same_view_def same_tracker_def live_update_def mod_proc_def)
  qed (use run in \<open>auto simp: Continue_def mod_proc_def\<close>)
qed

lemma WaitToStart_kept:
  assumes "tracker_inv w" and "pr_proc (w_procs w i) \<noteq> None"
  shows "kept w (WaitToStart n env i cb w)"
proof (rule keptI [OF WaitToStart_inv [OF assms]])
  fix v assume run: "WaitToStart n env i cb w = Inr v"
  have "\<exists>st u. st \<noteq> Exited \<and> ChangeState n env i st w = Inr u \<and> at_created v = at_created u"
    using run
    by (cases "pr_suspended_launch_enabled (w_procs w i)")
      (force simp: WaitToStart_def sum_bind_eq_Inr mod_proc_def emit_def)+
  then obtain st u where u: "st \<noteq> Exited" "ChangeState n env i st w = Inr u" "at_created v = at_created u" by blast
  with view_created [OF ChangeState_live [OF u(1,2)]] show "at_created v = at_created w"
    by (simp add: live_update_def mod_proc_def)
qed

lemma exit_all_kept: "tracker_inv w \<Longrightarrow> kept w (exit_all n env is w)"
  by (induction "is" arbitrary: w) (auto intro!: kept_bind exited_kept)

lemma exit_all_exited:
  "tracker_inv w \<Longrightarrow> exit_all n env is w = Inr v \<Longrightarrow>
    w_next w \<le> w_next v \<and> (\<forall>k < w_next w. k \<in> set is \<or> pr_state (w_procs w k) = Exited \<longrightarrow> pr_state (w_procs v k) = Exited)"
proof (induction "is" arbitrary: w)
  case (Cons i "is")
  obtain u where u: "ChangeState n env i Exited w = Inr u" "exit_all n env is u = Inr v"
    using Cons.prems(2) by (auto simp: sum_bind_eq_Inr)
  have "may_enter w i Exited" by (simp add: may_enter_def)
  from ChangeState_tracks [OF Cons.prems(1) this u(1)] keptD [OF exited_kept [OF Cons.prems(1)] u(1)]
    Cons.IH [OF _ u(2)] show ?case by fastforce
qed simp

lemma ReleaseControlProcess_inv:
  assumes inv: "tracker_inv w" and run: "ReleaseControlProcess n env w = Inr v"
  shows "tracker_inv v \<and> at_created v = []"
proof -
  let ?w0 = "w\<lparr>at_has_control_process := False\<rparr>"
  have w0: "tracker_inv ?w0"
    by (rule same_view_inv [OF _ inv]) (simp add: same_view_def same_tracker_def same_proc_def)
  obtain w1 where w1: "exit_all n env (at_created w) ?w0 = Inr w1"
    using run by (auto simp: ReleaseControlProcess_def sum_bind_eq_Inr split: if_splits)
  have inv1: "tracker_inv w1" "at_created w1 = at_created w" using keptD [OF exit_all_kept [OF w0] w1] by simp_all
  then have v: "v = w1\<lparr>at_created := []\<rparr>"
    using run w1 by (auto simp: ReleaseControlProcess_def tracker_inv_def split: if_splits)
  have "pr_state (w_procs w1 i) = Exited" if "i \<in> set (at_created w1)" for i
    using exit_all_exited [OF w0 w1] that inv inv1(2) by (auto simp: tracker_inv_def fresh_procs_def waiting_def)
  then have "tracker_inv v"
    using inv1(1) by (auto simp: v tracker_inv_def waiting_def all_procs_def fresh_procs_def proc_inv_def)
  then show ?thesis by (simp add: v)
qed

lemma AttachHostProcess_created: "AttachHostProcess n env pid w = Inr (i, v) \<Longrightarrow> at_created v = tl (at_created w)"
proof -
  assume run: "AttachHostProcess n env pid w = Inr (i, v)"
  obtain rest where cr: "at_created w = i # rest"
    using run by (auto simp: AttachHostProcess_def sum_bind_eq_Inr split: list.splits)
  obtain w1 where cs: "ChangeState n env i Attached (mod_proc i (\<lambda>p. p\<lparr>pr_proc := Some pid\<rparr>) w) = Inr w1"
    and v: "v = signal_if_ready (Reattach (Some i) (w1\<lparr>at_created := tl (at_created w1)\<rparr>))"
    using run cr by (auto simp: AttachHostProcess_def Attach_def sum_bind_eq_Inr split: if_splits)
  have "at_created w1 = at_created w"
    using view_created [OF ChangeState_live [OF _ cs]] by (simp add: live_update_def mod_proc_def)
  then show ?thesis
    using view_created [OF signal_if_ready_view]
    by (simp add: v Reattach_def AddMonitor_def RemoveMonitor_def mod_proc_def split: option.split)
qed

section \<open>Steps\<close>

definition slim :: "AWorld \<Rightarrow> bool" where
  "slim w \<longleftrightarrow> tracker_inv w \<and> length (at_created w) \<le> 1"

lemma slim_kept: "slim w \<Longrightarrow> kept w r \<Longrightarrow> r = Inr v \<Longrightarrow> slim v"
  by (simp add: slim_def)

lemma slim_view: "slim w \<Longrightarrow> same_view w v \<Longrightarrow> slim v"
  using same_view_inv view_created by (auto simp: slim_def)

lemma live_monitor_bridged: "live_monitor k w \<Longrightarrow> bridged (w_procs w (bm_process (w_mons w k)))"
  by (auto simp: live_monitor_def bridged_def)

lemma monitor_Launch_kept:
  assumes inv: "tracker_inv w" and live: "live_monitor k w"
  shows "kept w (monitor_Launch n env k opener w)" and "kept w (monitor_LaunchSuspended n env k opener w)"
proof -
  let ?i = "bm_process (w_mons w k)" and ?w0 = "w\<lparr>at_monitored_processes := at_monitored_processes w @ [bm_process (w_mons w k)]\<rparr>"
  have emit: "kept w (Inr (emit ev w))" for ev using same_view_inv [OF emit_view inv] view_created [OF emit_view] by simp
  have w0: "tracker_inv ?w0" by (rule created_monitored [OF inv])
  have "kept w (Launch n env ?i opener ?w0)" if "pr_state (w_procs w ?i) = Created"
    by (rule kept_same [OF Launch_kept [OF w0]]) (use live_monitor_bridged [OF live] that in simp_all)
  then show "kept w (monitor_Launch n env k opener w)" using emit by (simp add: monitor_Launch_def Let_def)
  let ?w1 = "mod_proc ?i (\<lambda>p. p\<lparr>pr_suspended_launch_enabled := True\<rparr>) ?w0"
  have "tracker_inv ?w1" by (rule same_view_inv [OF mod_proc_view w0]) (simp add: same_proc_def)
  then have "kept w (Launch n env ?i opener ?w1)" if "pr_state (w_procs w ?i) = Created"
    by (rule kept_same [OF Launch_kept])
      (use live_monitor_bridged [OF live] that in \<open>simp_all add: mod_proc_def bridged_def\<close>)
  then show "kept w (monitor_LaunchSuspended n env k opener w)"
    using emit by (simp add: monitor_LaunchSuspended_def LaunchSuspended_def Let_def)
qed

lemma RemoveMonitor_bridge_inv: "tracker_inv w \<Longrightarrow> tracker_inv (RemoveMonitor i (BridgeMonitor k) w)"
  by (auto simp: RemoveMonitor_def mod_proc_def tracker_inv_def waiting_def all_procs_def fresh_procs_def proc_inv_def
      tracker_monitors_def bridged_def filter_filter conj_commute cong: conj_cong)

lemma monitor_destroy_kept: "tracker_inv w \<Longrightarrow> kept w (monitor_destroy n env k w)"
  unfolding monitor_destroy_def Let_def
  by (rule kept_bind [OF Kill_kept]) (simp_all add: RemoveMonitor_bridge_inv, simp add: RemoveMonitor_def mod_proc_def)

lemma kill_timeout_kept: "tracker_inv w \<Longrightarrow> kept w (kill_timeout_expired n env i w)"
  unfolding kill_timeout_expired_def
  by (rule kept_bind [OF Terminate_kept])
    (simp_all add: same_view_inv [OF mod_proc_view] same_proc_def, simp add: mod_proc_def)

lemma applet_step_slim:
  assumes "applet_step env w v" and "slim w"
  shows "slim v"
  using assms
proof (cases rule: applet_step.cases)
  case (create k)
  then show ?thesis
    using create_monitored_inv assms(2)
    by (simp add: slim_def create_monitored_def CreateProcess_def monitor_new_def AddMonitor_def mod_mon_def mod_proc_def)
next
  case attach_control
  then have "same_view w v"
    by (auto simp: AttachControlProcess_def same_view_def same_tracker_def same_proc_def emit_def split: if_splits)
  then show ?thesis by (rule slim_view [OF assms(2)])
next
  case (release_control n)
  then show ?thesis using ReleaseControlProcess_inv [of w n env v] assms(2) by (simp add: slim_def)
next
  case (pop c n r)
  then have "at_created w = []" by (auto simp: GetCommand_def ReadyToLaunch_def split: if_splits)
  with pop PopQueuedProcess_inv [of w n env r v] assms(2) show ?thesis by (auto simp: slim_def)
next
  case (attach_host n pid i)
  then show ?thesis
    using AttachHostProcess_inv [of w n env pid i v] AttachHostProcess_created [of n env pid w i v] assms(2)
    by (simp add: slim_def)
next
  case (controller n i)
  then show ?thesis
    using slim_kept [OF assms(2) exited_kept] assms(2) by (simp add: slim_def controller_closed_def)
next
  case (launch k n opener)
  show ?thesis by (rule slim_kept [OF assms(2) monitor_Launch_kept(1) launch(2)]) (use assms(2) launch in \<open>simp_all add: slim_def\<close>)
next
  case (launch_suspended k n opener)
  show ?thesis
    by (rule slim_kept [OF assms(2) monitor_Launch_kept(2) launch_suspended(2)])
      (use assms(2) launch_suspended in \<open>simp_all add: slim_def\<close>)
next
  case (destroy n k)
  show ?thesis by (rule slim_kept [OF assms(2) monitor_destroy_kept destroy]) (use assms(2) in \<open>simp add: slim_def\<close>)
next
  case (terminate n i)
  show ?thesis by (rule slim_kept [OF assms(2) Terminate_kept terminate]) (use assms(2) in \<open>simp add: slim_def\<close>)
next
  case (timeout n i)
  show ?thesis by (rule slim_kept [OF assms(2) kill_timeout_kept timeout]) (use assms(2) in \<open>simp add: slim_def\<close>)
next
  case (continue n i)
  show ?thesis by (rule slim_kept [OF assms(2) Continue_kept continue]) (use assms(2) in \<open>simp add: slim_def\<close>)
next
  case (start i n cb)
  show ?thesis
    by (rule slim_kept [OF assms(2) WaitToStart_kept start(2)]) (use assms(2) start in \<open>simp_all add: slim_def\<close>)
qed (simp_all add: slim_view [OF assms(2)] view)

lemma applet_reachable_slim: "applet_reachable env w \<Longrightarrow> slim w"
proof (induction rule: applet_reachable.induct)
  case init
  then show ?case by (simp add: slim_def AWorld_new_inv) (simp add: AWorld_new_def)
next
  case (step w v)
  then show ?case using applet_step_slim by blast
qed

end
