(* ===== verification/AppletTrackerProps.thy ===== *)
theory AppletTrackerProps
  imports AppletTrackerInv
begin

text \<open>
  What the applet tracker guarantees: at most one process at a time waits with an external content source, the
  calls that a change of state sets off come to an end, a launch is answered when its process is attached, and
  where the code falls short of it.
\<close>

section \<open>Exclusive use of the content source\<close>

text \<open>C6: whatever the order in which the bridge, the control applet, the applets and timeouts use the tracker, at
  most one process is created and not yet attached, at most one live process holds an external content source,
  the tracker's monitor is registered at exactly the process it names, and the tracker never has a home menu.\<close>

theorem single_content_source:
  assumes "applet_reachable env w"
  shows "length (at_created w) \<le> 1 \<and>
    (\<forall>i j. pr_ecs_pending (w_procs w i) \<and> pr_state (w_procs w i) \<noteq> Exited \<and>
           pr_ecs_pending (w_procs w j) \<and> pr_state (w_procs w j) \<noteq> Exited \<longrightarrow> i = j) \<and>
    (\<forall>i. TrackerMonitor \<in> set (pr_monitors (w_procs w i)) \<longleftrightarrow> at_monitor_process w = Some i) \<and>
    at_hbmenu w = None"
proof -
  have slim: "tracker_inv w" "length (at_created w) \<le> 1" using applet_reachable_slim [OF assms] by (simp_all add: slim_def)
  have "i \<in> set (at_created w)" if "pr_ecs_pending (w_procs w i)" "pr_state (w_procs w i) \<noteq> Exited" for i
    using proc_invD [OF slim(1), of i] that by (simp add: proc_inv_def)
  moreover have "i = j" if "i \<in> set (at_created w)" "j \<in> set (at_created w)" for i j
    using slim(2) that by (cases "at_created w") auto
  moreover have "TrackerMonitor \<in> set (pr_monitors (w_procs w i)) \<longleftrightarrow> at_monitor_process w = Some i" for i
  proof -
    have "set (tracker_monitors (w_procs w i)) = (if at_monitor_process w = Some i then {TrackerMonitor} else {})"
      using proc_invD [OF slim(1), of i] by (simp add: proc_inv_def)
    then show ?thesis by (auto simp: tracker_monitors_def split: if_splits)
  qed
  ultimately show ?thesis using slim by (simp add: tracker_inv_def)
qed

section \<open>The recursion ends\<close>

text \<open>Without a home menu nothing calls \<open>change\<close>; \<open>ends\<close> says that a call has the same result whatever it is, does
  not run out of fuel, and leaves no home menu.\<close>

definition ends :: "applet_result \<Rightarrow> applet_result \<Rightarrow> bool" where
  "ends r r' \<longleftrightarrow> r' = r \<and> r \<noteq> Inl OutOfFuel \<and> (\<forall>v. r = Inr v \<longrightarrow> at_hbmenu v = None)"

lemma ends_simps [simp]:
  "ends (Inl e) (Inl e) \<longleftrightarrow> e \<noteq> OutOfFuel" "ends (Inr w) (Inr w) \<longleftrightarrow> at_hbmenu w = None"
  by (auto simp: ends_def)

lemma ends_bind: "ends r r' \<Longrightarrow> (\<And>v. at_hbmenu v = None \<Longrightarrow> ends (f v) (f' v)) \<Longrightarrow> ends (sum_bind r f) (sum_bind r' f')"
  by (cases r) (auto simp: ends_def)

lemma view_hbmenu: "same_view w v \<Longrightarrow> at_hbmenu v = at_hbmenu w"
  by (simp add: same_view_def same_tracker_def)

lemma mod_proc_hbmenu [simp]: "at_hbmenu (mod_proc i f w) = at_hbmenu w"
  by (simp add: mod_proc_def)

lemma signal_hbmenu [simp]: "at_hbmenu (signal_if_ready w) = at_hbmenu w"
  by (rule view_hbmenu [OF signal_if_ready_view])

lemma Reattach_hbmenu [simp]: "at_hbmenu (Reattach p w) = at_hbmenu w"
  by (simp add: Reattach_def AddMonitor_def RemoveMonitor_def Let_def split: option.split)

lemma HBLLoad_ends: "at_hbmenu w = None \<Longrightarrow> ends (HBLLoad c env path argv w) (HBLLoad c' env path argv w)"
  by (simp add: HBLLoad_def QueueLaunch_def CreateProcess_def AppendCode_def Let_def split: option.split)

lemma tracker_StateChanged_ends:
  "at_hbmenu w = None \<Longrightarrow> ends (tracker_StateChanged c env st w) (tracker_StateChanged c' env st w)"
  by (auto simp: tracker_StateChanged_def Let_def intro!: ends_bind HBLLoad_ends split: option.split)

lemma notify_ends: "at_hbmenu w = None \<Longrightarrow> ends (notify c env st ms w) (notify c' env st ms w)"
proof (induction ms arbitrary: w)
  case (Cons m ms)
  then show ?case
    using view_hbmenu [OF bridge_StateChanged_view]
    by (cases m) (auto intro!: ends_bind tracker_StateChanged_ends)
qed simp

lemma after_state_ends:
  "at_hbmenu w = None \<Longrightarrow> ends (after_state_ecs env i st w) (after_state_ecs env i st w)"
  "at_hbmenu w = None \<Longrightarrow> ends (after_state_tracked env i st w) (after_state_tracked env i st w)"
  by (simp_all add: after_state_ecs_def after_state_tracked_def Let_def emit_def split: option.split prod.split)

lemma ChangeState_ends: "at_hbmenu w = None \<Longrightarrow> ends (ChangeState (Suc n) env i st w) (ChangeState (Suc m) env i st w)"
proof -
  assume "at_hbmenu w = None"
  moreover obtain u where "same_view w u" "enter_state i st w = mod_proc i (\<lambda>p. p\<lparr>pr_state := st\<rparr>) u"
    using enter_state_eq by blast
  ultimately have "at_hbmenu (enter_state i st w) = None" using view_hbmenu by simp
  then show ?thesis
    unfolding ChangeState.simps Let_def
    by (intro ends_bind notify_ends after_state_ends) simp_all
qed

text \<open>C32: the calls end. A change of state notifies monitors, which may load the next program and queue it; in
  every reachable state this takes one level of the recursion, so more fuel changes nothing and none runs out.\<close>

theorem change_of_state_ends:
  assumes "applet_reachable env w"
  shows "ChangeState (Suc n) env i st w = ChangeState 1 env i st w \<and> ChangeState (Suc n) env i st w \<noteq> Inl OutOfFuel"
proof -
  have "at_hbmenu w = None" using applet_reachable_slim [OF assms] by (simp add: slim_def tracker_inv_def)
  from ChangeState_ends [OF this, of 0 env i st n] show ?thesis by (simp add: ends_def)
qed

section \<open>Launching\<close>

text \<open>The answers to launch requests in the log.\<close>

definition is_answer :: "PEvent \<Rightarrow> bool" where
  "is_answer ev \<longleftrightarrow> (case ev of OpenerOk _ _ \<Rightarrow> True | OpenerError _ _ \<Rightarrow> True | _ \<Rightarrow> False)"

definition answers :: "AWorld \<Rightarrow> PEvent list" where
  "answers w = filter is_answer (w_log w)"

text \<open>Two worlds with the same answers and processes that differ in their monitors only.\<close>

definition quiet :: "AWorld \<Rightarrow> AWorld \<Rightarrow> bool" where
  "quiet w v \<longleftrightarrow> answers v = answers w \<and> w_procs v = w_procs w"

lemma quiet_trans: "quiet u v \<Longrightarrow> quiet v w \<Longrightarrow> quiet u w"
  by (simp add: quiet_def)

lemma quiet_refl: "quiet w w"
  by (simp add: quiet_def)

lemma quiet_notify: "st \<noteq> Exited \<Longrightarrow> notify change env st ms w = Inr v \<Longrightarrow> quiet w v"
proof (induction ms arbitrary: w)
  case (Cons m ms)
  have "quiet w (bridge_StateChanged k st w)" "quiet w (signal_if_ready w)" for k
    by (auto simp: quiet_def answers_def is_answer_def bridge_StateChanged_def signal_if_ready_def mod_mon_def emit_def
        split: option.split)
  with Cons show ?case by (cases m) (auto simp: tracker_StateChanged_def Let_def intro: quiet_trans)
qed (simp add: quiet_refl)

lemma ChangeState_attached:
  assumes run: "ChangeState (Suc n) env i Attached w = Inr v"
    and pid: "pr_proc (w_procs w i) = Some pid" and opener: "pr_run_opener (w_procs w i) = Some opener"
  shows "answers v = answers w @ [OpenerOk opener pid] \<and> pr_state (w_procs v i) = Attached \<and>
    pr_run_opener (w_procs v i) = None \<and>
    pr_target_entry (w_procs v i) = snd (find_code (pe_regions env pid) 0 (pr_target_entry (w_procs w i)))"
proof -
  let ?w1 = "enter_state i Attached w"
  obtain w2 w3 where n: "notify (ChangeState n env) env Attached (pr_monitors (w_procs ?w1 i)) ?w1 = Inr w2"
    and e: "after_state_ecs env i Attached w2 = Inr w3" and t: "after_state_tracked env i Attached w3 = Inr v"
    using run by (auto simp: Let_def sum_bind_eq_Inr)
  have w2: "answers w2 = answers w" "w_procs w2 i = (w_procs w i)\<lparr>pr_state := Attached\<rparr>"
    using quiet_notify [OF _ n] by (simp_all add: quiet_def enter_state_def mod_proc_def answers_def)
  have w3: "answers w3 = answers w" "w_procs w3 i = (w_procs w i)\<lparr>pr_state := Attached, pr_ecs_pending := False\<rparr>"
    using e w2 by (auto simp: after_state_ecs_def Let_def mod_proc_def answers_def)
  show ?thesis
    using t w3 pid opener
    by (auto simp: after_state_tracked_def Let_def mod_proc_def emit_def answers_def is_answer_def GetPid_def
        split: prod.splits if_splits)
qed

text \<open>A change to a state other than \<open>Exited\<close> cannot stop at the monitors.\<close>

lemma notify_live_total: "st \<noteq> Exited \<Longrightarrow> \<exists>v. notify change env st ms w = Inr v"
proof (induction ms arbitrary: w)
  case (Cons m ms)
  then show ?case by (cases m) (simp_all add: tracker_StateChanged_def Let_def)
qed simp

lemma ChangeState_attached_total:
  assumes "pr_proc (w_procs w i) = Some pid" and "fst (find_code (pe_regions env pid) 0 (pr_target_entry (w_procs w i))) = 2"
  shows "\<exists>v. ChangeState (Suc n) env i Attached w = Inr v"
proof -
  let ?w1 = "enter_state i Attached w"
  obtain w2 where n: "notify (ChangeState n env) env Attached (pr_monitors (w_procs ?w1 i)) ?w1 = Inr w2"
    using notify_live_total by blast
  have procs: "w_procs w2 i = (w_procs w i)\<lparr>pr_state := Attached\<rparr>"
    using quiet_notify [OF _ n] by (simp add: quiet_def enter_state_def mod_proc_def)
  let ?w3 = "mod_proc i (\<lambda>p. p\<lparr>pr_ecs_pending := False\<rparr>) w2"
  have "after_state_ecs env i Attached w2 = Inr ?w3" by (simp add: after_state_ecs_def)
  moreover have "\<exists>v. after_state_tracked env i Attached ?w3 = Inr v"
    using assms procs
    by (auto simp: after_state_tracked_def Let_def mod_proc_def emit_def split: option.split prod.split)
  ultimately show ?thesis using n by (auto simp: Let_def)
qed

lemma answers_quiet_steps [simp]:
  "answers (signal_if_ready w) = answers w" "answers (Reattach p w) = answers w"
  "answers (w\<lparr>at_created := is\<rparr>) = answers w" "answers (mod_proc i f w) = answers w"
  by (simp_all add: answers_def signal_if_ready_def emit_def is_answer_def Reattach_def AddMonitor_def
      RemoveMonitor_def mod_proc_def Let_def split: option.split)

text \<open>The members of a process that the tracker's bookkeeping leaves alone.\<close>

lemma bookkeeping_keeps:
  "pr_state (w_procs (signal_if_ready (Reattach p w)) i) = pr_state (w_procs w i)"
  "pr_run_opener (w_procs (signal_if_ready (Reattach p w)) i) = pr_run_opener (w_procs w i)"
  "pr_target_entry (w_procs (signal_if_ready (Reattach p w)) i) = pr_target_entry (w_procs w i)"
  "at_monitor_process (signal_if_ready (Reattach p w)) = p"
  "at_created (signal_if_ready (Reattach p w)) = at_created w"
  by (simp_all add: signal_if_ready_def emit_def Reattach_def AddMonitor_def RemoveMonitor_def mod_proc_def Let_def
      split: option.split)


text \<open>A launch whose module the loader's check refuses is lost. The control applet gets the error, the process
  leaves the queue, and the request that asked for the launch is never told: its response stays open and the
  process stays in \<open>Started\<close>.\<close>

theorem bad_module_drops_launch:
  assumes "at_queued w = i # rest" and "\<not> pr_exit_pending (w_procs w i)" and "pr_files (w_procs w i) = [nro]"
    and "NRONSO_Create nro = Inl (Code c got)" and "c \<noteq> TWILI_ERR_NO_LONGER_REQUESTED_TO_LAUNCH"
  shows "PopQueuedProcess (Suc n) env w = Inr (Inl c, w\<lparr>at_queued := rest\<rparr>)"
  using assms NRONSO_Create_code [OF assms(4)]
  by (simp add: PrepareForLaunch_def ECS_PrepareForLaunch_def)

text \<open>A process that waits in its shim can be killed once. The first request hands the callback its answer;
  until the shim has exited the state stays the same, and a second request calls an empty function.\<close>

theorem second_kill_throws:
  assumes "pr_state (w_procs w i) = ShimSuspended" and "pr_suspended_launch_cb (w_procs w i) = Some cb"
  shows "\<exists>v. Kill change i w = Inr v \<and> w_log v = w_log w @ [LaunchCb cb TWILI_ERR_NO_LONGER_REQUESTED_TO_LAUNCH] \<and>
    Kill change i v = Inl BadFunctionCall"
  using assms by (simp add: Kill_def take_launch_cb_def emit_def mod_proc_def)

section \<open>Witnesses\<close>

text \<open>A system whose services always succeed and whose processes have the two code regions of the loader.\<close>

definition demo_env :: PEnv where
  "demo_env = \<lparr>pe_SetECS = (\<lambda>_. 0), pe_ClearECS = (\<lambda>_. 0), pe_AttachSession = (\<lambda>_. 0), pe_TerminateProcess = (\<lambda>_. 0),
     pe_LaunchProgram = (\<lambda>_. Inr 5), pe_regions = (\<lambda>_. [(3, 5, 0x1000), (0, 0, 0x2000), (3, 5, 0x8000)]),
     pe_open = (\<lambda>_. None), pe_hbmenu_nro = Inl 1, pe_rtld = VectorFile [1], pe_npdm = VectorFile [2],
     pe_pipe_limit = 4096, pe_version_5 = True\<rparr>"

lemmas demo_steps = mod_proc_def mod_mon_def emit_def enter_state_def after_state_ecs_def after_state_tracked_def
  bridge_StateChanged_def signal_if_ready_def ReadyToLaunch_def Let_def

text \<open>A launch request, number 7, whose process the control applet has taken from the queue.\<close>

lemma demo_created:
  "\<exists>w. applet_reachable demo_env w \<and> at_created w = [0] \<and> pr_run_opener (w_procs w 0) = Some 7 \<and>
     pr_ecs_pending (w_procs w 0) \<and> pr_state (w_procs w 0) = Started \<and> pr_target_entry (w_procs w 0) = 0"
proof -
  define w1 where "w1 = AppendCode 0 (VectorFile demo_nro) (create_monitored demo_env 0 (AWorld_new demo_env))"
  have r1: "applet_reachable demo_env w1"
    unfolding w1_def
    by (rule applet_reachable.step [OF applet_reachable.step [OF applet_reachable.init applet_step.create]
          applet_step.append_code])
  have new: "pr_state (Proc_new demo_env) = Created" "\<not> pr_exit_pending (Proc_new demo_env)"
    "pr_target_entry (Proc_new demo_env) = 0" "pr_monitors (Proc_new demo_env) = []" "pr_files (Proc_new demo_env) = []"
    by (simp_all add: Proc_new_def)
  have p1: "w_procs w1 0 = (Proc_new demo_env)\<lparr>pr_monitors := [BridgeMonitor 0], pr_files := [VectorFile demo_nro]\<rparr>"
    "w_mons w1 0 = \<lparr>bm_process = 0, bm_state_observer = None, bm_state_changes = []\<rparr>"
    and t1: "at_hbmenu w1 = None" "at_queued w1 = []" "at_created w1 = []" "at_monitor_process w1 = None"
    by (simp_all add: w1_def create_monitored_def CreateProcess_def monitor_new_def AddMonitor_def AppendCode_def
        mod_proc_def mod_mon_def AWorld_new_def new)
  have w1: "live_monitor 0 w1" by (simp add: live_monitor_def p1)
  have "monitor_Launch 1 demo_env 0 7 w1 \<noteq> Inl e" for e
    by (simp add: monitor_Launch_def Launch_def QueueLaunch_def demo_steps p1 t1 new)
  then obtain w2 where run: "monitor_Launch 1 demo_env 0 7 w1 = Inr w2" by (cases "monitor_Launch 1 demo_env 0 7 w1") auto
  have w2: "at_queued w2 = [0]" "at_created w2 = []" "at_monitor_process w2 = None"
    "pr_files (w_procs w2 0) = [VectorFile demo_nro]" "\<not> pr_exit_pending (w_procs w2 0)"
    "pr_state (w_procs w2 0) = Started" "pr_run_opener (w_procs w2 0) = Some 7" "pr_target_entry (w_procs w2 0) = 0"
    using run by (auto simp: monitor_Launch_def Launch_def QueueLaunch_def demo_steps p1 t1 new)
  have r2: "applet_reachable demo_env w2"
    by (rule applet_reachable.step [OF r1 applet_step.launch [OF w1 run]])
  have ready: "GetCommand w2 = Inr 0" using w2 by (simp add: GetCommand_def ReadyToLaunch_def)
  obtain nso where nso: "NRONSO_Create (VectorFile demo_nro) = Inr nso" using demo_nro_accepted by blast
  obtain w3 where w3: "PopQueuedProcess 1 demo_env w2 = Inr (Inr 0, w3)" "at_created w3 = [0]"
    "pr_ecs_pending (w_procs w3 0)" "pr_state (w_procs w3 0) = Started" "pr_run_opener (w_procs w3 0) = Some 7"
    "pr_target_entry (w_procs w3 0) = 0"
    using w2 nso
    by (simp add: PrepareForLaunch_def ECS_PrepareForLaunch_def Let_def emit_def mod_proc_def demo_env_def
        TWILI_ERR_NO_LONGER_REQUESTED_TO_LAUNCH_def TWILI_RESULT_def RESULT_OK_def)
  from applet_reachable.step [OF r2 applet_step.pop [OF ready w3(1)]] w3 show ?thesis by blast
qed

theorem single_content_source_witness:
  "\<exists>w. applet_reachable demo_env w \<and> at_created w = [0] \<and> pr_ecs_pending (w_procs w 0) \<and>
     (\<forall>i. pr_ecs_pending (w_procs w i) \<and> pr_state (w_procs w i) \<noteq> Exited \<longrightarrow> i = 0)"
proof -
  obtain w where w: "applet_reachable demo_env w" "at_created w = [0]" "pr_ecs_pending (w_procs w 0)"
    "pr_state (w_procs w 0) = Started"
    using demo_created by blast
  have "i = 0" if "pr_ecs_pending (w_procs w i)" "pr_state (w_procs w i) \<noteq> Exited" for i
    using single_content_source [OF w(1)] w(3,4) that by auto
  with w show ?thesis by blast
qed

theorem change_of_state_ends_witness:
  "ChangeState (Suc 8) demo_env 3 Exited (AWorld_new demo_env) = ChangeState 1 demo_env 3 Exited (AWorld_new demo_env) \<and>
   ChangeState (Suc 8) demo_env 3 Exited (AWorld_new demo_env) \<noteq> Inl OutOfFuel"
  by (rule change_of_state_ends [OF applet_reachable.init])


theorem bad_module_drops_launch_witness:
  "\<exists>w. at_queued w = [0] \<and> PopQueuedProcess 1 demo_env w = Inr (Inl TWILI_ERR_INVALID_NRO, w\<lparr>at_queued := []\<rparr>)"
proof -
  let ?w = "(AppendCode 0 (VectorFile (replicate 20 0)) (AWorld_new demo_env))\<lparr>at_queued := [0]\<rparr>"
  have "NRONSO_Create (VectorFile (replicate 20 0)) = Inl (Code TWILI_ERR_INVALID_NRO None)"
    by (simp add: NRONSO_Create_def NROHeader_Read_def VectorFile_Read_def Let_def)
  moreover have "at_queued ?w = [0]" "\<not> pr_exit_pending (w_procs ?w 0)"
    "pr_files (w_procs ?w 0) = [VectorFile (replicate 20 0)]"
    by (simp_all add: AppendCode_def mod_proc_def AWorld_new_def Proc_new_def)
  moreover have "TWILI_ERR_INVALID_NRO \<noteq> TWILI_ERR_NO_LONGER_REQUESTED_TO_LAUNCH"
    by (simp add: TWILI_ERR_INVALID_NRO_def TWILI_ERR_NO_LONGER_REQUESTED_TO_LAUNCH_def TWILI_RESULT_def)
  ultimately have "PopQueuedProcess (Suc 0) demo_env ?w = Inr (Inl TWILI_ERR_INVALID_NRO, ?w\<lparr>at_queued := []\<rparr>)"
    by (intro bad_module_drops_launch)
  with \<open>at_queued ?w = [0]\<close> show ?thesis by (metis One_nat_def)
qed

theorem second_kill_throws_witness:
  "\<exists>w v. w_log w = [] \<and> Kill (ChangeState 1 demo_env) 0 w = Inr v \<and>
     w_log v = [LaunchCb 4 TWILI_ERR_NO_LONGER_REQUESTED_TO_LAUNCH] \<and>
     Kill (ChangeState 1 demo_env) 0 v = Inl BadFunctionCall"
proof -
  let ?w = "mod_proc 0 (\<lambda>p. p\<lparr>pr_state := ShimSuspended, pr_suspended_launch_cb := Some 4\<rparr>) (AWorld_new demo_env)"
  have w: "pr_state (w_procs ?w 0) = ShimSuspended" "pr_suspended_launch_cb (w_procs ?w 0) = Some 4" "w_log ?w = []"
    by (simp_all add: AppendCode_def mod_proc_def AWorld_new_def Proc_new_def)
  from second_kill_throws [OF w(1,2), of "ChangeState 1 demo_env"] w(3) show ?thesis by fastforce
qed

end
