(* ===== verification/ShellTracker.thy ===== *)
theory ShellTracker
  imports MonitoredProcess StdMap
begin

text \<open>
  \<open>ShellTracker\<close> (src/twili/process/ShellTracker.cpp) and the virtual functions of its processes. The shell is
  asked to launch one program at a time: a process is queued, then created, then its host process attaches. A
  program's shell events tell when it has exited. No monitor of a shell process calls back into the tracker, so
  unlike for applets a change of state does not recurse.
\<close>

section \<open>State\<close>

record SWorld = World +
  st_queued :: "nat list"
  st_created :: "nat list"
  st_tracking :: "(u64 \<times> nat) list"

type_synonym shell_result = "PStop + SWorld"

definition SWorld_new :: "PEnv \<Rightarrow> SWorld" where
  "SWorld_new env =
    \<lparr>w_procs = (\<lambda>_. Proc_new env), w_mons = (\<lambda>_. \<lparr>bm_process = 0, bm_state_observer = None, bm_state_changes = []\<rparr>),
     w_next = 0, w_log = [], st_queued = [], st_created = [], st_tracking = []\<rparr>"

section \<open>Processes\<close>

fun shell_notify :: "State \<Rightarrow> Monitor list \<Rightarrow> SWorld \<Rightarrow> SWorld" where
  "shell_notify st [] w = w"
| "shell_notify st (BridgeMonitor k # ms) w = shell_notify st ms (bridge_StateChanged k st w)"
| "shell_notify st (TrackerMonitor # ms) w = shell_notify st ms w"

definition shell_ChangeState :: "PEnv \<Rightarrow> nat \<Rightarrow> State \<Rightarrow> SWorld \<Rightarrow> shell_result" where
  "shell_ChangeState env i st w =
    (let w1 = enter_state i st w in
     sum_bind (after_state_ecs env i st (shell_notify st (pr_monitors (w_procs w1 i)) w1)) (after_state_tracked env i st))"

definition shell_Kill :: "PEnv \<Rightarrow> nat \<Rightarrow> SWorld \<Rightarrow> shell_result" where
  "shell_Kill env i w =
    (case pr_state (w_procs w i) of
       Created \<Rightarrow> shell_ChangeState env i Exited w
     | Started \<Rightarrow> Inr (mod_proc i (\<lambda>p. p\<lparr>pr_exit_pending := True\<rparr>) w)
     | ShimSuspended \<Rightarrow> take_launch_cb i TWILI_ERR_NO_LONGER_REQUESTED_TO_LAUNCH w
     | Exited \<Rightarrow> Inr w
     | _ \<Rightarrow> Inr (shell_KillImpl i w))"

definition shell_Terminate :: "PEnv \<Rightarrow> nat \<Rightarrow> SWorld \<Rightarrow> shell_result" where
  "shell_Terminate env i w =
    (if pr_state (w_procs w i) = Created then shell_ChangeState env i Exited w else terminate_rest env i w)"

definition shell_Continue :: "PEnv \<Rightarrow> nat \<Rightarrow> SWorld \<Rightarrow> shell_result" where
  "shell_Continue env i w =
    (if pr_state (w_procs w i) = ShimSuspended
     then sum_bind (shell_ChangeState env i Running w) (take_launch_cb i RESULT_OK)
     else Inr (mod_proc i (\<lambda>p. p\<lparr>pr_suspended_launch_enabled := False\<rparr>) w))"

definition shell_WaitToStart :: "PEnv \<Rightarrow> nat \<Rightarrow> nat \<Rightarrow> SWorld \<Rightarrow> shell_result" where
  "shell_WaitToStart env i cb w =
    (if pr_suspended_launch_enabled (w_procs w i)
     then sum_bind (shell_ChangeState env i ShimSuspended w)
            (\<lambda>w1. Inr (mod_proc i (\<lambda>p. p\<lparr>pr_suspended_launch_cb := Some cb\<rparr>) w1))
     else sum_bind (shell_ChangeState env i Running w) (\<lambda>w1. Inr (emit (LaunchCb cb RESULT_OK) w1)))"

definition shell_Attach :: "PEnv \<Rightarrow> nat \<Rightarrow> u64 \<Rightarrow> SWorld \<Rightarrow> shell_result" where
  "shell_Attach env i pid w =
    (if pr_proc (w_procs w i) \<noteq> None then Inl (Abort TWILI_ERR_MONITORED_PROCESS_ALREADY_ATTACHED)
     else shell_ChangeState env i Attached (mod_proc i (\<lambda>p. p\<lparr>pr_proc := Some pid\<rparr>) w))"

definition shell_PrepareForLaunch :: "PEnv \<Rightarrow> nat \<Rightarrow> SWorld \<Rightarrow> PStop + u32 \<times> SWorld" where
  "shell_PrepareForLaunch env i w =
    (if pr_exit_pending (w_procs w i)
     then sum_bind (shell_ChangeState env i Exited w) (\<lambda>w1. Inr (TWILI_ERR_NO_LONGER_REQUESTED_TO_LAUNCH, w1))
     else ECS_PrepareForLaunch env i w)"

section \<open>The tracker\<close>

definition shell_QueueLaunch :: "nat \<Rightarrow> SWorld \<Rightarrow> SWorld" where
  "shell_QueueLaunch i w = emit QueuedSignal (w\<lparr>st_queued := st_queued w @ [i]\<rparr>)"

definition shell_Launch :: "PEnv \<Rightarrow> nat \<Rightarrow> nat \<Rightarrow> SWorld \<Rightarrow> shell_result" where
  "shell_Launch env i opener w =
    sum_bind (shell_ChangeState env i Started (mod_proc i (\<lambda>p. p\<lparr>pr_run_opener := Some opener\<rparr>) w))
      (\<lambda>w1. Inr (shell_QueueLaunch i w1))"

definition shell_ReadyToLaunch :: "SWorld \<Rightarrow> bool" where
  "shell_ReadyToLaunch w \<longleftrightarrow> st_created w = []"

text \<open>The loop over the queue; its argument is the rest of the queue.\<close>

fun shell_PopQueuedProcess :: "PEnv \<Rightarrow> nat list \<Rightarrow> SWorld \<Rightarrow> PStop + (u32 + nat) \<times> SWorld" where
  "shell_PopQueuedProcess env [] w = Inr (Inl TWILI_ERR_NO_LONGER_REQUESTED_TO_LAUNCH, w\<lparr>st_queued := []\<rparr>)"
| "shell_PopQueuedProcess env (i # rest) w =
    sum_bind (shell_PrepareForLaunch env i (w\<lparr>st_queued := rest\<rparr>)) (\<lambda>(r, w1).
      if r = TWILI_ERR_NO_LONGER_REQUESTED_TO_LAUNCH then shell_PopQueuedProcess env rest w1
      else if r \<noteq> RESULT_OK then Inr (Inl r, w1)
      else Inr (Inr i, w1\<lparr>st_created := st_created w1 @ [i]\<rparr>))"

definition RequestLaunchECSProgram :: "PEnv \<Rightarrow> SWorld \<Rightarrow> (u32 + u64) \<times> SWorld" where
  "RequestLaunchECSProgram env w =
    (let flags = (if pe_version_5 env then 0xb else 0x31)
     in (pe_LaunchProgram env (at_time w), emit (LaunchProgram flags) w))"

definition TryToLaunch :: "PEnv \<Rightarrow> SWorld \<Rightarrow> shell_result" where
  "TryToLaunch env w =
    (if \<not> shell_ReadyToLaunch w then Inr w
     else
       sum_bind (shell_PopQueuedProcess env (st_queued w) w) (\<lambda>(popped, w1).
         case popped of
           Inl _ \<Rightarrow> Inr w1
         | Inr i \<Rightarrow>
             (case RequestLaunchECSProgram env w1 of
                (Inr pid, w2) \<Rightarrow> Inr (w2\<lparr>st_tracking := map_emplace pid i (st_tracking w2)\<rparr>)
              | (Inl r, w2) \<Rightarrow>
                  sum_bind (shell_ChangeState env i Exited (SetResult i r w2)) (\<lambda>w3. Inr (w3\<lparr>st_created := []\<rparr>)))))"

definition shell_AttachHostProcess :: "PEnv \<Rightarrow> u64 \<Rightarrow> SWorld \<Rightarrow> PStop + nat \<times> SWorld" where
  "shell_AttachHostProcess env pid w =
    (case st_created w of
       [] \<Rightarrow> Inl (Abort TWILI_ERR_TRACKER_NO_PROCESSES_CREATED)
     | i # _ \<Rightarrow>
         sum_bind (shell_Attach env i pid w) (\<lambda>w1. Inr (i, emit QueuedSignal (w1\<lparr>st_created := tl (st_created w1)\<rparr>))))"

datatype ShellEventType = ShellExit | ShellLaunch | ShellOther nat

fun shell_event :: "PEnv \<Rightarrow> ShellEventType \<times> u64 \<Rightarrow> SWorld \<Rightarrow> shell_result" where
  "shell_event env (ShellExit, pid) w =
    (case map_of (st_tracking w) pid of
       None \<Rightarrow> Inr w
     | Some i \<Rightarrow> sum_bind (shell_ChangeState env i Exited w) (\<lambda>w1. Inr (w1\<lparr>st_tracking := map_erase pid (st_tracking w1)\<rparr>)))"
| "shell_event env (ShellLaunch, pid) w = Inr w"
| "shell_event env (ShellOther _, pid) w = Inr w"

text \<open>The handler of the event: as many events as the service has.\<close>

fun shell_events :: "PEnv \<Rightarrow> (ShellEventType \<times> u64) list \<Rightarrow> SWorld \<Rightarrow> shell_result" where
  "shell_events env [] w = Inr w"
| "shell_events env (ev # evs) w = sum_bind (shell_event env ev w) (shell_events env evs)"

definition shell_monitor_new :: "PEnv \<Rightarrow> nat \<Rightarrow> SWorld \<Rightarrow> SWorld" where
  "shell_monitor_new env k w =
    (let (i, w1) = CreateProcess env w in
     AddMonitor i (BridgeMonitor k) (mod_mon k (\<lambda>_. \<lparr>bm_process = i, bm_state_observer = None, bm_state_changes = []\<rparr>) w1))"

section \<open>What changes of state leave alone\<close>

definition st_same :: "SWorld \<Rightarrow> SWorld \<Rightarrow> bool" where
  "st_same w v \<longleftrightarrow> st_queued v = st_queued w \<and> st_created v = st_created w \<and> st_tracking v = st_tracking w"

named_theorems st

lemma st_same_refl [st]: "st_same w w"
  by (simp add: st_same_def)

lemma st_same_trans: "st_same u v \<Longrightarrow> st_same v w \<Longrightarrow> st_same u w"
  by (simp add: st_same_def)

lemma st_same_basic [st]:
  "st_same w (emit ev w)" "st_same w (mod_proc i f w)" "st_same w (mod_mon k g w)" "st_same w (emit_all pipe evs w)"
  by (simp_all add: st_same_def emit_def mod_proc_def mod_mon_def emit_all_def)

lemma take_launch_cb_st: "take_launch_cb i r w = Inr v \<Longrightarrow> st_same w v"
  by (auto simp: take_launch_cb_def st_same_def emit_def mod_proc_def split: option.splits)

lemma close_pipes_st [st]: "st_same w (close_pipes i w)"
  by (simp add: close_pipes_def Let_def split_beta st_same_def emit_all_def mod_proc_def)

lemma enter_state_st [st]: "st_same w (enter_state i st w)"
proof -
  let ?w1 = "if st = Exited then close_pipes i w else w"
  let ?w2 = "if st = Exited then (case take_launch_cb i TWILI_ERR_NO_LONGER_REQUESTED_TO_LAUNCH ?w1 of Inl _ \<Rightarrow> ?w1 | Inr w' \<Rightarrow> w') else ?w1"
  have "st_same w ?w1" by (simp add: st)
  moreover have "st_same ?w1 ?w2" by (auto simp: st_same_refl take_launch_cb_st split: sum.split)
  moreover have "enter_state i st w = mod_proc i (\<lambda>p. p\<lparr>pr_state := st\<rparr>) ?w2" by (simp add: enter_state_def Let_def)
  ultimately show ?thesis using st_same_trans st_same_basic(2) by metis
qed

lemma bridge_StateChanged_st [st]: "st_same w (bridge_StateChanged k st w)"
  by (simp add: bridge_StateChanged_def st_same_def emit_def mod_mon_def split: option.split)

lemma shell_notify_st [st]: "st_same w (shell_notify st ms w)"
  by (induction st ms w rule: shell_notify.induct) (auto intro: st st_same_trans)

lemma after_state_st:
  "after_state_ecs env i st w = Inr v \<Longrightarrow> st_same w v" "after_state_tracked env i st w = Inr v \<Longrightarrow> st_same w v"
  by (auto simp: after_state_ecs_def after_state_tracked_def st_same_def emit_def mod_proc_def Let_def
      split: if_splits option.splits prod.splits)

lemma shell_ChangeState_st: "shell_ChangeState env i st w = Inr v \<Longrightarrow> st_same w v"
proof -
  assume run: "shell_ChangeState env i st w = Inr v"
  let ?w1 = "enter_state i st w" and ?w2 = "shell_notify st (pr_monitors (w_procs (enter_state i st w) i)) (enter_state i st w)"
  from run obtain w3 where w3: "after_state_ecs env i st ?w2 = Inr w3" "after_state_tracked env i st w3 = Inr v"
    by (auto simp: shell_ChangeState_def Let_def sum_bind_eq_Inr)
  have "st_same w ?w2" using st_same_trans [OF enter_state_st shell_notify_st] .
  then show ?thesis using st_same_trans after_state_st(1) [OF w3(1)] after_state_st(2) [OF w3(2)] by metis
qed

text \<open>What a change of state leaves alone in its process.\<close>

definition keeps_proc :: "nat \<Rightarrow> SWorld \<Rightarrow> SWorld \<Rightarrow> bool" where
  "keeps_proc i w v \<longleftrightarrow> pr_run_opener (w_procs v i) = pr_run_opener (w_procs w i) \<and> pr_result (w_procs v i) = pr_result (w_procs w i)"

lemma keeps_proc_trans: "keeps_proc i u v \<Longrightarrow> keeps_proc i v w \<Longrightarrow> keeps_proc i u w"
  by (simp add: keeps_proc_def)

lemma enter_state_keeps: "keeps_proc i w (enter_state i st w)" "pr_state (w_procs (enter_state i st w) i) = st"
proof -
  have "keeps_proc i w (close_pipes i w)"
    by (simp add: close_pipes_def Let_def split_beta keeps_proc_def emit_all_def mod_proc_def)
  moreover have "take_launch_cb i r u = Inr v \<Longrightarrow> keeps_proc i u v" for r u v
    by (auto simp: take_launch_cb_def keeps_proc_def emit_def mod_proc_def split: option.splits)
  ultimately show "keeps_proc i w (enter_state i st w)" "pr_state (w_procs (enter_state i st w) i) = st"
    by (auto simp: enter_state_def Let_def split: sum.split) (auto simp: keeps_proc_def mod_proc_def)
qed

lemma shell_notify_procs [simp]: "w_procs (shell_notify st ms w) = w_procs w"
  by (induction st ms w rule: shell_notify.induct)
    (simp_all add: bridge_StateChanged_def emit_def mod_mon_def split: option.split)

lemma shell_exit_state: "shell_ChangeState env i Exited w = Inr v \<Longrightarrow> pr_state (w_procs v i) = Exited"
  using enter_state_keeps(2) [of i Exited w]
  by (auto simp: shell_ChangeState_def Let_def sum_bind_eq_Inr after_state_ecs_def after_state_tracked_def emit_def mod_proc_def
      split: if_splits option.splits)

text \<open>A process that exits answers the request that launched it.\<close>

lemma shell_exit_answers:
  assumes "\<And>t. pe_ClearECS env t = RESULT_OK" and "pr_run_opener (w_procs w i) = Some opener"
  shows "\<exists>v. shell_ChangeState env i Exited w = Inr v \<and> last (w_log v) = OpenerError opener (GetResult (w_procs w i)) \<and>
    pr_run_opener (w_procs v i) = None"
proof -
  let ?w2 = "shell_notify Exited (pr_monitors (w_procs (enter_state i Exited w) i)) (enter_state i Exited w)"
  have k: "keeps_proc i w ?w2" using enter_state_keeps(1) by (simp add: keeps_proc_def)
  obtain w3 where w3: "after_state_ecs env i Exited ?w2 = Inr w3" "w_procs w3 = w_procs ?w2"
    using assms(1) by (cases "pr_ecs_pending (w_procs (enter_state i Exited w) i)") (simp_all add: after_state_ecs_def Let_def emit_def)
  have "pr_run_opener (w_procs w3 i) = Some opener" "GetResult (w_procs w3 i) = GetResult (w_procs w i)"
    using k w3(2) assms(2) by (simp_all add: keeps_proc_def GetResult_def)
  then show ?thesis using w3(1) by (simp add: shell_ChangeState_def Let_def after_state_tracked_def emit_def mod_proc_def)
qed

section \<open>Properties\<close>

text \<open>The events that reach the tracker and its processes, in any order.\<close>

inductive shell_step :: "PEnv \<Rightarrow> SWorld \<Rightarrow> SWorld \<Rightarrow> bool" for env where
  monitor: "shell_step env w (shell_monitor_new env k w)"
| code: "shell_step env w (AppendCode i f w)"
| launch: "shell_Launch env i opener w = Inr v \<Longrightarrow> shell_step env w v"
| kill: "shell_Kill env i w = Inr v \<Longrightarrow> shell_step env w v"
| terminate: "shell_Terminate env i w = Inr v \<Longrightarrow> shell_step env w v"
| resume: "shell_Continue env i w = Inr v \<Longrightarrow> shell_step env w v"
| wait: "shell_WaitToStart env i cb w = Inr v \<Longrightarrow> shell_step env w v"
| host: "shell_AttachHostProcess env pid w = Inr (i, v) \<Longrightarrow> shell_step env w v"
| events: "shell_events env evs w = Inr v \<Longrightarrow> shell_step env w v"
| try_launch: "TryToLaunch env w = Inr v \<Longrightarrow> shell_step env w v"

inductive shell_reachable :: "PEnv \<Rightarrow> SWorld \<Rightarrow> bool" for env where
  start: "shell_reachable env (SWorld_new env)"
| step: "shell_reachable env w \<Longrightarrow> shell_step env w v \<Longrightarrow> shell_reachable env v"

lemma ECS_PrepareForLaunch_st: "ECS_PrepareForLaunch env i w = Inr (r, v) \<Longrightarrow> st_same w v"
  by (auto simp: ECS_PrepareForLaunch_def st_same_def emit_def mod_proc_def Let_def split: list.splits if_splits sum.splits FileError.splits)

lemma shell_PrepareForLaunch_st: "shell_PrepareForLaunch env i w = Inr (r, v) \<Longrightarrow> st_same w v"
  by (auto simp: shell_PrepareForLaunch_def sum_bind_eq_Inr dest: shell_ChangeState_st ECS_PrepareForLaunch_st split: if_splits)

lemma shell_PopQueuedProcess_created:
  "shell_PopQueuedProcess env q w = Inr (popped, v) \<Longrightarrow>
    st_created v = st_created w @ (case popped of Inl _ \<Rightarrow> [] | Inr i \<Rightarrow> [i])"
proof (induction env q w rule: shell_PopQueuedProcess.induct)
  case (2 env i rest w)
  from 2(2) obtain r w1 where p: "shell_PrepareForLaunch env i (w\<lparr>st_queued := rest\<rparr>) = Inr (r, w1)" by (auto simp: sum_bind_eq_Inr)
  have "st_created w1 = st_created w" using shell_PrepareForLaunch_st [OF p] by (simp add: st_same_def)
  with 2(1) 2(2) p show ?case by (auto split: if_splits)
qed auto

lemma shell_events_created: "shell_events env evs w = Inr v \<Longrightarrow> st_created v = st_created w"
proof (induction evs arbitrary: w)
  case (Cons ev evs)
  then obtain w1 where w1: "shell_event env ev w = Inr w1" "shell_events env evs w1 = Inr v" by (auto simp: sum_bind_eq_Inr)
  obtain ty pid where ev: "ev = (ty, pid)" by fastforce
  have "st_created w1 = st_created w"
    using w1(1) by (cases ty) (auto simp: ev sum_bind_eq_Inr st_same_def dest!: shell_ChangeState_st split: option.splits)
  with Cons.IH [OF w1(2)] show ?case by simp
qed simp

lemma TryToLaunch_created:
  assumes "TryToLaunch env w = Inr v"
  shows "st_created v = st_created w \<or> length (st_created v) \<le> 1"
proof (cases "st_created w = []")
  case True
  with assms obtain popped w1 where w1: "shell_PopQueuedProcess env (st_queued w) w = Inr (popped, w1)"
    by (auto simp: TryToLaunch_def shell_ReadyToLaunch_def sum_bind_eq_Inr split: if_splits)
  have "length (st_created w1) \<le> 1" using shell_PopQueuedProcess_created [OF w1] True by (auto split: sum.splits)
  with assms w1 True show ?thesis
    by (auto simp: TryToLaunch_def shell_ReadyToLaunch_def RequestLaunchECSProgram_def emit_def sum_bind_eq_Inr split: sum.splits)
next
  case False
  with assms show ?thesis by (simp add: TryToLaunch_def shell_ReadyToLaunch_def)
qed

lemmas shell_frames = shell_ChangeState_st take_launch_cb_st

lemma shell_step_created:
  assumes "shell_step env w v"
  shows "length (st_created v) \<le> max 1 (length (st_created w))"
  using assms
proof cases
  case (launch i opener)
  then show ?thesis by (auto simp: shell_Launch_def shell_QueueLaunch_def sum_bind_eq_Inr st_same_def emit_def mod_proc_def dest!: shell_frames)
next
  case (kill i)
  then show ?thesis
    by (auto simp: shell_Kill_def shell_KillImpl_def st_same_def emit_def mod_proc_def dest!: shell_frames split: State.splits)
next
  case (terminate i)
  then show ?thesis
    by (auto simp: shell_Terminate_def terminate_rest_def sum_bind_eq_Inr st_same_def emit_def dest!: shell_frames split: if_splits option.splits)
next
  case (resume i)
  then show ?thesis
    by (auto simp: shell_Continue_def sum_bind_eq_Inr st_same_def mod_proc_def dest!: shell_frames split: if_splits)
next
  case (wait i cb)
  then show ?thesis
    by (auto simp: shell_WaitToStart_def sum_bind_eq_Inr st_same_def mod_proc_def emit_def dest!: shell_frames split: if_splits)
next
  case (host pid i)
  then show ?thesis
    by (auto simp: shell_AttachHostProcess_def shell_Attach_def sum_bind_eq_Inr st_same_def mod_proc_def emit_def
        dest!: shell_frames split: list.splits if_splits)
next
  case (events evs)
  then show ?thesis using shell_events_created by simp
next
  case try_launch
  then show ?thesis using TryToLaunch_created by fastforce
qed (simp_all add: shell_monitor_new_def CreateProcess_def AddMonitor_def AppendCode_def mod_mon_def mod_proc_def Let_def)

text \<open>C24: at most one shell process is in limbo. In every state that the tracker reaches, at most one process has been
  created and has not attached, so that the host process that attaches is the one that was launched last.\<close>

theorem shell_one_in_limbo:
  assumes "shell_reachable env w"
  shows "length (st_created w) \<le> 1"
  using assms
proof (induction rule: shell_reachable.induct)
  case start
  show ?case by (simp add: SWorld_new_def)
next
  case (step w v)
  then show ?case using shell_step_created [OF step.hyps(2)] by simp
qed



definition shell_env :: PEnv where
  "shell_env = \<lparr>pe_SetECS = (\<lambda>_. 0), pe_ClearECS = (\<lambda>_. 0), pe_AttachSession = (\<lambda>_. 0), pe_TerminateProcess = (\<lambda>_. 0),
     pe_LaunchProgram = (\<lambda>_. Inl 5), pe_regions = (\<lambda>_. []), pe_open = (\<lambda>_. None), pe_hbmenu_nro = Inl 1,
     pe_rtld = VectorFile [], pe_npdm = VectorFile [], pe_pipe_limit = 16, pe_version_5 = True\<rparr>"

theorem shell_one_in_limbo_witness: "length (st_created (shell_monitor_new shell_env 0 (SWorld_new shell_env))) \<le> 1"
  by (rule shell_one_in_limbo [OF shell_reachable.step [OF shell_reachable.start shell_step.monitor]])

definition shell_queued :: SWorld where
  "shell_queued = (mod_proc 0 (\<lambda>p. p\<lparr>pr_run_opener := Some 7, pr_files := [VectorFile demo_nro]\<rparr>) (SWorld_new shell_env))\<lparr>st_queued := [0]\<rparr>"



end
