(* ===== verification/ToolPacking.thy ===== *)
theory ToolPacking
  imports Request
begin

text \<open>
  The arguments and results of remote calls on the side of the tool (src/twib/tool/Packing.hpp and the smart
  requests of RemoteObject.hpp). What the tool packs is what the request handlers of the device unpack, and what
  the device packs is what the tool unpacks; both codecs were written by hand.

  A POD value is its bytes, a vector of PODs has the element size and the bytes of its elements, and a
  \<open>msgpack11::MsgPack\<close> is the string that \<open>dump\<close> returns or \<open>parse\<close> is given.
\<close>

section \<open>Values\<close>

datatype ToolType = TyPod nat | TyPodVec nat | TyVector ToolType | TyString | TyMsgPack

datatype ToolVal = TvPod "byte list" | TvPodVec nat "byte list list" | TvVector "ToolVal list" | TvString "byte list" | TvMsgPack "byte list"

text \<open>\<open>in\<close>, \<open>out\<close> and \<open>out_object\<close>.\<close>

datatype ToolArg = ArgIn ToolVal | ArgOut ToolType | ArgOutObject

fun tool_Pack :: "ToolVal \<Rightarrow> Buffer \<Rightarrow> Buffer"
  and tool_Pack_elems :: "ToolVal list \<Rightarrow> Buffer \<Rightarrow> Buffer" where
  "tool_Pack (TvPod val) b = Put b val"
| "tool_Pack (TvPodVec sz elems) b = Put (Put b (bytes64 (of_nat (length elems)))) (concat elems)"
| "tool_Pack (TvVector vs) b = tool_Pack_elems vs (Put b (bytes64 (of_nat (length vs))))"
| "tool_Pack (TvString s) b = Put (Put b (bytes64 (of_nat (length s)))) s"
| "tool_Pack (TvMsgPack ser) b = Put (Put b (bytes64 (of_nat (length ser)))) ser"
| "tool_Pack_elems [] b = b"
| "tool_Pack_elems (v # vs) b = tool_Pack_elems vs (tool_Pack v b)"

text \<open>\<open>resize\<close> throws for more elements than \<open>max_size\<close>; the sizes of the classes are those of libstdc++.\<close>

fun sizeof_type :: "ToolType \<Rightarrow> nat" where
  "sizeof_type (TyPod n) = n"
| "sizeof_type (TyPodVec _) = 24"
| "sizeof_type (TyVector _) = 24"
| "sizeof_type TyString = 32"
| "sizeof_type TyMsgPack = 16"

datatype 'a Unpacked = UnpackFailed | UnpackThrows | Unpacked 'a Buffer

definition read_u64 :: "Buffer \<Rightarrow> (nat \<times> Buffer) option" where
  "read_u64 b = map_option (\<lambda>(bs, b'). (unat (word64 bs), b')) (Read b 8)"

fun chop :: "nat \<Rightarrow> nat \<Rightarrow> byte list \<Rightarrow> byte list list" where
  "chop sz 0 bs = []"
| "chop sz (Suc n) bs = take sz bs # chop sz n (drop sz bs)"

fun tool_Unpack :: "ToolType \<Rightarrow> Buffer \<Rightarrow> ToolVal Unpacked"
  and tool_Unpack_elems :: "ToolType \<Rightarrow> nat \<Rightarrow> Buffer \<Rightarrow> ToolVal list Unpacked" where
  "tool_Unpack (TyPod n) b = (case Read b n of None \<Rightarrow> UnpackFailed | Some (bs, b1) \<Rightarrow> Unpacked (TvPod bs) b1)"
| "tool_Unpack (TyPodVec sz) b =
    (case read_u64 b of
       None \<Rightarrow> UnpackFailed
     | Some (n, b1) \<Rightarrow>
         if n * sz > MAX_ALLOC then UnpackThrows
         else (case Read b1 (sz * n) of
                 None \<Rightarrow> UnpackFailed
               | Some (bs, b2) \<Rightarrow> Unpacked (TvPodVec sz (chop sz n bs)) b2))"
| "tool_Unpack (TyVector ty) b =
    (case read_u64 b of
       None \<Rightarrow> UnpackFailed
     | Some (n, b1) \<Rightarrow>
         if n * sizeof_type ty > MAX_ALLOC then UnpackThrows
         else (case tool_Unpack_elems ty n b1 of
                 Unpacked vs b2 \<Rightarrow> Unpacked (TvVector vs) b2
               | UnpackFailed \<Rightarrow> UnpackFailed | UnpackThrows \<Rightarrow> UnpackThrows))"
| "tool_Unpack TyString b =
    (case read_u64 b of
       None \<Rightarrow> UnpackFailed
     | Some (n, b1) \<Rightarrow>
         (case Read_string b1 n of None \<Rightarrow> UnpackFailed | Some (s, b2) \<Rightarrow> Unpacked (TvString s) b2))"
| "tool_Unpack TyMsgPack b =
    (case read_u64 b of
       None \<Rightarrow> UnpackFailed
     | Some (n, b1) \<Rightarrow>
         (case Read_string b1 n of None \<Rightarrow> UnpackFailed | Some (s, b2) \<Rightarrow> Unpacked (TvMsgPack s) b2))"
| "tool_Unpack_elems ty 0 b = Unpacked [] b"
| "tool_Unpack_elems ty (Suc n) b =
    (case tool_Unpack ty b of
       Unpacked v b1 \<Rightarrow>
         (case tool_Unpack_elems ty n b1 of
            Unpacked vs b2 \<Rightarrow> Unpacked (v # vs) b2 | UnpackFailed \<Rightarrow> UnpackFailed | UnpackThrows \<Rightarrow> UnpackThrows)
     | UnpackFailed \<Rightarrow> UnpackFailed | UnpackThrows \<Rightarrow> UnpackThrows)"

section \<open>Smart requests\<close>

text \<open>\<open>WrappingHelper\<close> at the arguments of a call. A remote object is its id.\<close>

fun pack_args :: "ToolArg list \<Rightarrow> Buffer \<Rightarrow> Buffer" where
  "pack_args [] b = b"
| "pack_args (ArgIn v # as) b = pack_args as (tool_Pack v b)"
| "pack_args (_ # as) b = pack_args as b"

datatype OutVal = OutVal ToolVal | OutObject u32

definition unpack_object :: "u32 list \<Rightarrow> Buffer \<Rightarrow> u32 Unpacked" where
  "unpack_object objects b =
    (case Read b 4 of
       None \<Rightarrow> UnpackFailed
     | Some (bs, b1) \<Rightarrow>
         if unat (word32 bs) \<ge> length objects then UnpackFailed else Unpacked (objects ! unat (word32 bs)) b1)"

fun unpack_args :: "ToolArg list \<Rightarrow> u32 list \<Rightarrow> Buffer \<Rightarrow> OutVal list Unpacked" where
  "unpack_args [] objects b = Unpacked [] b"
| "unpack_args (ArgIn _ # as) objects b = unpack_args as objects b"
| "unpack_args (ArgOut ty # as) objects b =
    (case tool_Unpack ty b of
       Unpacked v b1 \<Rightarrow>
         (case unpack_args as objects b1 of
            Unpacked vs b2 \<Rightarrow> Unpacked (OutVal v # vs) b2 | UnpackFailed \<Rightarrow> UnpackFailed | UnpackThrows \<Rightarrow> UnpackThrows)
     | UnpackFailed \<Rightarrow> UnpackFailed | UnpackThrows \<Rightarrow> UnpackThrows)"
| "unpack_args (ArgOutObject # as) objects b =
    (case unpack_object objects b of
       Unpacked obj b1 \<Rightarrow>
         (case unpack_args as objects b1 of
            Unpacked vs b2 \<Rightarrow> Unpacked (OutObject obj # vs) b2 | UnpackFailed \<Rightarrow> UnpackFailed | UnpackThrows \<Rightarrow> UnpackThrows)
     | UnpackFailed \<Rightarrow> UnpackFailed | UnpackThrows \<Rightarrow> UnpackThrows)"

record ToolResponse =
  tr_result_code :: u32
  tr_payload :: "byte list"
  tr_objects :: "u32 list"

datatype SmartResult = Returned u32 "OutVal list" | ThrownResultError u32 | ThrownLengthError

text \<open>\<open>send\<close> is \<open>SendSyncRequestWithoutAssert\<close> of the command: the response to a payload.\<close>

definition smart_payload :: "ToolArg list \<Rightarrow> byte list" where
  "smart_payload args = GetData (pack_args args Buffer_new)"

definition SendSmartSyncRequestWithoutAssert :: "(byte list \<Rightarrow> ToolResponse) \<Rightarrow> ToolArg list \<Rightarrow> SmartResult" where
  "SendSmartSyncRequestWithoutAssert send args =
    (let r = send (smart_payload args) in
     if tr_result_code r \<noteq> 0 then Returned (tr_result_code r) []
     else
       (case unpack_args args (tr_objects r) (Buffer_of_vector (tr_payload r)) of
          Unpacked vs _ \<Rightarrow> Returned 0 vs
        | UnpackFailed \<Rightarrow> ThrownResultError TWILI_ERR_PROTOCOL_BAD_RESPONSE
        | UnpackThrows \<Rightarrow> ThrownLengthError))"

definition SendSmartSyncRequest :: "(byte list \<Rightarrow> ToolResponse) \<Rightarrow> ToolArg list \<Rightarrow> SmartResult" where
  "SendSmartSyncRequest send args =
    (case SendSmartSyncRequestWithoutAssert send args of
       Returned r vs \<Rightarrow> if r \<noteq> 0 then ThrownResultError r else Returned 0 vs
     | res \<Rightarrow> res)"

text \<open>The callback of \<open>SendSmartRequest\<close>: the codes that it passes to \<open>func\<close>, in order. (\<open>None\<close>: \<open>resize\<close> throws.)\<close>

definition SendSmartRequest_callback :: "ToolArg list \<Rightarrow> ToolResponse \<Rightarrow> u32 list option" where
  "SendSmartRequest_callback args r =
    (let first = (if tr_result_code r \<noteq> 0 then [tr_result_code r] else []) in
     case unpack_args args (tr_objects r) (Buffer_of_vector (tr_payload r)) of
       Unpacked vs _ \<Rightarrow> Some (first @ [0])
     | UnpackFailed \<Rightarrow> Some (first @ [TWILI_ERR_PROTOCOL_BAD_RESPONSE])
     | UnpackThrows \<Rightarrow> None)"

section \<open>From the tool to the device\<close>

fun tool_bytes :: "ToolVal \<Rightarrow> byte list" where
  "tool_bytes (TvPod val) = val"
| "tool_bytes (TvPodVec sz elems) = bytes64 (of_nat (length elems)) @ concat elems"
| "tool_bytes (TvVector vs) = bytes64 (of_nat (length vs)) @ concat (map tool_bytes vs)"
| "tool_bytes (TvString s) = bytes64 (of_nat (length s)) @ s"
| "tool_bytes (TvMsgPack ser) = bytes64 (of_nat (length ser)) @ ser"

lemma tool_Pack_contents:
  "buf_ok b \<Longrightarrow> limit b = None \<Longrightarrow>
    buf_ok (tool_Pack v b) \<and> limit (tool_Pack v b) = None \<and> contents (tool_Pack v b) = contents b @ tool_bytes v"
  "buf_ok b \<Longrightarrow> limit b = None \<Longrightarrow>
    buf_ok (tool_Pack_elems vs b) \<and> limit (tool_Pack_elems vs b) = None \<and>
    contents (tool_Pack_elems vs b) = contents b @ concat (map tool_bytes vs)"
  by (induction v b and vs b rule: tool_Pack_tool_Pack_elems.induct) simp_all

definition in_values :: "ToolArg list \<Rightarrow> ToolVal list" where
  "in_values args = concat (map (\<lambda>a. case a of ArgIn v \<Rightarrow> [v] | _ \<Rightarrow> []) args)"

lemma pack_args_contents:
  "buf_ok b \<Longrightarrow> limit b = None \<Longrightarrow> contents (pack_args args b) = contents b @ concat (map tool_bytes (in_values args))"
proof (induction args b rule: pack_args.induct)
  case (2 v as b)
  then show ?case using tool_Pack_contents(1) [of b v] by (simp add: in_values_def)
qed (simp_all add: in_values_def)

lemma smart_payload_bytes: "smart_payload args = concat (map tool_bytes (in_values args))"
  by (simp add: smart_payload_def pack_args_contents)

text \<open>Which value the tool may pass for a parameter of the device, and what the handler then gets. A stream takes
  a vector of bytes.\<close>

fun passes :: "ArgType \<Rightarrow> ToolVal \<Rightarrow> bool" where
  "passes (APod n) (TvPod val) \<longleftrightarrow> length val = n"
| "passes (AVec sz) (TvPodVec sz' elems) \<longleftrightarrow>
     sz' = sz \<and> list_all (\<lambda>e. length e = sz) elems \<and> length elems < 2 ^ 64 \<and> length elems * sz \<le> MAX_ALLOC"
| "passes AString (TvString s) \<longleftrightarrow> length s \<le> MAX_ALLOC"
| "passes AStream (TvPodVec sz elems) \<longleftrightarrow> sz = 1 \<and> list_all (\<lambda>e. length e = 1) elems \<and> length elems < 2 ^ 64"
| "passes _ _ \<longleftrightarrow> False"

fun arg_value :: "ArgType \<Rightarrow> ToolVal \<Rightarrow> ArgVal" where
  "arg_value AStream (TvPodVec sz elems) = VStream (length elems)"
| "arg_value _ (TvPod val) = VPod val"
| "arg_value _ (TvPodVec sz elems) = VVec (length elems) (concat elems)"
| "arg_value _ (TvString s) = VString s"
| "arg_value _ _ = VPod []"

definition stream_bytes :: "ArgType \<Rightarrow> ToolVal \<Rightarrow> byte list" where
  "stream_bytes ty v = (case (ty, v) of (AStream, TvPodVec _ elems) \<Rightarrow> concat elems | _ \<Rightarrow> [])"

lemma MAX_ALLOC_less: "n \<le> MAX_ALLOC \<Longrightarrow> n < 2 ^ 64"
  by (simp add: MAX_ALLOC_def)

lemma parse_counted_exact:
  assumes "length bs = n * sz" and "n * sz \<le> MAX_ALLOC" and "n < 2 ^ 64"
  shows "parse_counted sz mk (bytes64 (of_nat n) @ bs @ rest) = Parsed (mk n bs) rest"
  using assms by (simp add: parse_counted_def parse_elems_def unat_of_nat_u64)

lemma parse_arg_passed:
  assumes "passes ty v"
  shows "parse_arg ty (tool_bytes v @ rest) = Parsed (arg_value ty v) (stream_bytes ty v @ rest)"
  using assms
proof (cases "(ty, v)" rule: passes.cases)
  case (2 sz sz' elems)
  with assms parse_counted_exact [of "concat elems" "length elems" sz] show ?thesis
    by (simp add: stream_bytes_def length_concat_elems)
next
  case (3 s)
  with assms parse_counted_exact [of s "length s" 1] MAX_ALLOC_less [of "length s"] show ?thesis
    by (simp add: stream_bytes_def)
qed (simp_all add: stream_bytes_def unat_of_nat_u64)

text \<open>A stream comes last, as the dispatcher requires.\<close>

fun stream_last :: "ArgType list \<Rightarrow> bool" where
  "stream_last [] = True"
| "stream_last (ty # tys) \<longleftrightarrow> (ty = AStream \<longrightarrow> tys = []) \<and> stream_last tys"

definition streams :: "ArgType list \<Rightarrow> ToolVal list \<Rightarrow> byte list" where
  "streams tys vs = concat (map2 stream_bytes tys vs)"

lemma parse_args_passed:
  "list_all2 passes tys vs \<Longrightarrow> stream_last tys \<Longrightarrow>
    parse_args tys (concat (map tool_bytes vs)) = Parsed (map2 arg_value tys vs) (streams tys vs)"
proof (induction tys vs rule: list_all2_induct)
  case (Cons ty tys v vs)
  have p: "parse_arg ty (tool_bytes v @ concat (map tool_bytes vs)) = Parsed (arg_value ty v) (stream_bytes ty v @ concat (map tool_bytes vs))"
    using parse_arg_passed [OF Cons.hyps(1)] .
  show ?case
  proof (cases "ty = AStream")
    case True
    then have "tys = []" "vs = []" using Cons.prems Cons.hyps(2) by auto
    with p show ?thesis by (simp add: streams_def)
  next
    case False
    then have "stream_bytes ty v = []" by (cases ty) (simp_all add: stream_bytes_def split: ToolVal.split)
    with p Cons show ?thesis by (simp add: streams_def)
  qed
qed (simp add: streams_def)

section \<open>From the device to the tool\<close>

text \<open>Which result of the device a parameter of the tool takes, and the value it gets.\<close>

fun yields :: "ToolType \<Rightarrow> PackVal \<Rightarrow> bool" where
  "yields (TyPod n) (PPod val) \<longleftrightarrow> length val = n"
| "yields (TyPodVec sz) (PPodVec sz' elems) \<longleftrightarrow>
     sz' = sz \<and> list_all (\<lambda>e. length e = sz) elems \<and> length elems < 2 ^ 64 \<and> length elems * sz \<le> MAX_ALLOC"
| "yields (TyPodVec sz) (PBuffer b) \<longleftrightarrow> sz = 1 \<and> buf_ok b \<and> length (contents b) \<le> MAX_ALLOC"
| "yields (TyVector ty) (PVector vs) \<longleftrightarrow> list_all (yields ty) vs \<and> length vs < 2 ^ 64 \<and> length vs * sizeof_type ty \<le> MAX_ALLOC"
| "yields TyString (PString s) \<longleftrightarrow> length s < 2 ^ 64"
| "yields TyMsgPack (PMsgPack ser) \<longleftrightarrow> length ser < 2 ^ 64"
| "yields _ _ \<longleftrightarrow> False"

fun tool_value :: "PackVal \<Rightarrow> ToolVal" where
  "tool_value (PPod val) = TvPod val"
| "tool_value (PPodVec sz elems) = TvPodVec sz elems"
| "tool_value (PBuffer b) = TvPodVec 1 (map (\<lambda>x. [x]) (contents b))"
| "tool_value (PVector vs) = TvVector (map tool_value vs)"
| "tool_value (PString s) = TvString s"
| "tool_value (PMsgPack ser) = TvMsgPack ser"
| "tool_value (PObject _) = TvPod []"

lemma yields_objects: "yields ty v \<Longrightarrow> val_objects v = []"
  by (induction ty v rule: yields.induct) (auto simp: list_all_iff)

lemma vals_bytes_yielded: "list_all (yields ty) vs \<Longrightarrow> vals_bytes i vs = concat (map (val_bytes i) vs)"
  by (induction vs) (auto simp: yields_objects)

lemma chop_concat: "list_all (\<lambda>e. length e = sz) elems \<Longrightarrow> chop sz (length elems) (concat elems @ rest) = elems"
  by (induction elems) simp_all

lemma chop_single: "chop (Suc 0) (length bs) bs = map (\<lambda>x. [x]) bs"
  by (induction bs) simp_all

text \<open>A buffer holds the bytes \<open>bs\<close>; reading from it.\<close>

definition holds :: "byte list \<Rightarrow> Buffer \<Rightarrow> bool" where
  "holds bs b \<longleftrightarrow> buf_ok b \<and> contents b = bs"

lemma holds_Read: "holds (xs @ ys) b \<Longrightarrow> n = length xs \<Longrightarrow> \<exists>b'. Read b n = Some (xs, b') \<and> holds ys b'"
proof -
  assume h: "holds (xs @ ys) b" and n: "n = length xs"
  have ok: "buf_ok b" "n \<le> length (contents b)" using h n by (simp_all add: holds_def)
  show ?thesis by (rule Read_Some [OF ok]) (use h n in \<open>auto simp: holds_def\<close>)
qed

lemma holds_read_u64: "holds (bytes64 (of_nat n) @ ys) b \<Longrightarrow> n < 2 ^ 64 \<Longrightarrow> \<exists>b'. read_u64 b = Some (n, b') \<and> holds ys b'"
  using holds_Read [of "bytes64 (of_nat n)" ys b 8] by (auto simp: read_u64_def unat_of_nat_u64)

lemma holds_Read_string: "holds (xs @ ys) b \<Longrightarrow> n = length xs \<Longrightarrow> \<exists>b'. Read_string b n = Some (xs, b') \<and> holds ys b'"
  using holds_Read [of xs ys b n] by (simp add: holds_def Read_string_eq)

lemma holds_counted:
  assumes "holds (bytes64 (of_nat n) @ xs @ ys) b" and "n < 2 ^ 64" and "length xs = m"
  shows "\<exists>b1 b2. read_u64 b = Some (n, b1) \<and> Read b1 m = Some (xs, b2) \<and> holds ys b2"
    and "\<exists>b1 b2. read_u64 b = Some (n, b1) \<and> Read_string b1 m = Some (xs, b2) \<and> holds ys b2"
  using holds_read_u64 [OF assms(1,2)] holds_Read [of xs ys] holds_Read_string [of xs ys] assms(3) by blast+

lemma tool_Unpack_yields:
  "holds (val_bytes i v @ rest) b \<Longrightarrow> yields ty v \<Longrightarrow> \<exists>b'. tool_Unpack ty b = Unpacked (tool_value v) b' \<and> holds rest b'"
  "holds (concat (map (val_bytes i) vs) @ rest) b \<Longrightarrow> list_all (yields ty) vs \<Longrightarrow> n = length vs \<Longrightarrow>
    \<exists>b'. tool_Unpack_elems ty n b = Unpacked (map tool_value vs) b' \<and> holds rest b'"
proof (induction ty b and ty n b arbitrary: v rest and vs rest rule: tool_Unpack_tool_Unpack_elems.induct)
  case (1 n b)
  then obtain val where v: "v = PPod val" "length val = n" by (cases v) auto
  with 1 holds_Read [of val rest b n] show ?case by auto
next
  case (2 sz b)
  then consider (vec) elems where "v = PPodVec sz elems" | (buf) x where "v = PBuffer x" by (cases v) auto
  then show ?case
  proof cases
    case vec
    with 2 holds_counted(1) [of "length elems" "concat elems" rest b "sz * length elems"] show ?thesis
      by (auto simp: length_concat_elems mult.commute chop_concat [of sz elems "[]", simplified])
  next
    case buf
    with 2 holds_counted(1) [of "length (contents x)" "contents x" rest b "length (contents x)"] MAX_ALLOC_less show ?thesis
      by (auto simp: chop_single)
  qed
next
  case (3 ty b)
  then obtain vs where v: "v = PVector vs" by (cases v) auto
  with 3 have y: "list_all (yields ty) vs" "length vs < 2 ^ 64" "length vs * sizeof_type ty \<le> MAX_ALLOC" by simp_all
  with 3 v obtain b1 where b1: "read_u64 b = Some (length vs, b1)" "holds (concat (map (val_bytes i) vs) @ rest) b1"
    using holds_read_u64 [of "length vs" "concat (map (val_bytes i) vs) @ rest" b] by (auto simp: vals_bytes_yielded)
  with 3(1) [OF b1(1) refl _ b1(2) y(1) refl] y v show ?case by auto
next
  case (4 b)
  then obtain str where "v = PString str" by (cases v) auto
  with 4 holds_counted(2) [of "length str" str rest b "length str"] show ?case by auto
next
  case (5 b)
  then obtain ser where "v = PMsgPack ser" by (cases v) auto
  with 5 holds_counted(2) [of "length ser" ser rest b "length ser"] show ?case by auto
next
  case (6 ty b)
  then show ?case by simp
next
  case (7 ty n b)
  then obtain w ws where vs: "vs = w # ws" "n = length ws" by (cases vs) auto
  with "7.prems" have h: "holds (val_bytes i w @ concat (map (val_bytes i) ws) @ rest) b" "yields ty w" "list_all (yields ty) ws" by simp_all
  from "7.IH"(1) [OF h(1,2)] obtain b1 where b1: "tool_Unpack ty b = Unpacked (tool_value w) b1" "holds (concat (map (val_bytes i) ws) @ rest) b1"
    by blast
  from "7.IH"(2) [OF b1(1) b1(2) h(3) vs(2)] b1(1) vs show ?case by auto
qed

text \<open>The results of a call against its arguments: an object for \<open>out_object\<close>, a value for \<open>out\<close>.\<close>

fun results_match :: "ToolArg list \<Rightarrow> PackVal list \<Rightarrow> bool" where
  "results_match [] [] \<longleftrightarrow> True"
| "results_match (ArgIn _ # as) vs \<longleftrightarrow> results_match as vs"
| "results_match (ArgOut ty # as) (v # vs) \<longleftrightarrow> yields ty v \<and> results_match as vs"
| "results_match (ArgOutObject # as) (PObject obj # vs) \<longleftrightarrow> results_match as vs"
| "results_match _ _ \<longleftrightarrow> False"

fun out_value :: "PackVal \<Rightarrow> OutVal" where
  "out_value (PObject obj) = OutObject obj"
| "out_value v = OutVal (tool_value v)"

lemma out_value_yields: "yields ty v \<Longrightarrow> out_value v = OutVal (tool_value v)"
  by (cases v; cases ty) auto

lemma unpack_object_nth:
  assumes "holds (bytes32 (of_nat i) @ rest) b" and "i < length objects" and "length objects < 2 ^ 32"
  shows "\<exists>b'. unpack_object objects b = Unpacked (objects ! i) b' \<and> holds rest b'"
proof -
  have "unat (of_nat i :: u32) = i" using assms(2,3) by (simp add: unat_of_nat_u32)
  with holds_Read [OF assms(1), of 4] assms(2) show ?thesis by (auto simp: unpack_object_def)
qed

lemma unpack_args_results:
  "results_match args vs \<Longrightarrow> holds (vals_bytes (length pre) vs) b \<Longrightarrow> objects = pre @ vals_objects vs \<Longrightarrow>
    length objects < 2 ^ 32 \<Longrightarrow> \<exists>b'. unpack_args args objects b = Unpacked (map out_value vs) b'"
proof (induction args vs arbitrary: pre b rule: results_match.induct)
  case (3 ty as v vs)
  then have y: "yields ty v" by simp
  have "holds (val_bytes (length pre) v @ vals_bytes (length pre) vs) b" using "3.prems"(2) yields_objects [OF y] by simp
  from tool_Unpack_yields(1) [OF this y] obtain b1 where b1: "tool_Unpack ty b = Unpacked (tool_value v) b1"
    "holds (vals_bytes (length pre) vs) b1" by blast
  with "3.IH" [OF _ b1(2)] "3.prems" y show ?case by (auto simp: yields_objects out_value_yields)
next
  case (4 as obj vs)
  then have "holds (bytes32 (of_nat (length pre)) @ vals_bytes (length (pre @ [obj])) vs) b" by simp
  with "4.prems" unpack_object_nth [of "length pre" "vals_bytes (length (pre @ [obj])) vs" b objects] obtain b1 where
    b1: "unpack_object objects b = Unpacked obj b1" "holds (vals_bytes (length (pre @ [obj])) vs) b1"
    by auto
  with "4.IH" [OF _ b1(2)] "4.prems" show ?case by auto
qed auto

section \<open>Calls\<close>

lemma stream_of_passed:
  "list_all2 passes tys vs \<Longrightarrow> stream_last tys \<Longrightarrow>
    stream_of tys (map2 arg_value tys vs) = (if AStream \<in> set tys then Some (length (streams tys vs)) else None)"
proof (induction tys vs rule: list_all2_induct)
  case (Cons ty tys v vs)
  show ?case
  proof (cases "ty = AStream")
    case True
    then have "tys = []" "vs = []" using Cons.prems Cons.hyps(2) by auto
    with True Cons.hyps(1) show ?thesis
      by (cases v) (auto simp: streams_def stream_bytes_def dest: length_concat_elems)
  next
    case False
    then have "stream_bytes ty v = []" by (cases ty) (simp_all add: stream_bytes_def split: ToolVal.split)
    with False Cons show ?thesis by (simp add: streams_def)
  qed
qed simp

lemma no_stream: "list_all2 passes tys vs \<Longrightarrow> AStream \<notin> set tys \<Longrightarrow> streams tys vs = []"
  by (induction tys vs rule: list_all2_induct)
    (auto simp: streams_def stream_bytes_def split: ArgType.split ToolVal.split)

lemma run_request_passed:
  assumes "list_all2 passes tys (in_values args)" and "stream_last tys" and "concat chunks = smart_payload args"
    and "\<And>bs. receive bs \<le> length bs"
  shows "\<exists>h b evs. run_request receive finish tys chunks = Inr (h, b, HInvoke (map2 arg_value tys (in_values args)) # evs) \<and>
    streamed evs = streams tys (in_values args) \<and> (AStream \<notin> set tys \<longrightarrow> evs = []) \<and>
    (AStream \<in> set tys \<longrightarrow> (\<exists>rs final. evs = rs @ [HFinish final] \<and> list_all is_receive rs))"
proof -
  let ?vs = "map2 arg_value tys (in_values args)" and ?rest = "streams tys (in_values args)"
  have parse: "parse_args tys (concat chunks) = Parsed ?vs ?rest"
    using parse_args_passed [OF assms(1,2)] assms(3) by (simp add: smart_payload_bytes)
  note st = stream_of_passed [OF assms(1,2)]
  have acc: "accepts tys ?vs ?rest" using st no_stream [OF assms(1)] by (simp add: accepts_def)
  note out = run_request_outcome [of receive tys chunks finish, OF assms(4), unfolded request_outcome_def parse]
  show ?thesis
  proof (cases "AStream \<in> set tys")
    case True
    with out acc st obtain h b rs final where
      "run_request receive finish tys chunks = Inr (h, b, HInvoke ?vs # rs @ [HFinish final])"
      "list_all is_receive rs" "streamed (rs @ [HFinish final]) = ?rest"
      by auto
    with True show ?thesis by (intro exI [of _ h] exI [of _ b] exI [of _ "rs @ [HFinish final]"]) auto
  next
    case False
    with out acc st no_stream [OF assms(1)] show ?thesis by auto
  qed
qed

text \<open>C10: the arguments of a call arrive. When the values that the tool passes fit the parameters of the command on
  the device, its handler gets exactly these values from the payload, whatever the pieces it arrives in: it calls
  the command once, with them, and a vector of bytes passed for a stream parameter goes through the stream byte
  for byte.\<close>

theorem tool_arguments_reach_handler:
  assumes "list_all2 passes tys (in_values args)" and "stream_last tys" and "concat chunks = smart_payload args"
    and "\<And>bs. receive bs \<le> length bs"
  shows "\<exists>h b evs. run_request receive finish tys chunks = Inr (h, b, HInvoke (map2 arg_value tys (in_values args)) # evs) \<and>
    streamed evs = streams tys (in_values args) \<and> (AStream \<notin> set tys \<longrightarrow> evs = []) \<and>
    (AStream \<in> set tys \<longrightarrow> (\<exists>rs final. evs = rs @ [HFinish final] \<and> list_all is_receive rs))"
  using run_request_passed [OF assms] .

definition demo_call :: "ToolArg list" where
  "demo_call = [ArgIn (TvPod [7, 0, 0, 0, 0, 0, 0, 0]), ArgIn (TvPodVec 1 [[65], [66]]), ArgOut (TyPod 8)]"

theorem tool_arguments_reach_handler_witness:
  "\<exists>h b evs. run_request length length [APod 8, AStream] [take 5 (smart_payload demo_call), drop 5 (smart_payload demo_call)] =
     Inr (h, b, HInvoke [VPod [7, 0, 0, 0, 0, 0, 0, 0], VStream 2] # evs) \<and> streamed evs = [65, 66]"
proof -
  have "list_all2 passes [APod 8, AStream] (in_values demo_call)" "stream_last [APod 8, AStream]"
    "concat [take 5 (smart_payload demo_call), drop 5 (smart_payload demo_call)] = smart_payload demo_call"
    by (simp_all add: in_values_def demo_call_def)
  from tool_arguments_reach_handler [OF this, of length length] show ?thesis
    by (auto simp: in_values_def streams_def stream_bytes_def demo_call_def)
qed

text \<open>C11: the results of a call arrive. When the values that the device answers with fit the \<open>out\<close> and \<open>out_object\<close>
  parameters of the call, the call returns these values: the tool unpacks the bytes that the device packed, and
  an object parameter gets the object at its index.\<close>

theorem tool_reads_results:
  assumes "results_match args vs" and "length (vals_objects vs) < 2 ^ 32"
    and "send (smart_payload args) = \<lparr>tr_result_code = 0, tr_payload = vals_bytes 0 vs, tr_objects = vals_objects vs\<rparr>"
  shows "SendSmartSyncRequest send args = Returned 0 (map out_value vs)"
proof -
  have "holds (vals_bytes (length []) vs) (Buffer_of_vector (vals_bytes 0 vs))" by (simp add: holds_def)
  from unpack_args_results [OF assms(1) this, of "vals_objects vs"] assms(2) obtain b where
    "unpack_args args (vals_objects vs) (Buffer_of_vector (vals_bytes 0 vs)) = Unpacked (map out_value vs) b" by auto
  then show ?thesis using assms(3) by (simp add: SendSmartSyncRequest_def SendSmartSyncRequestWithoutAssert_def)
qed

theorem tool_reads_results_witness:
  "SendSmartSyncRequest (\<lambda>p. \<lparr>tr_result_code = 0, tr_payload = vals_bytes 0 [PString [65], PObject 9], tr_objects = [9]\<rparr>)
     [ArgIn (TvString [66]), ArgOut TyString, ArgOutObject] = Returned 0 [OutVal (TvString [65]), OutObject 9]"
  using tool_reads_results [of "[ArgIn (TvString [66]), ArgOut TyString, ArgOutObject]" "[PString [65], PObject 9]"
      "\<lambda>p. \<lparr>tr_result_code = 0, tr_payload = vals_bytes 0 [PString [65], PObject 9], tr_objects = [9]\<rparr>"]
  by simp

text \<open>An asynchronous call that fails reports twice. Its callback passes the error code on, then goes on to unpack
  the results of the error response, and passes on what comes of that.\<close>

theorem async_error_reported_twice:
  assumes "tr_result_code r \<noteq> 0" and "SendSmartRequest_callback args r = Some codes"
  shows "\<exists>second. codes = [tr_result_code r, second]"
  using assms by (auto simp: SendSmartRequest_callback_def Let_def split: Unpacked.splits)

theorem async_error_reported_twice_witness:
  "\<exists>second. SendSmartRequest_callback [] \<lparr>tr_result_code = 5, tr_payload = [], tr_objects = []\<rparr> = Some [5, second]"
proof -
  obtain codes where c: "SendSmartRequest_callback [] \<lparr>tr_result_code = 5, tr_payload = [], tr_objects = []\<rparr> = Some codes"
    by (simp add: SendSmartRequest_callback_def)
  from async_error_reported_twice [OF _ c] c show ?thesis by auto
qed

end
