(* ===== verification/Interfaces.thy ===== *)
theory Interfaces
  imports ToolPacking
begin

text \<open>
  The remote interfaces on both sides: the calls of the tool (src/twib/tool/interfaces) with the arguments that they
  pass and the results that they expect, and the commands of the device (src/twili/bridge/interfaces) with the
  parameters of their handlers and the values that these respond with. Each side was written by hand; the theory
  shows that they agree.

  A structure is its bytes. The sizes of the structures of the tool are those of its declarations (DebugTypes.hpp and
  the headers of the interfaces); those that the device takes from libtransistor are a parameter.
\<close>

section \<open>Calls of the tool\<close>

definition in_u64 :: "u64 \<Rightarrow> ToolArg" where
  "in_u64 x = ArgIn (TvPod (bytes64 x))"

definition in_u32 :: "u32 \<Rightarrow> ToolArg" where
  "in_u32 x = ArgIn (TvPod (bytes32 x))"

definition in_string :: "byte list \<Rightarrow> ToolArg" where
  "in_string s = ArgIn (TvString s)"

definition in_bytes :: "byte list \<Rightarrow> ToolArg" where
  "in_bytes bs = ArgIn (TvPodVec 1 (map (\<lambda>b. [b]) bs))"

definition out_u64 :: ToolArg where
  "out_u64 = ArgOut (TyPod 8)"

definition out_u32 :: ToolArg where
  "out_u32 = ArgOut (TyPod 4)"

definition out_bytes :: ToolArg where
  "out_bytes = ArgOut (TyPodVec 1)"

definition sizeof_MemoryInfo :: nat where "sizeof_MemoryInfo = 40"
definition sizeof_DebugEvent :: nat where "sizeof_DebugEvent = 144"
definition sizeof_ThreadContext :: nat where "sizeof_ThreadContext = 800"
definition sizeof_LoadedModuleInfo :: nat where "sizeof_LoadedModuleInfo = 48"
definition sizeof_ProcessListEntry :: nat where "sizeof_ProcessListEntry = 40"
definition sizeof_DirectoryEntry :: nat where "sizeof_DirectoryEntry = 784"

datatype DebuggerCall =
    QueryMemory u64 | ReadMemory u64 u64 | WriteMemory u64 "byte list" | GetDebugEvent | GetThreadContext u64
  | SetThreadContext u64 "byte list" | ContinueDebugEvent u32 "u64 list" | BreakProcess | GetTargetEntry | AsyncWait
  | LaunchDebugProcess | GetNsoInfos | GetNroInfos

fun debugger_call :: "DebuggerCall \<Rightarrow> DebuggerCommand \<times> ToolArg list" where
  "debugger_call (QueryMemory addr) = (Dbg_QUERY_MEMORY, [in_u64 addr, ArgOut (TyPod sizeof_MemoryInfo), out_u32])"
| "debugger_call (ReadMemory addr sz) = (Dbg_READ_MEMORY, [in_u64 addr, in_u64 sz, out_bytes])"
| "debugger_call (WriteMemory addr bytes) = (Dbg_WRITE_MEMORY, [in_u64 addr, in_bytes bytes])"
| "debugger_call GetDebugEvent = (Dbg_GET_DEBUG_EVENT, [ArgOut (TyPod sizeof_DebugEvent)])"
| "debugger_call (GetThreadContext thread_id) = (Dbg_GET_THREAD_CONTEXT, [in_u64 thread_id, ArgOut (TyPod sizeof_ThreadContext)])"
| "debugger_call (SetThreadContext thread_id tc) = (Dbg_SET_THREAD_CONTEXT, [in_u64 thread_id, in_u32 15, ArgIn (TvPod tc)])"
| "debugger_call (ContinueDebugEvent flags thread_ids) =
    (Dbg_CONTINUE_DEBUG_EVENT, [in_u32 flags, ArgIn (TvPodVec 8 (map bytes64 thread_ids))])"
| "debugger_call BreakProcess = (Dbg_BREAK_PROCESS, [])"
| "debugger_call GetTargetEntry = (Dbg_GET_TARGET_ENTRY, [out_u64])"
| "debugger_call AsyncWait = (Dbg_WAIT_EVENT, [])"
| "debugger_call LaunchDebugProcess = (Dbg_LAUNCH_DEBUG_PROCESS, [])"
| "debugger_call GetNsoInfos = (Dbg_GET_NSO_INFOS, [ArgOut (TyPodVec sizeof_LoadedModuleInfo)])"
| "debugger_call GetNroInfos = (Dbg_GET_NRO_INFOS, [ArgOut (TyPodVec sizeof_LoadedModuleInfo)])"

datatype DeviceCall =
    CreateMonitoredProcess "byte list" | Reboot | CoreDump u64 | TerminateProcess u64 | ListProcesses | Identify | ListNamedPipes
  | OpenNamedPipe "byte list" | OpenActiveDebugger u64 | GetMemoryInfo | PrintDebugInfo | LaunchUnmonitoredProcess u64 u64 u32
  | OpenFilesystemAccessor "byte list" | WaitToDebugApplication | WaitToDebugTitle u64 | RebootUnsafe

fun device_call :: "DeviceCall \<Rightarrow> DeviceCommand \<times> ToolArg list" where
  "device_call (CreateMonitoredProcess ty) = (Dev_CREATE_MONITORED_PROCESS, [in_string ty, ArgOutObject])"
| "device_call Reboot = (Dev_REBOOT, [])"
| "device_call (CoreDump process_id) = (Dev_COREDUMP, [in_u64 process_id, out_bytes])"
| "device_call (TerminateProcess process_id) = (Dev_TERMINATE, [in_u64 process_id])"
| "device_call ListProcesses = (Dev_LIST_PROCESSES, [ArgOut (TyPodVec sizeof_ProcessListEntry)])"
| "device_call Identify = (Dev_IDENTIFY, [ArgOut TyMsgPack])"
| "device_call ListNamedPipes = (Dev_LIST_NAMED_PIPES, [ArgOut (TyVector TyString)])"
| "device_call (OpenNamedPipe name) = (Dev_OPEN_NAMED_PIPE, [in_string name, ArgOutObject])"
| "device_call (OpenActiveDebugger pid) = (Dev_OPEN_ACTIVE_DEBUGGER, [in_u64 pid, ArgOutObject])"
| "device_call GetMemoryInfo = (Dev_GET_MEMORY_INFO, [ArgOut TyMsgPack])"
| "device_call PrintDebugInfo = (Dev_PRINT_DEBUG_INFO, [])"
| "device_call (LaunchUnmonitoredProcess title_id storage_id launch_flags) =
    (Dev_LAUNCH_UNMONITORED_PROCESS, [in_u32 launch_flags, in_u64 title_id, in_u64 storage_id, out_u64])"
| "device_call (OpenFilesystemAccessor fs) = (Dev_OPEN_FILESYSTEM_ACCESSOR, [in_string fs, ArgOutObject])"
| "device_call WaitToDebugApplication = (Dev_WAIT_TO_DEBUG_APPLICATION, [out_u64])"
| "device_call (WaitToDebugTitle tid) = (Dev_WAIT_TO_DEBUG_TITLE, [in_u64 tid, out_u64])"
| "device_call RebootUnsafe = (Dev_REBOOT_UNSAFE, [])"

datatype FilesystemCall =
    CreateFile u32 u64 "byte list" | DeleteFile "byte list" | CreateDirectory "byte list" | DeleteDirectory "byte list"
  | DeleteDirectoryRecursively "byte list" | RenameFile "byte list" "byte list" | RenameDirectory "byte list" "byte list"
  | IsFile "byte list" | OpenFileAccessor u32 "byte list" | OpenDirectory "byte list"

fun filesystem_call :: "FilesystemCall \<Rightarrow> FilesystemCommand \<times> ToolArg list" where
  "filesystem_call (CreateFile mode sz path) = (FS_CREATE_FILE, [in_u32 mode, in_u64 sz, in_string path])"
| "filesystem_call (DeleteFile path) = (FS_DELETE_FILE, [in_string path])"
| "filesystem_call (CreateDirectory path) = (FS_CREATE_DIRECTORY, [in_string path])"
| "filesystem_call (DeleteDirectory path) = (FS_DELETE_DIRECTORY, [in_string path])"
| "filesystem_call (DeleteDirectoryRecursively path) = (FS_DELETE_DIRECTORY_RECURSIVELY, [in_string path])"
| "filesystem_call (RenameFile src dst) = (FS_RENAME_FILE, [in_string src, in_string dst])"
| "filesystem_call (RenameDirectory src dst) = (FS_RENAME_DIRECTORY, [in_string src, in_string dst])"
| "filesystem_call (IsFile path) = (FS_GET_ENTRY_TYPE, [in_string path, out_u32])"
| "filesystem_call (OpenFileAccessor mode path) = (FS_OPEN_FILE, [in_u32 mode, in_string path, ArgOutObject])"
| "filesystem_call (OpenDirectory path) = (FS_OPEN_DIRECTORY, [in_string path, ArgOutObject])"

datatype FileCall = FileRead u64 u64 | FileWrite u64 "byte list" | FileFlush | FileSetSize u64 | FileGetSize

fun file_call :: "FileCall \<Rightarrow> FileCommand \<times> ToolArg list" where
  "file_call (FileRead offset sz) = (File_READ, [in_u64 offset, in_u64 sz, out_bytes])"
| "file_call (FileWrite offset vec) = (File_WRITE, [in_u64 offset, in_bytes vec])"
| "file_call FileFlush = (File_FLUSH, [])"
| "file_call (FileSetSize sz) = (File_SET_SIZE, [in_u64 sz])"
| "file_call FileGetSize = (File_GET_SIZE, [out_u64])"

datatype DirectoryCall = DirectoryRead | GetEntryCount

fun directory_call :: "DirectoryCall \<Rightarrow> DirectoryCommand \<times> ToolArg list" where
  "directory_call DirectoryRead = (Dir_READ, [ArgOut (TyPodVec sizeof_DirectoryEntry)])"
| "directory_call GetEntryCount = (Dir_GET_ENTRY_COUNT, [out_u64])"

datatype PipeReaderCall = ReadSync

fun pipe_reader_call :: "PipeReaderCall \<Rightarrow> PipeReaderCommand \<times> ToolArg list" where
  "pipe_reader_call ReadSync = (PipeReader_READ, [out_bytes])"

datatype PipeWriterCall = WriteSync "byte list" | ClosePipe

fun pipe_writer_call :: "PipeWriterCall \<Rightarrow> PipeWriterCommand \<times> ToolArg list" where
  "pipe_writer_call (WriteSync data) = (PipeWriter_WRITE, [in_bytes data])"
| "pipe_writer_call ClosePipe = (PipeWriter_CLOSE, [])"

datatype MonitorCall =
    LaunchProcess | LaunchProcessSuspended | AppendCode "byte list" | OpenStdin | OpenStdout | OpenStderr | WaitStateChange

fun monitor_call :: "MonitorCall \<Rightarrow> ProcessMonitorCommand \<times> ToolArg list" where
  "monitor_call LaunchProcess = (PM_LAUNCH, [out_u64])"
| "monitor_call LaunchProcessSuspended = (PM_LAUNCH_SUSPENDED, [out_u64])"
| "monitor_call (AppendCode code) = (PM_APPEND_CODE, [in_bytes code])"
| "monitor_call OpenStdin = (PM_OPEN_STDIN, [ArgOutObject])"
| "monitor_call OpenStdout = (PM_OPEN_STDOUT, [ArgOutObject])"
| "monitor_call OpenStderr = (PM_OPEN_STDERR, [ArgOutObject])"
| "monitor_call WaitStateChange = (PM_WAIT_STATE_CHANGE, [out_u32])"

text \<open>What the calls that look at the result code make of it. (\<open>Inl\<close>: the call throws.)\<close>

definition GetDebugEvent_result :: "SmartResult \<Rightarrow> SmartResult + OutVal option" where
  "GetDebugEvent_result res =
    (case res of
       Returned r vs \<Rightarrow> if r = 0x8c01 then Inr None else if r \<noteq> 0 then Inl (ThrownResultError r) else Inr (Some (hd vs))
     | _ \<Rightarrow> Inl res)"

definition create_result :: "SmartResult \<Rightarrow> SmartResult + bool" where
  "create_result res =
    (case res of
       Returned r vs \<Rightarrow> if r = 0x402 then Inr False else if r \<noteq> 0 then Inl (ThrownResultError r) else Inr True
     | _ \<Rightarrow> Inl res)"

definition IsFile_result :: "SmartResult \<Rightarrow> SmartResult + bool option" where
  "IsFile_result res =
    (case res of
       Returned r vs \<Rightarrow>
         if r = 0x202 then Inr None else if r \<noteq> 0 then Inl (ThrownResultError r)
         else (case vs of [OutVal (TvPod bs)] \<Rightarrow> Inr (Some (word32 bs > 0)) | _ \<Rightarrow> Inl res)
     | _ \<Rightarrow> Inl res)"

section \<open>Commands of the device\<close>

text \<open>The types that a handler responds with.\<close>

datatype ResType = RtPod nat | RtPodVec nat | RtVector ResType | RtString | RtMsgPack | RtObject

record DevSizes =
  sz_memory_info :: nat
  sz_debug_event_info :: nat
  sz_thread_context :: nat
  sz_directory_entry :: nat

text \<open>\<open>hos_types::LoadedModuleInfo\<close> and the \<open>ProcessReport\<close> of \<open>ListProcesses\<close>.\<close>

definition dev_sizeof_LoadedModuleInfo :: nat where "dev_sizeof_LoadedModuleInfo = 48"
definition dev_sizeof_ProcessReport :: nat where "dev_sizeof_ProcessReport = 40"

text \<open>The command, the parameters of its handler after the opener, and what it responds with when it succeeds. (\<open>None\<close>:
  it never does.)\<close>

type_synonym Signature = "ArgType list \<times> ResType list option"

definition debugger_commands :: "DevSizes \<Rightarrow> (DebuggerCommand \<times> Signature) list" where
  "debugger_commands sz =
    [(Dbg_QUERY_MEMORY, [APod 8], Some [RtPod (sz_memory_info sz), RtPod 4]),
     (Dbg_READ_MEMORY, [APod 8, APod 8], Some [RtPodVec 1]),
     (Dbg_WRITE_MEMORY, [APod 8, AStream], Some []),
     (Dbg_LIST_THREADS, [], None),
     (Dbg_GET_DEBUG_EVENT, [], Some [RtPod (sz_debug_event_info sz)]),
     (Dbg_GET_THREAD_CONTEXT, [APod 8], Some [RtPod (sz_thread_context sz)]),
     (Dbg_BREAK_PROCESS, [], Some []),
     (Dbg_CONTINUE_DEBUG_EVENT, [APod 4, AVec 8], Some []),
     (Dbg_SET_THREAD_CONTEXT, [APod 8, APod 4, APod (sz_thread_context sz)], Some []),
     (Dbg_GET_NSO_INFOS, [], Some [RtPodVec dev_sizeof_LoadedModuleInfo]),
     (Dbg_WAIT_EVENT, [], Some []),
     (Dbg_GET_TARGET_ENTRY, [], Some [RtPod 8]),
     (Dbg_LAUNCH_DEBUG_PROCESS, [], Some []),
     (Dbg_GET_NRO_INFOS, [], Some [RtPodVec dev_sizeof_LoadedModuleInfo])]"

definition device_commands :: "(DeviceCommand \<times> Signature) list" where
  "device_commands =
    [(Dev_CREATE_MONITORED_PROCESS, [AString], Some [RtObject]),
     (Dev_REBOOT, [], Some []),
     (Dev_COREDUMP, [APod 8], Some [RtPodVec 1]),
     (Dev_TERMINATE, [APod 8], Some []),
     (Dev_LIST_PROCESSES, [], Some [RtPodVec dev_sizeof_ProcessReport]),
     (Dev_UPGRADE_TWILI, [], None),
     (Dev_IDENTIFY, [], Some [RtMsgPack]),
     (Dev_LIST_NAMED_PIPES, [], Some [RtVector RtString]),
     (Dev_OPEN_NAMED_PIPE, [AString], Some [RtObject]),
     (Dev_OPEN_ACTIVE_DEBUGGER, [APod 8], Some [RtObject]),
     (Dev_GET_MEMORY_INFO, [], Some [RtMsgPack]),
     (Dev_PRINT_DEBUG_INFO, [], Some []),
     (Dev_LAUNCH_UNMONITORED_PROCESS, [APod 4, APod 8, APod 8], Some [RtPod 8]),
     (Dev_OPEN_FILESYSTEM_ACCESSOR, [AString], Some [RtObject]),
     (Dev_WAIT_TO_DEBUG_APPLICATION, [], None),
     (Dev_WAIT_TO_DEBUG_TITLE, [APod 8], Some [RtPod 8]),
     (Dev_REBOOT_UNSAFE, [], Some [])]"

definition filesystem_commands :: "(FilesystemCommand \<times> Signature) list" where
  "filesystem_commands =
    [(FS_CREATE_FILE, [APod 4, APod 8, AString], Some []),
     (FS_DELETE_FILE, [AString], Some []),
     (FS_CREATE_DIRECTORY, [AString], Some []),
     (FS_DELETE_DIRECTORY, [AString], Some []),
     (FS_DELETE_DIRECTORY_RECURSIVELY, [AString], Some []),
     (FS_RENAME_FILE, [AString, AString], Some []),
     (FS_RENAME_DIRECTORY, [AString, AString], Some []),
     (FS_GET_ENTRY_TYPE, [AString], Some [RtPod 4]),
     (FS_OPEN_FILE, [APod 4, AString], Some [RtObject]),
     (FS_OPEN_DIRECTORY, [AString], Some [RtObject])]"

definition file_commands :: "(FileCommand \<times> Signature) list" where
  "file_commands =
    [(File_READ, [APod 8, APod 8], Some [RtPodVec 1]),
     (File_WRITE, [APod 8, AStream], Some []),
     (File_FLUSH, [], Some []),
     (File_SET_SIZE, [APod 8], Some []),
     (File_GET_SIZE, [], Some [RtPod 8])]"

definition directory_commands :: "DevSizes \<Rightarrow> (DirectoryCommand \<times> Signature) list" where
  "directory_commands sz =
    [(Dir_READ, [], Some [RtPodVec (sz_directory_entry sz)]),
     (Dir_GET_ENTRY_COUNT, [], Some [RtPod 8])]"

definition pipe_reader_commands :: "(PipeReaderCommand \<times> Signature) list" where
  "pipe_reader_commands = [(PipeReader_READ, [], Some [RtPodVec 1])]"

definition pipe_writer_commands :: "(PipeWriterCommand \<times> Signature) list" where
  "pipe_writer_commands = [(PipeWriter_WRITE, [AStream], Some []), (PipeWriter_CLOSE, [], Some [])]"

definition monitor_commands :: "(ProcessMonitorCommand \<times> Signature) list" where
  "monitor_commands =
    [(PM_LAUNCH, [], Some [RtPod 8]),
     (PM_LAUNCH_SUSPENDED, [], Some [RtPod 8]),
     (PM_TERMINATE, [], Some []),
     (PM_APPEND_CODE, [AStream], Some []),
     (PM_OPEN_STDIN, [], Some [RtObject]),
     (PM_OPEN_STDOUT, [], Some [RtObject]),
     (PM_OPEN_STDERR, [], Some [RtObject]),
     (PM_WAIT_STATE_CHANGE, [], Some [RtPod 4])]"

section \<open>Agreement\<close>

datatype TwibCall =
    CallDebugger DebuggerCall | CallDevice DeviceCall | CallFilesystem FilesystemCall | CallFile FileCall
  | CallDirectory DirectoryCall | CallPipeReader PipeReaderCall | CallPipeWriter PipeWriterCall | CallMonitor MonitorCall

text \<open>The arguments of a call, and what the dispatcher of the object it is made on finds for its command id.\<close>

definition by_id :: "('c \<Rightarrow> u32) \<Rightarrow> ('c \<times> Signature) list \<Rightarrow> 'c \<Rightarrow> Signature option" where
  "by_id command_id commands cmd = SmartDispatchImpl (map (\<lambda>(c, sg). (command_id c, sg)) commands) (command_id cmd)"

fun call_args :: "TwibCall \<Rightarrow> ToolArg list" where
  "call_args (CallDebugger c) = snd (debugger_call c)"
| "call_args (CallDevice c) = snd (device_call c)"
| "call_args (CallFilesystem c) = snd (filesystem_call c)"
| "call_args (CallFile c) = snd (file_call c)"
| "call_args (CallDirectory c) = snd (directory_call c)"
| "call_args (CallPipeReader c) = snd (pipe_reader_call c)"
| "call_args (CallPipeWriter c) = snd (pipe_writer_call c)"
| "call_args (CallMonitor c) = snd (monitor_call c)"

fun found_signature :: "DevSizes \<Rightarrow> TwibCall \<Rightarrow> Signature option" where
  "found_signature sz (CallDebugger c) = by_id debugger_command_id (debugger_commands sz) (fst (debugger_call c))"
| "found_signature sz (CallDevice c) = by_id device_command_id device_commands (fst (device_call c))"
| "found_signature sz (CallFilesystem c) = by_id filesystem_command_id filesystem_commands (fst (filesystem_call c))"
| "found_signature sz (CallFile c) = by_id file_command_id file_commands (fst (file_call c))"
| "found_signature sz (CallDirectory c) = by_id directory_command_id (directory_commands sz) (fst (directory_call c))"
| "found_signature sz (CallPipeReader c) = by_id pipe_reader_command_id pipe_reader_commands (fst (pipe_reader_call c))"
| "found_signature sz (CallPipeWriter c) = by_id pipe_writer_command_id pipe_writer_commands (fst (pipe_writer_call c))"
| "found_signature sz (CallMonitor c) = by_id process_monitor_command_id monitor_commands (fst (monitor_call c))"

text \<open>The structures of libtransistor are as large as those of the tool.\<close>

definition sizes_agree :: "DevSizes \<Rightarrow> bool" where
  "sizes_agree sz \<longleftrightarrow> sz_memory_info sz = sizeof_MemoryInfo \<and> sz_debug_event_info sz = sizeof_DebugEvent \<and>
     sz_thread_context sz = sizeof_ThreadContext \<and> sz_directory_entry sz = sizeof_DirectoryEntry"

text \<open>The values of the C++ types: a thread context has its size, and what is in memory fits there.\<close>

fun cpp_value :: "ToolVal \<Rightarrow> bool" where
  "cpp_value (TvPod val) \<longleftrightarrow> True"
| "cpp_value (TvPodVec sz elems) \<longleftrightarrow> length elems * sz \<le> MAX_ALLOC"
| "cpp_value (TvString s) \<longleftrightarrow> length s \<le> MAX_ALLOC"
| "cpp_value _ \<longleftrightarrow> False"

definition call_ok :: "TwibCall \<Rightarrow> bool" where
  "call_ok call \<longleftrightarrow> list_all cpp_value (in_values (call_args call)) \<and>
     (case call of CallDebugger (SetThreadContext _ tc) \<Rightarrow> length tc = sizeof_ThreadContext | _ \<Rightarrow> True)"

fun has_type :: "PackVal \<Rightarrow> ResType \<Rightarrow> bool" where
  "has_type (PPod val) (RtPod n) \<longleftrightarrow> length val = n"
| "has_type (PPodVec sz elems) (RtPodVec n) \<longleftrightarrow>
     sz = n \<and> list_all (\<lambda>e. length e = n) elems \<and> length elems < 2 ^ 64 \<and> length elems * n \<le> MAX_ALLOC"
| "has_type (PVector vs) (RtVector t) \<longleftrightarrow> list_all (\<lambda>v. has_type v t) vs \<and> length vs < 2 ^ 64 \<and> length vs * 32 \<le> MAX_ALLOC"
| "has_type (PString s) RtString \<longleftrightarrow> length s < 2 ^ 64"
| "has_type (PMsgPack ser) RtMsgPack \<longleftrightarrow> length ser < 2 ^ 64"
| "has_type (PObject _) RtObject \<longleftrightarrow> True"
| "has_type _ _ \<longleftrightarrow> False"

fun takes :: "ToolType \<Rightarrow> ResType \<Rightarrow> bool" where
  "takes (TyPod n) (RtPod m) \<longleftrightarrow> n = m"
| "takes (TyPodVec n) (RtPodVec m) \<longleftrightarrow> n = m"
| "takes (TyVector TyString) (RtVector RtString) \<longleftrightarrow> True"
| "takes TyString RtString \<longleftrightarrow> True"
| "takes TyMsgPack RtMsgPack \<longleftrightarrow> True"
| "takes _ _ \<longleftrightarrow> False"

lemma takes_yields: "takes ty t \<Longrightarrow> has_type v t \<Longrightarrow> yields ty v"
proof (induction ty t rule: takes.induct)
  case 3
  then obtain vs where "v = PVector vs" by (cases v) auto
  moreover have "has_type x RtString \<Longrightarrow> yields TyString x" for x by (cases x) auto
  ultimately show ?case using 3 by (auto simp: list_all_iff)
qed (cases v; auto)+

fun outs_fit :: "ToolArg list \<Rightarrow> ResType list \<Rightarrow> bool" where
  "outs_fit [] [] \<longleftrightarrow> True"
| "outs_fit (ArgIn _ # as) ts \<longleftrightarrow> outs_fit as ts"
| "outs_fit (ArgOut ty # as) (t # ts) \<longleftrightarrow> takes ty t \<and> outs_fit as ts"
| "outs_fit (ArgOutObject # as) (RtObject # ts) \<longleftrightarrow> outs_fit as ts"
| "outs_fit _ _ \<longleftrightarrow> False"

lemma outs_fit_results: "outs_fit args ts \<Longrightarrow> list_all2 has_type vs ts \<Longrightarrow> results_match args vs"
proof (induction args ts arbitrary: vs rule: outs_fit.induct)
  case (3 ty as t ts)
  then show ?case using takes_yields by (auto simp: list_all2_Cons2)
next
  case (4 as ts)
  then obtain v ws where "vs = v # ws" "has_type v RtObject" "list_all2 has_type ws ts" by (auto simp: list_all2_Cons2)
  moreover then obtain obj where "v = PObject obj" by (cases v) auto
  ultimately show ?case using 4 by simp
qed auto

lemma passed_values [simp]:
  "length bs = n \<Longrightarrow> passes (APod n) (TvPod bs)"
  "length bs \<le> MAX_ALLOC \<Longrightarrow> passes AString (TvString bs)"
  "length bs \<le> MAX_ALLOC \<Longrightarrow> passes AStream (TvPodVec (Suc 0) (map (\<lambda>b. [b]) bs))"
  "length ids * 8 \<le> MAX_ALLOC \<Longrightarrow> passes (AVec 8) (TvPodVec 8 (map bytes64 ids))"
  using MAX_ALLOC_less [of "length bs"] by (auto simp: list_all_iff MAX_ALLOC_def)

lemmas interface_defs = by_id_def SmartDispatchImpl_def in_u64_def in_u32_def in_string_def in_bytes_def
  out_u64_def out_u32_def out_bytes_def in_values_def

text \<open>The signature that a call finds takes its arguments and gives it its results.\<close>

definition agrees :: "DevSizes \<Rightarrow> TwibCall \<Rightarrow> bool" where
  "agrees sz call \<longleftrightarrow>
    (case found_signature sz call of
       None \<Rightarrow> False
     | Some (tys, res) \<Rightarrow> list_all2 passes tys (in_values (call_args call)) \<and> stream_last tys \<and>
         (case res of None \<Rightarrow> True | Some ts \<Rightarrow> outs_fit (call_args call) ts))"

lemma debugger_agrees: "sizes_agree sz \<Longrightarrow> call_ok (CallDebugger c) \<Longrightarrow> agrees sz (CallDebugger c)"
  by (cases c) (simp_all add: agrees_def call_ok_def interface_defs debugger_commands_def sizes_agree_def sizeof_LoadedModuleInfo_def
      dev_sizeof_LoadedModuleInfo_def del: passes.simps)

lemma device_agrees: "call_ok (CallDevice c) \<Longrightarrow> agrees sz (CallDevice c)"
  by (cases c) (simp_all add: agrees_def call_ok_def interface_defs device_commands_def sizeof_ProcessListEntry_def
      dev_sizeof_ProcessReport_def del: passes.simps)

lemma filesystem_agrees: "call_ok (CallFilesystem c) \<Longrightarrow> agrees sz (CallFilesystem c)"
  by (cases c) (simp_all add: agrees_def call_ok_def interface_defs filesystem_commands_def del: passes.simps)

lemma file_agrees: "call_ok (CallFile c) \<Longrightarrow> agrees sz (CallFile c)"
  by (cases c) (simp_all add: agrees_def call_ok_def interface_defs file_commands_def del: passes.simps)

lemma directory_agrees: "sizes_agree sz \<Longrightarrow> agrees sz (CallDirectory c)"
  by (cases c) (simp_all add: agrees_def interface_defs directory_commands_def sizes_agree_def)

lemma pipe_reader_agrees: "agrees sz (CallPipeReader c)"
  by (cases c) (simp_all add: agrees_def interface_defs pipe_reader_commands_def)

lemma pipe_writer_agrees: "call_ok (CallPipeWriter c) \<Longrightarrow> agrees sz (CallPipeWriter c)"
  by (cases c) (simp_all add: agrees_def call_ok_def interface_defs pipe_writer_commands_def del: passes.simps)

lemma monitor_agrees: "call_ok (CallMonitor c) \<Longrightarrow> agrees sz (CallMonitor c)"
  by (cases c) (simp_all add: agrees_def call_ok_def interface_defs monitor_commands_def del: passes.simps)

lemma call_agrees: "sizes_agree sz \<Longrightarrow> call_ok call \<Longrightarrow> agrees sz call"
  by (cases call) (simp_all add: debugger_agrees device_agrees filesystem_agrees file_agrees directory_agrees
      pipe_reader_agrees pipe_writer_agrees monitor_agrees)

text \<open>C8: the interfaces of the tool and the device agree. For every call that the tool can make, the device's dispatcher
  finds a handler for its command id; the handler gets exactly the arguments of the call, whatever pieces the
  request arrives in; and whatever values of its result types the handler responds with, they are values that
  the call expects.\<close>

theorem interfaces_agree:
  assumes "sizes_agree sz" and "call_ok call" and "concat chunks = smart_payload (call_args call)" and "\<And>bs. receive bs \<le> length bs"
  shows "\<exists>tys res h b evs. found_signature sz call = Some (tys, res) \<and>
    run_request receive finish tys chunks = Inr (h, b, HInvoke (map2 arg_value tys (in_values (call_args call))) # evs) \<and>
    (\<forall>ts vs. res = Some ts \<longrightarrow> list_all2 has_type vs ts \<longrightarrow> results_match (call_args call) vs)"
proof -
  from call_agrees [OF assms(1,2)] obtain tys res where sg: "found_signature sz call = Some (tys, res)"
    "list_all2 passes tys (in_values (call_args call))" "stream_last tys"
    "case res of None \<Rightarrow> True | Some ts \<Rightarrow> outs_fit (call_args call) ts"
    by (auto simp: agrees_def split: option.splits)
  from run_request_passed [OF sg(2,3) assms(3,4), of finish] obtain h b evs where
    "run_request receive finish tys chunks = Inr (h, b, HInvoke (map2 arg_value tys (in_values (call_args call))) # evs)" by blast
  moreover have "results_match (call_args call) vs" if "res = Some ts" "list_all2 has_type vs ts" for ts vs
    using that sg(4) outs_fit_results by simp
  ultimately show ?thesis using sg(1) by blast
qed

definition demo_sizes :: DevSizes where
  "demo_sizes = \<lparr>sz_memory_info = 40, sz_debug_event_info = 144, sz_thread_context = 800, sz_directory_entry = 784\<rparr>"

theorem interfaces_agree_witness:
  "\<exists>tys res h b evs. found_signature demo_sizes (CallDebugger (WriteMemory 7 [65, 66])) = Some (tys, res) \<and>
    run_request length length tys [smart_payload (call_args (CallDebugger (WriteMemory 7 [65, 66])))] =
      Inr (h, b, HInvoke (map2 arg_value tys [TvPod (bytes64 7), TvPodVec 1 [[65], [66]]]) # evs)"
proof -
  have "sizes_agree demo_sizes"
    by (simp add: sizes_agree_def demo_sizes_def sizeof_MemoryInfo_def sizeof_DebugEvent_def sizeof_ThreadContext_def sizeof_DirectoryEntry_def)
  moreover have "call_ok (CallDebugger (WriteMemory 7 [65, 66]))" by (simp add: call_ok_def interface_defs MAX_ALLOC_def)
  moreover have "concat [smart_payload (call_args (CallDebugger (WriteMemory 7 [65, 66])))] = smart_payload (call_args (CallDebugger (WriteMemory 7 [65, 66])))"
    by simp
  ultimately show ?thesis
    using interfaces_agree [of demo_sizes "CallDebugger (WriteMemory 7 [65, 66])" "[smart_payload (call_args (CallDebugger (WriteMemory 7 [65, 66])))]" length length]
    by (auto simp: in_values_def in_u64_def in_bytes_def)
qed

end
