(* ===== verification/DeviceHandlers.thy ===== *)
theory DeviceHandlers
  imports Interfaces
begin

text \<open>
  The handlers of the device's interfaces (src/twili/bridge/interfaces/*.cpp): the debugger, files, file systems and
  directories. The kernel's and the system services' answers are arguments: a result code, or a code or a value. A
  handler ends with a response or, where the code aborts, with \<open>Inl\<close> of the code it aborts with.
\<close>

section \<open>Responses\<close>

datatype Reply = ReplyOk "PackVal list" | ReplyError u32

definition TWILI_ERR_SYSMODULE_BEING_DEBUGGED :: u32 where
  "TWILI_ERR_SYSMODULE_BEING_DEBUGGED = TWILI_RESULT 38"

definition TWILI_ERR_INVALID_DEBUGGER_STATE :: u32 where
  "TWILI_ERR_INVALID_DEBUGGER_STATE = TWILI_RESULT 39"

definition LoaderTitle :: u64 where "LoaderTitle = 0x0100000000000001"
definition RoTitle :: u64 where "RoTitle = 0x0100000000000037"

text \<open>\<open>TWILI_BRIDGE_CHECK\<close>, and the response after it.\<close>

definition bridge_check :: "u32 \<Rightarrow> Reply \<Rightarrow> Reply" where
  "bridge_check code reply = (if code \<noteq> RESULT_OK then ReplyError code else reply)"

definition reply_result :: "u32 + PackVal list \<Rightarrow> Reply" where
  "reply_result r = (case r of Inl e \<Rightarrow> ReplyError e | Inr vs \<Rightarrow> ReplyOk vs)"

section \<open>Streams that write\<close>

text \<open>The state that the receiver and the end of a stream share: where the next piece goes and the first error. \<open>ws_calls\<close>
  has what was handed to the service; \<open>answer n\<close> is its result for the \<open>n\<close>th call.\<close>

record WriteStream =
  ws_offset :: u64
  ws_result :: u32
  ws_calls :: "(u64 \<times> byte list) list"

definition WriteStream_new :: "u64 \<Rightarrow> WriteStream" where
  "WriteStream_new offset = \<lparr>ws_offset = offset, ws_result = RESULT_OK, ws_calls = []\<rparr>"

definition WriteMemory_receive :: "(nat \<Rightarrow> u32) \<Rightarrow> byte list \<Rightarrow> WriteStream \<Rightarrow> WriteStream" where
  "WriteMemory_receive answer buf s =
    (if ws_result s = RESULT_OK
     then s\<lparr>ws_result := answer (length (ws_calls s)), ws_calls := ws_calls s @ [(ws_offset s, buf)],
            ws_offset := ws_offset s + of_nat (length buf)\<rparr>
     else s)"

definition WriteMemory_finish :: "WriteStream \<Rightarrow> Reply" where
  "WriteMemory_finish s = bridge_check (ws_result s) (ReplyOk [])"

definition file_Write_receive :: "(nat \<Rightarrow> u32) \<Rightarrow> byte list \<Rightarrow> WriteStream \<Rightarrow> WriteStream" where
  "file_Write_receive answer buf s =
    (if ws_result s = RESULT_OK
     then (let a = of_nat (length buf) in
           s\<lparr>ws_result := answer (length (ws_calls s)), ws_calls := ws_calls s @ [(ws_offset s, buf)], ws_offset := ws_offset s + a\<rparr>)
     else s)"

definition file_Write_finish :: "WriteStream \<Rightarrow> Reply" where
  "file_Write_finish s = bridge_check (ws_result s) (ReplyOk [])"

section \<open>The debugger\<close>

text \<open>An event is its bytes and, when it is the attachment of the process, the title id in it.\<close>

record DbgEvent =
  ev_bytes :: "byte list"
  ev_title :: "u64 option"

record Debugger =
  dg_title_id :: u64
  dg_event_queue :: "DbgEvent list"
  dg_waiting :: bool
  dg_proc :: "u64 option"

text \<open>The events that the kernel has, and the code with which it says that there are no more.\<close>

fun PumpEvents :: "DbgEvent list \<Rightarrow> u32 \<Rightarrow> Debugger \<Rightarrow> u32 + Debugger" where
  "PumpEvents [] code d = (if code \<noteq> 0x8c01 then Inl code else Inr d)"
| "PumpEvents (e # es) code d =
    (let d1 = d\<lparr>dg_event_queue := dg_event_queue d @ [e]\<rparr> in
     case ev_title e of
       None \<Rightarrow> PumpEvents es code d1
     | Some title \<Rightarrow>
         if dg_title_id d1 \<noteq> 0 then Inl TWILI_ERR_INVALID_DEBUGGER_STATE
         else PumpEvents es code (d1\<lparr>dg_title_id := title\<rparr>))"

text \<open>\<open>debugging_titles\<close> are the titles that debuggers are open on; \<open>proc\<close> is the entry point of the monitored process.\<close>

definition Debugger_open :: "DbgEvent list \<Rightarrow> u32 \<Rightarrow> u64 option \<Rightarrow> u64 set \<Rightarrow> u32 + Debugger \<times> u64 set" where
  "Debugger_open es code proc titles =
    sum_bind (PumpEvents es code \<lparr>dg_title_id = 0, dg_event_queue = [], dg_waiting = False, dg_proc = proc\<rparr>) (\<lambda>d.
      if dg_title_id d \<noteq> 0
      then (if dg_title_id d \<in> titles then Inl TWILI_ERR_INVALID_DEBUGGER_STATE else Inr (d, insert (dg_title_id d) titles))
      else Inl TWILI_ERR_INVALID_DEBUGGER_STATE)"

definition Debugger_close :: "Debugger \<Rightarrow> u64 set \<Rightarrow> u64 set" where
  "Debugger_close d titles = (if dg_title_id d \<noteq> 0 then titles - {dg_title_id d} else titles)"

definition dbg_QueryMemory :: "(u64 \<Rightarrow> u32 + byte list \<times> byte list) \<Rightarrow> u64 \<Rightarrow> Reply" where
  "dbg_QueryMemory svc addr = (case svc addr of Inl e \<Rightarrow> bridge_check e (ReplyOk []) | Inr (info, page) \<Rightarrow> ReplyOk [PPod info, PPod page])"

definition dbg_ReadMemory :: "(u64 \<Rightarrow> nat \<Rightarrow> u32 + byte list) \<Rightarrow> u64 \<Rightarrow> u64 \<Rightarrow> Reply" where
  "dbg_ReadMemory svc addr size_arg =
    (case svc addr (unat size_arg) of Inl e \<Rightarrow> ReplyError e | Inr bs \<Rightarrow> ReplyOk [PPodVec 1 (map (\<lambda>b. [b]) bs)])"

definition dbg_GetDebugEvent :: "DbgEvent list \<Rightarrow> u32 \<Rightarrow> Debugger \<Rightarrow> u32 + Reply \<times> Debugger" where
  "dbg_GetDebugEvent es code d =
    sum_bind (PumpEvents es code d) (\<lambda>d1.
      case dg_event_queue d1 of
        [] \<Rightarrow> Inr (ReplyError 0x8c01, d1)
      | e # q \<Rightarrow> Inr (ReplyOk [PPod (ev_bytes e)], d1\<lparr>dg_event_queue := q\<rparr>))"

definition dbg_GetThreadContext :: "(u64 \<Rightarrow> u32 + byte list) \<Rightarrow> u64 \<Rightarrow> Reply" where
  "dbg_GetThreadContext svc thread_id = (case svc thread_id of Inl e \<Rightarrow> bridge_check e (ReplyOk []) | Inr tc \<Rightarrow> ReplyOk [PPod tc])"

definition dbg_SetThreadContext :: "(u64 \<Rightarrow> u32 \<Rightarrow> byte list \<Rightarrow> u32) \<Rightarrow> u64 \<Rightarrow> u32 \<Rightarrow> byte list \<Rightarrow> Reply" where
  "dbg_SetThreadContext svc thread_id flags context =
    (if svc thread_id flags context = RESULT_OK then ReplyOk [] else ReplyError (svc thread_id flags context))"

definition dbg_BreakProcess :: "u32 \<Rightarrow> Reply" where
  "dbg_BreakProcess svc = bridge_check svc (ReplyOk [])"

definition dbg_ContinueDebugEvent :: "(u32 \<Rightarrow> u64 list \<Rightarrow> u32) \<Rightarrow> u32 \<Rightarrow> u64 list \<Rightarrow> Reply" where
  "dbg_ContinueDebugEvent svc flags thread_ids = bridge_check (svc flags thread_ids) (ReplyOk [])"

text \<open>\<open>get_pid\<close> is the kernel's process id of the debug handle, which \<open>twili::Assert\<close> unwraps.\<close>

definition module_infos :: "u32 + u64 \<Rightarrow> (u64 \<Rightarrow> u32 + byte list list) \<Rightarrow> u32 + Reply" where
  "module_infos get_pid svc =
    sum_bind get_pid (\<lambda>pid. Inr (case svc pid of Inl e \<Rightarrow> ReplyError e | Inr infos \<Rightarrow> ReplyOk [PPodVec dev_sizeof_LoadedModuleInfo infos]))"

definition dbg_GetNsoInfos :: "u64 set \<Rightarrow> u32 + u64 \<Rightarrow> (u64 \<Rightarrow> u32 + byte list list) \<Rightarrow> u32 + Reply" where
  "dbg_GetNsoInfos titles get_pid svc =
    (if LoaderTitle \<in> titles then Inr (ReplyError TWILI_ERR_SYSMODULE_BEING_DEBUGGED) else module_infos get_pid svc)"

definition dbg_GetNroInfos :: "u64 set \<Rightarrow> u32 + u64 \<Rightarrow> (u64 \<Rightarrow> u32 + byte list list) \<Rightarrow> u32 + Reply" where
  "dbg_GetNroInfos titles get_pid svc =
    (if LoaderTitle \<in> titles then Inr (ReplyError TWILI_ERR_SYSMODULE_BEING_DEBUGGED)
     else if RoTitle \<in> titles then Inr (ReplyError TWILI_ERR_SYSMODULE_BEING_DEBUGGED)
     else module_infos get_pid svc)"

text \<open>Without an answer until the debug handle is signalled.\<close>

definition dbg_WaitEvent :: "Debugger \<Rightarrow> Reply option \<times> Debugger" where
  "dbg_WaitEvent d = (if dg_waiting d then (Some (ReplyError TWILI_ERR_ALREADY_WAITING), d) else (None, d\<lparr>dg_waiting := True\<rparr>))"

definition dbg_signalled :: "Debugger \<Rightarrow> Reply \<times> Debugger" where
  "dbg_signalled d = (ReplyOk [], d\<lparr>dg_waiting := False\<rparr>)"

text \<open>The kernel describes the region at an address: its type, permission, base and size. The loop ends when the next
  address has wrapped around; \<open>None\<close> is a loop that does not end.\<close>

partial_function (option) target_candidates ::
    "(u64 \<Rightarrow> u32 + nat \<times> nat \<times> u64 \<times> u64) \<Rightarrow> u64 \<Rightarrow> u64 list \<Rightarrow> (u32 + u64 list) option" where
  "target_candidates svc addr candidates =
    (case svc addr of
       Inl e \<Rightarrow> Some (Inl e)
     | Inr (memory_type, permission, base_addr, sz) \<Rightarrow>
         (let candidates1 = (if memory_type = 3 \<and> permission = 5 then candidates @ [base_addr] else candidates);
              addr1 = base_addr + sz
          in if addr1 > base_addr then target_candidates svc addr1 candidates1 else Some (Inr candidates1)))"

definition pick_candidate :: "u64 list \<Rightarrow> u64" where
  "pick_candidate candidates =
    (if length candidates = 0 then 0 else if length candidates = 1 then candidates ! 0 else candidates ! 1)"

definition dbg_GetTargetEntry :: "(u64 \<Rightarrow> u32 + nat \<times> nat \<times> u64 \<times> u64) \<Rightarrow> Debugger \<Rightarrow> (u32 + Reply) option" where
  "dbg_GetTargetEntry svc d =
    (case dg_proc d of
       Some target_entry \<Rightarrow> Some (Inr (ReplyOk [PPod (bytes64 target_entry)]))
     | None \<Rightarrow>
         map_option (\<lambda>r. sum_bind r (\<lambda>candidates. Inr (ReplyOk [PPod (bytes64 (pick_candidate candidates))])))
           (target_candidates svc 0 []))"

definition dbg_LaunchDebugProcess :: "u32 + u64 \<Rightarrow> (u64 \<Rightarrow> u32) \<Rightarrow> u32 + Reply" where
  "dbg_LaunchDebugProcess get_pid svc = sum_bind get_pid (\<lambda>pid. Inr (bridge_check (svc pid) (ReplyOk [])))"

section \<open>File systems\<close>

text \<open>\<open>strncpy\<close> of a path into a buffer of 0x301 bytes, and what a reader of a C string finds there: nothing when the
  terminator is missing.\<close>

definition path_buffer :: "byte list \<Rightarrow> byte list" where
  "path_buffer path = take 0x301 (takeWhile (\<lambda>b. b \<noteq> 0) path @ replicate 0x301 0)"

definition c_string :: "byte list \<Rightarrow> byte list option" where
  "c_string buf = (if 0 \<in> set buf then Some (takeWhile (\<lambda>b. b \<noteq> 0) buf) else None)"

datatype FsRequest =
    FsCreateFile u32 u64 "byte list" | FsDeleteFile "byte list" | FsCreateDirectory "byte list" | FsDeleteDirectory "byte list"
  | FsDeleteDirectoryRecursively "byte list" | FsRenameFile "byte list" "byte list" | FsRenameDirectory "byte list" "byte list"
  | FsGetEntryType "byte list" | FsOpenFile u32 "byte list" | FsOpenDirectory u32 "byte list"

text \<open>What each handler asks of the service, given the arguments of the call.\<close>

fun fs_request :: "FilesystemCall \<Rightarrow> FsRequest" where
  "fs_request (CreateFile mode sz path) = FsCreateFile mode sz (path_buffer path)"
| "fs_request (DeleteFile path) = FsDeleteFile (path_buffer path)"
| "fs_request (CreateDirectory path) = FsCreateDirectory (path_buffer path)"
| "fs_request (DeleteDirectory path) = FsDeleteDirectory (path_buffer path)"
| "fs_request (DeleteDirectoryRecursively path) = FsDeleteDirectoryRecursively (path_buffer path)"
| "fs_request (RenameFile src dst) = FsRenameFile (path_buffer src) (path_buffer dst)"
| "fs_request (RenameDirectory src dst) = FsRenameDirectory (path_buffer src) (path_buffer dst)"
| "fs_request (IsFile path) = FsGetEntryType (path_buffer path)"
| "fs_request (OpenFileAccessor mode path) = FsOpenFile mode (path_buffer path)"
| "fs_request (OpenDirectory path) = FsOpenDirectory 3 (path_buffer path)"

text \<open>The service answers with a code, or with the entry type or the session that the request asks for.\<close>

definition fs_handle :: "(FsRequest \<Rightarrow> u32 + PackVal list) \<Rightarrow> FilesystemCall \<Rightarrow> Reply" where
  "fs_handle svc call = reply_result (svc (fs_request call))"

section \<open>Files and directories\<close>

text \<open>\<open>file_limit\<close> is the local constant of \<open>Read\<close>; the service is given the offset and the size of the buffer.\<close>

definition file_limit :: nat where
  "file_limit = 0x40000"

definition file_Read :: "(u64 \<Rightarrow> nat \<Rightarrow> u32 + byte list) \<Rightarrow> u64 \<Rightarrow> u64 \<Rightarrow> Reply" where
  "file_Read svc offset size_arg =
    (case svc offset (max (unat size_arg) file_limit) of Inl e \<Rightarrow> ReplyError e | Inr bs \<Rightarrow> ReplyOk [PPodVec 1 (map (\<lambda>b. [b]) bs)])"

definition file_Flush :: "u32 \<Rightarrow> Reply" where
  "file_Flush svc = bridge_check svc (ReplyOk [])"

definition file_SetSize :: "(u64 \<Rightarrow> u32) \<Rightarrow> u64 \<Rightarrow> Reply" where
  "file_SetSize svc size_arg = bridge_check (svc size_arg) (ReplyOk [])"

definition file_GetSize :: "u32 + u64 \<Rightarrow> Reply" where
  "file_GetSize svc = (case svc of Inl e \<Rightarrow> ReplyError e | Inr n \<Rightarrow> ReplyOk [PPod (bytes64 n)])"

text \<open>The service is given room for 32 entries.\<close>

definition directory_Read :: "(nat \<Rightarrow> u32 + byte list list) \<Rightarrow> DevSizes \<Rightarrow> Reply" where
  "directory_Read svc sz = (case svc 32 of Inl e \<Rightarrow> ReplyError e | Inr entries \<Rightarrow> ReplyOk [PPodVec (sz_directory_entry sz) entries])"

definition directory_GetEntryCount :: "u32 + u64 \<Rightarrow> Reply" where
  "directory_GetEntryCount svc = (case svc of Inl e \<Rightarrow> ReplyError e | Inr n \<Rightarrow> ReplyOk [PPod (bytes64 n)])"

section \<open>Properties\<close>

text \<open>The pieces of a stream at the places where they belong.\<close>

fun placed :: "u64 \<Rightarrow> byte list list \<Rightarrow> (u64 \<times> byte list) list" where
  "placed offset [] = []"
| "placed offset (c # cs) = (offset, c) # placed (offset + of_nat (length c)) cs"

lemma file_Write_same: "file_Write_receive = WriteMemory_receive" "file_Write_finish = WriteMemory_finish"
  by (auto simp: fun_eq_iff file_Write_receive_def WriteMemory_receive_def file_Write_finish_def WriteMemory_finish_def Let_def)

lemma receive_after_error: "ws_result s \<noteq> RESULT_OK \<Longrightarrow> fold (WriteMemory_receive answer) cs s = s"
  by (induction cs) (simp_all add: WriteMemory_receive_def)

text \<open>How many pieces are handed over: all of them, or those up to the first that fails.\<close>

fun accepted :: "(nat \<Rightarrow> u32) \<Rightarrow> nat \<Rightarrow> byte list list \<Rightarrow> nat" where
  "accepted answer n [] = 0"
| "accepted answer n (c # cs) = (if answer n = RESULT_OK then Suc (accepted answer (Suc n) cs) else 1)"

lemma fold_receive:
  "ws_result s = RESULT_OK \<Longrightarrow>
    (let e = fold (WriteMemory_receive answer) cs s; k = accepted answer (length (ws_calls s)) cs in
     ws_calls e = ws_calls s @ placed (ws_offset s) (take k cs) \<and>
     ws_result e = (if k = 0 then RESULT_OK else answer (length (ws_calls s) + k - 1)))"
proof (induction cs arbitrary: s)
  case (Cons c cs)
  let ?s = "WriteMemory_receive answer c s"
  have s: "ws_calls ?s = ws_calls s @ [(ws_offset s, c)]" "ws_offset ?s = ws_offset s + of_nat (length c)"
    "ws_result ?s = answer (length (ws_calls s))"
    using Cons.prems by (simp_all add: WriteMemory_receive_def)
  show ?case
  proof (cases "answer (length (ws_calls s)) = RESULT_OK")
    case True
    with Cons.IH [of ?s] s show ?thesis by (auto simp: Let_def)
  next
    case False
    with receive_after_error [of ?s answer cs] s show ?thesis by simp
  qed
qed simp

text \<open>C27: a stream is written in order and without gaps, up to the first error. The pieces of a stream that the debugger
  writes to memory, or a file to the card, go to consecutive places; when all are written the request is answered
  with success, and when one fails, nothing after it is written and its code is the answer.\<close>

theorem streams_written_in_order:
  "let e = fold (WriteMemory_receive answer) cs (WriteStream_new offset);
       e' = fold (file_Write_receive answer) cs (WriteStream_new offset)
   in \<exists>k \<le> length cs. ws_calls e = placed offset (take k cs) \<and> ws_calls e' = placed offset (take k cs) \<and>
    WriteMemory_finish e = file_Write_finish e' \<and>
    (if k = 0 \<or> answer (k - 1) = RESULT_OK then k = length cs \<and> WriteMemory_finish e = ReplyOk []
     else WriteMemory_finish e = ReplyError (answer (k - 1)))"
proof -
  define e where "e = fold (WriteMemory_receive answer) cs (WriteStream_new offset)"
  let ?k = "accepted answer 0 cs"
  have k: "accepted answer n cs \<le> length cs \<and>
    (accepted answer n cs < length cs \<longrightarrow> accepted answer n cs \<noteq> 0 \<and> answer (n + accepted answer n cs - 1) \<noteq> RESULT_OK)" for n cs
    by (induction answer n cs rule: accepted.induct) auto
  have e: "ws_calls e = placed offset (take ?k cs)" "ws_result e = (if ?k = 0 then RESULT_OK else answer (?k - 1))"
    using fold_receive [of "WriteStream_new offset" answer cs] by (simp_all add: e_def WriteStream_new_def Let_def)
  show ?thesis
    unfolding file_Write_same Let_def e_def [symmetric] using e k [of 0 cs]
    by (intro exI [of _ ?k]) (auto simp: WriteMemory_finish_def bridge_check_def)
qed

text \<open>The events of a debugger: the calls of \<open>GetDebugEvent\<close>, each with the events that the kernel has by then.\<close>

fun dbg_run :: "DbgEvent list list \<Rightarrow> Debugger \<Rightarrow> u32 + Reply list \<times> Debugger" where
  "dbg_run [] d = Inr ([], d)"
| "dbg_run (es # ess) d =
    sum_bind (dbg_GetDebugEvent es 0x8c01 d) (\<lambda>(r, d1). sum_bind (dbg_run ess d1) (\<lambda>(rs, d2). Inr (r # rs, d2)))"

fun delivered_events :: "Reply list \<Rightarrow> byte list list" where
  "delivered_events [] = []"
| "delivered_events (ReplyOk [PPod bs] # rs) = bs # delivered_events rs"
| "delivered_events (_ # rs) = delivered_events rs"

lemma PumpEvents_queues:
  "list_all (\<lambda>e. ev_title e = None) es \<Longrightarrow>
    PumpEvents es 0x8c01 d = Inr (d\<lparr>dg_event_queue := dg_event_queue d @ es\<rparr>)"
  by (induction es arbitrary: d) simp_all

lemma GetDebugEvent_pops:
  assumes "list_all (\<lambda>e. ev_title e = None) es"
  shows "dbg_GetDebugEvent es 0x8c01 d =
    (case dg_event_queue d @ es of
       [] \<Rightarrow> Inr (ReplyError 0x8c01, d)
     | e # q \<Rightarrow> Inr (ReplyOk [PPod (ev_bytes e)], d\<lparr>dg_event_queue := q\<rparr>))"
  using PumpEvents_queues [OF assms, of d] by (auto simp: dbg_GetDebugEvent_def split: list.splits)

text \<open>C26: every debug event is delivered once and in the order in which the kernel has them, and \<open>0x8c01\<close>, no event, is
  the answer only when all the events there are have been delivered.\<close>

theorem debug_events_fifo:
  assumes "list_all (list_all (\<lambda>e. ev_title e = None)) ess"
  shows "\<exists>rs d'. dbg_run ess d = Inr (rs, d') \<and> length rs = length ess \<and>
    delivered_events rs @ map ev_bytes (dg_event_queue d') = map ev_bytes (dg_event_queue d @ concat ess) \<and>
    (\<forall>i < length ess. rs ! i = ReplyError 0x8c01 \<longrightarrow>
       delivered_events (take i rs) = map ev_bytes (dg_event_queue d @ concat (take (Suc i) ess)))"
  using assms
proof (induction ess arbitrary: d)
  case (Cons es ess)
  then have es: "list_all (\<lambda>e. ev_title e = None) es" and ess: "list_all (list_all (\<lambda>e. ev_title e = None)) ess" by simp_all
  show ?case
  proof (cases "dg_event_queue d @ es")
    case Nil
    with Cons.IH [OF ess, of d] obtain rs d' where ih: "dbg_run ess d = Inr (rs, d')" "length rs = length ess"
      "delivered_events rs @ map ev_bytes (dg_event_queue d') = map ev_bytes (concat ess)"
      "\<And>i. i < length ess \<Longrightarrow> rs ! i = ReplyError 0x8c01 \<Longrightarrow> delivered_events (take i rs) = map ev_bytes (concat (take (Suc i) ess))"
      by auto
    have "dbg_run (es # ess) d = Inr (ReplyError 0x8c01 # rs, d')"
      using GetDebugEvent_pops [OF es, of d] Nil ih(1) by simp
    with ih Nil show ?thesis by (auto simp: nth_Cons' take_Cons' gr0_conv_Suc)
  next
    case (Cons e q)
    let ?d = "d\<lparr>dg_event_queue := q\<rparr>"
    from Cons.IH [OF ess, of ?d] obtain rs d' where ih: "dbg_run ess ?d = Inr (rs, d')" "length rs = length ess"
      "delivered_events rs @ map ev_bytes (dg_event_queue d') = map ev_bytes (q @ concat ess)"
      "\<And>i. i < length ess \<Longrightarrow> rs ! i = ReplyError 0x8c01 \<Longrightarrow>
        delivered_events (take i rs) = map ev_bytes (q @ concat (take (Suc i) ess))"
      by auto
    have run: "dbg_run (es # ess) d = Inr (ReplyOk [PPod (ev_bytes e)] # rs, d')"
      using GetDebugEvent_pops [OF es, of d] Cons ih(1) by simp
    have q: "map ev_bytes (dg_event_queue d) @ map ev_bytes es @ x = ev_bytes e # map ev_bytes q @ x" for x
      using arg_cong [OF Cons, of "\<lambda>q. map ev_bytes q @ x"] by simp
    show ?thesis
      by (rule exI [of _ "ReplyOk [PPod (ev_bytes e)] # rs"], rule exI [of _ d'])
        (use run ih q in \<open>auto simp: nth_Cons' take_Cons' gr0_conv_Suc\<close>)
  qed
qed simp

theorem debug_events_fifo_witness:
  "\<exists>rs d'. dbg_run [[], [\<lparr>ev_bytes = [1], ev_title = None\<rparr>, \<lparr>ev_bytes = [2], ev_title = None\<rparr>], [], []]
      \<lparr>dg_title_id = 5, dg_event_queue = [], dg_waiting = False, dg_proc = None\<rparr> = Inr (rs, d') \<and>
    delivered_events rs = [[1], [2]] \<and> dg_event_queue d' = []"
  using debug_events_fifo [of "[[], [\<lparr>ev_bytes = [1], ev_title = None\<rparr>, \<lparr>ev_bytes = [2], ev_title = None\<rparr>], [], []]"
      "\<lparr>dg_title_id = 5, dg_event_queue = [], dg_waiting = False, dg_proc = None\<rparr>"]
  by (simp add: dbg_GetDebugEvent_def)

text \<open>The memory of a process as the kernel describes it: regions from \<open>base_addr\<close> to the end of the address space,
  each with its type, its permission and its size.\<close>

fun describes :: "(u64 \<Rightarrow> u32 + nat \<times> nat \<times> u64 \<times> u64) \<Rightarrow> nat \<Rightarrow> (nat \<times> nat \<times> nat) list \<Rightarrow> bool" where
  "describes svc base_addr [] = (base_addr = 2 ^ 64)"
| "describes svc base_addr ((memory_type, permission, sz) # regions) =
    (0 < sz \<and> base_addr + sz \<le> 2 ^ 64 \<and> svc (of_nat base_addr) = Inr (memory_type, permission, of_nat base_addr, of_nat sz) \<and>
     describes svc (base_addr + sz) regions)"

fun code_bases :: "nat \<Rightarrow> (nat \<times> nat \<times> nat) list \<Rightarrow> u64 list" where
  "code_bases base_addr [] = []"
| "code_bases base_addr ((memory_type, permission, sz) # regions) =
    (if memory_type = 3 \<and> permission = 5 then [of_nat base_addr] else []) @ code_bases (base_addr + sz) regions"

lemma next_region:
  assumes "0 < sz" and "base_addr + sz < 2 ^ 64"
  shows "(of_nat base_addr :: u64) < of_nat base_addr + of_nat sz"
proof -
  have "unat (of_nat base_addr :: u64) = base_addr" "unat (of_nat (base_addr + sz) :: u64) = base_addr + sz"
    using assms by (simp_all add: unsigned_of_nat take_bit_nat_eq_self del: of_nat_add)
  with assms show ?thesis by (simp add: word_less_nat_alt flip: of_nat_add)
qed

lemma last_region: "base_addr + sz = 2 ^ 64 \<Longrightarrow> of_nat base_addr + of_nat sz = (0 :: u64)"
proof -
  assume "base_addr + sz = 2 ^ 64"
  then have "of_nat (base_addr + sz) = (of_nat (2 ^ 64) :: u64)" by (rule arg_cong)
  then show ?thesis by simp
qed

lemma target_candidates_found:
  assumes "regions \<noteq> []" and "describes svc base_addr regions"
  shows "target_candidates svc (of_nat base_addr) cs = Some (Inr (cs @ code_bases base_addr regions))"
  using assms
proof (induction regions arbitrary: base_addr cs)
  case (Cons region regions)
  obtain memory_type permission sz where r: "region = (memory_type, permission, sz)" by (cases region)
  from Cons.prems r have d: "0 < sz" "base_addr + sz \<le> 2 ^ 64" "describes svc (base_addr + sz) regions"
    "svc (of_nat base_addr) = Inr (memory_type, permission, of_nat base_addr, of_nat sz)" by simp_all
  show ?case
  proof (cases "regions = []")
    case True
    with d have "base_addr + sz = 2 ^ 64" by simp
    with d(4) True r last_region show ?thesis by (subst target_candidates.simps) simp
  next
    case False
    with d have "base_addr + sz < 2 ^ 64" by (cases "base_addr + sz = 2 ^ 64"; cases regions) auto
    note lt = next_region [OF d(1) this]
    from Cons.IH [OF False d(3)] d(4) r lt show ?thesis by (subst target_candidates.simps) (simp add: Let_def)
  qed
qed simp

text \<open>\<open>GetTargetEntry\<close> of a process that is not monitored ends, for every layout of its memory, and answers with
  the second region of static code: main, after rtld. With one such region it answers that one, with none zero.\<close>

theorem target_entry_found:
  assumes "regions \<noteq> []" and "describes svc 0 regions" and "dg_proc d = None"
  shows "dbg_GetTargetEntry svc d =
    Some (Inr (ReplyOk [PPod (bytes64 (case code_bases 0 regions of [] \<Rightarrow> 0 | [c] \<Rightarrow> c | _ # c # _ \<Rightarrow> c))]))"
  using target_candidates_found [OF assms(1,2), of "[]"] assms(3)
  by (auto simp: dbg_GetTargetEntry_def pick_candidate_def split: list.splits)

theorem target_entry_found_witness:
  "dbg_GetTargetEntry
     (\<lambda>addr. Inr (if addr = 0 then (0, 0, 0, 0x1000) else if addr = 0x1000 then (3, 5, 0x1000, 0x1000)
       else if addr = 0x2000 then (3, 5, 0x2000, 0x2000) else (0, 0, 0x4000, - 0x4000)))
     \<lparr>dg_title_id = 5, dg_event_queue = [], dg_waiting = False, dg_proc = None\<rparr> = Some (Inr (ReplyOk [PPod (bytes64 0x2000)]))"
  using target_entry_found [of "[(0, 0, 0x1000), (3, 5, 0x1000), (3, 5, 0x2000), (0, 0, 2 ^ 64 - 0x4000)]"]
  by simp

text \<open>A path reaches the file system's service whole exactly when it is shorter than the buffer it is copied to; a
  path of 0x301 bytes or more leaves the buffer without its terminator.\<close>

theorem path_reaches_service:
  "c_string (path_buffer path) = (if length (takeWhile (\<lambda>b. b \<noteq> 0) path) < 0x301 then Some (takeWhile (\<lambda>b. b \<noteq> 0) path) else None) \<and>
   length (path_buffer path) = 0x301"
proof -
  define p where "p = takeWhile (\<lambda>b. b \<noteq> 0) path"
  have p: "0 \<notin> set p" using set_takeWhileD by (fastforce simp: p_def)
  have t: "takeWhile (\<lambda>b. b \<noteq> 0) (p @ replicate (Suc n) 0) = p" for n
    using p by (subst takeWhile_append2) auto
  show ?thesis
  proof (cases "length p < 0x301")
    case True
    then have "path_buffer path = p @ replicate (Suc (0x300 - length p)) 0"
      unfolding path_buffer_def p_def [symmetric] by (simp flip: replicate_Suc)
    with True t [of "0x300 - length p"] show ?thesis unfolding p_def [symmetric] by (simp add: c_string_def)
  next
    case False
    then have "path_buffer path = take 0x301 p" unfolding path_buffer_def p_def [symmetric] by simp
    with False p show ?thesis unfolding p_def [symmetric] by (auto simp: c_string_def dest: in_set_takeD)
  qed
qed

text \<open>Closing a debugger frees the title that opening it has taken; a second debugger on a title aborts.\<close>

theorem debugger_titles:
  assumes "Debugger_open es code proc titles = Inr (d, titles')"
  shows "Debugger_close d titles' = titles \<and> Debugger_open es code proc titles' = Inl TWILI_ERR_INVALID_DEBUGGER_STATE"
  using assms by (cases "PumpEvents es code \<lparr>dg_title_id = 0, dg_event_queue = [], dg_waiting = False, dg_proc = proc\<rparr>")
    (auto simp: Debugger_open_def Debugger_close_def split: if_splits)

theorem debugger_titles_witness:
  "Debugger_close \<lparr>dg_title_id = 7, dg_event_queue = [\<lparr>ev_bytes = [], ev_title = Some 7\<rparr>], dg_waiting = False, dg_proc = None\<rparr> {3, 7} = {3}"
  using debugger_titles [of "[\<lparr>ev_bytes = [], ev_title = Some 7\<rparr>]" "0x8c01" None "{3}"
      "\<lparr>dg_title_id = 7, dg_event_queue = [\<lparr>ev_bytes = [], ev_title = Some 7\<rparr>], dg_waiting = False, dg_proc = None\<rparr>" "{3, 7}"]
  by (auto simp: Debugger_open_def)

text \<open>A read of a file asks the service for at least \<open>file_limit\<close> bytes, however few the caller asked for, and has no
  upper bound.\<close>

theorem file_read_size:
  "\<exists>n. file_Read svc offset size_arg = (case svc offset n of Inl e \<Rightarrow> ReplyError e | Inr bs \<Rightarrow> ReplyOk [PPodVec 1 (map (\<lambda>b. [b]) bs)]) \<and>
     0x40000 \<le> n \<and> unat size_arg \<le> n"
  by (auto simp: file_Read_def file_limit_def intro!: exI [of _ "max (unat size_arg) file_limit"])

end
