(* ===== verification/PipeObjects.thy ===== *)
theory PipeObjects
  imports TwibPipe DeviceHandlers
begin

text \<open>
  The bridge's objects at the ends of a pipe (src/twili/bridge/interfaces/ITwibPipeReader.cpp and ITwibPipeWriter.cpp)
  over the model of \<open>TwibPipe\<close>: a write request streams its payload into a buffer of its own and hands that buffer to
  the pipe, one write at a time; the pipe's callback starts the next. A second response to one request aborts, as
  \<open>BeginError\<close> does. One object writes to a pipe.
\<close>

section \<open>Reading\<close>

text \<open>\<open>ITwibPipeReader::Read\<close>: the callback takes everything it is offered.\<close>

definition pipe_reader_cb :: "nat \<Rightarrow> ReadCb" where
  "pipe_reader_cb r = ReadCb r (\<lambda>actual_size. actual_size)"

definition pipe_reader_reply :: "byte list \<Rightarrow> Reply" where
  "pipe_reader_reply bs = (if length bs = 0 then ReplyError TWILI_ERR_EOF else ReplyOk [PPodVec 1 (map (\<lambda>b. [b]) bs)])"

text \<open>The answers that the events of the pipe give to the requests of reader \<open>r\<close>.\<close>

fun reader_answers :: "nat \<Rightarrow> PipeEvent list \<Rightarrow> Reply list" where
  "reader_answers r [] = []"
| "reader_answers r (EvRead r' bs k # evs) = (if r' = r then [pipe_reader_reply bs] else []) @ reader_answers r evs"
| "reader_answers r (EvEof r' # evs) = (if r' = r then [pipe_reader_reply []] else []) @ reader_answers r evs"
| "reader_answers r (EvWrite _ _ # evs) = reader_answers r evs"

section \<open>Writing\<close>

text \<open>The \<open>State\<close> of a write request. \<open>wr_size\<close> is the size that the callback of the write in flight has captured and
  \<open>wr_id\<close> its identity; \<open>wr_replies\<close> has the responses and \<open>wr_handed\<close> what was handed to the pipe.\<close>

record WriterState =
  wr_id :: nat
  wr_buffer :: Buffer
  wr_is_writing :: bool
  wr_is_done :: bool
  wr_size :: nat
  wr_replies :: "Reply list"
  wr_handed :: "byte list list"

definition respond :: "Reply \<Rightarrow> WriterState \<Rightarrow> u32 + WriterState" where
  "respond reply s = (if wr_replies s \<noteq> [] then Inl TWILI_ERR_FATAL_BRIDGE_STATE else Inr (s\<lparr>wr_replies := [reply]\<rparr>))"

text \<open>A request to a closed pipe is answered, and then set up like every other.\<close>

definition WriterState_new :: "nat \<Rightarrow> TwibPipe \<Rightarrow> WriterState" where
  "WriterState_new w p =
    \<lparr>wr_id = w, wr_buffer = Buffer_new, wr_is_writing = False, wr_is_done = False, wr_size = 0,
     wr_replies = (if IsWriterClosed p then [ReplyError TWILI_ERR_EOF] else []), wr_handed = []\<rparr>"

text \<open>The pipe's callback, up to its call of \<open>Write\<close>, and whether it makes it.\<close>

definition writer_callback :: "bool \<Rightarrow> WriterState \<Rightarrow> u32 + WriterState \<times> bool" where
  "writer_callback eof s =
    (let s1 = s\<lparr>wr_buffer := MarkRead (wr_buffer s) (wr_size s), wr_is_writing := False\<rparr> in
     if eof then
       (if \<not> wr_is_done s1
        then sum_bind (respond (ReplyError TWILI_ERR_EOF) (s1\<lparr>wr_is_done := True\<rparr>)) (\<lambda>s2. Inr (s2, False))
        else Inr (s1, False))
     else if wr_is_done s1 \<and> ReadAvailable (wr_buffer s1) = 0
     then sum_bind (respond (ReplyOk []) s1) (\<lambda>s2. Inr (s2, False))
     else Inr (s1, True))"

fun called_back :: "nat \<Rightarrow> PipeEvent list \<Rightarrow> bool option" where
  "called_back w [] = None"
| "called_back w (EvWrite w' eof # evs) = (if w' = w then Some eof else called_back w evs)"
| "called_back w (_ # evs) = called_back w evs"

definition writer_begin :: "WriterState \<Rightarrow> WriterState" where
  "writer_begin s =
    (let b = Compact (wr_buffer s) in
     s\<lparr>wr_is_writing := True, wr_buffer := b, wr_size := ReadAvailable b, wr_handed := wr_handed s @ [contents b]\<rparr>)"

type_synonym writer_result = "u32 + TwibPipe \<times> WriterState \<times> PipeEvent list"

lemma callback_decreases:
  "writer_callback eof (writer_begin s) = Inr (s', True) \<Longrightarrow> ReadAvailable (wr_buffer s') = 0"
  by (auto simp: writer_callback_def writer_begin_def Let_def respond_def Compact_def MarkRead_def ReadAvailable_def
      split: if_splits sum.splits)

function writer_Write :: "TwibPipe \<Rightarrow> WriterState \<Rightarrow> writer_result" where
  "writer_Write p s =
    (if ReadAvailable (wr_buffer s) = 0 then
       (if wr_is_done s then sum_bind (respond (ReplyOk []) s) (\<lambda>s1. Inr (p, s1, [])) else Inr (p, s, []))
     else
       (let s1 = writer_begin s in
        case pipe_Write p (contents (wr_buffer s1)) (wr_id s1) of
          Inl e \<Rightarrow> Inl e
        | Inr (p1, evs) \<Rightarrow>
            (case called_back (wr_id s1) evs of
               None \<Rightarrow> Inr (p1, s1, evs)
             | Some eof \<Rightarrow>
                 (case writer_callback eof s1 of
                    Inl e \<Rightarrow> Inl e
                  | Inr (s2, again) \<Rightarrow>
                      if again
                      then (case writer_Write p1 s2 of Inl e \<Rightarrow> Inl e | Inr (p3, s3, evs3) \<Rightarrow> Inr (p3, s3, evs @ evs3))
                      else Inr (p1, s2, evs)))))"
  by pat_completeness auto
termination
  by (relation "measure (\<lambda>(p, s). ReadAvailable (wr_buffer s))") (auto dest: callback_decreases)

declare writer_Write.simps [simp del]

text \<open>\<open>stream.receive\<close>: the rest of the input and the new state. \<open>None\<close> is the copy past the end of a buffer.\<close>

definition writer_receive :: "Buffer \<Rightarrow> TwibPipe \<Rightarrow> WriterState \<Rightarrow> (Buffer \<times> writer_result) option" where
  "writer_receive input p s =
    (let n = (if wr_is_writing s then min (ReadAvailable input) (WriteAvailableHint (wr_buffer s)) else ReadAvailable input) in
     case Read_Buffer input (wr_buffer s) (min (ReadAvailable input) n) of
       None \<Rightarrow> None
     | Some (_, input', b) \<Rightarrow>
         (let s1 = s\<lparr>wr_buffer := b\<rparr> in
          Some (input', if wr_is_writing s1 then Inr (p, s1, []) else writer_Write p s1)))"

definition writer_finish :: "TwibPipe \<Rightarrow> WriterState \<Rightarrow> writer_result" where
  "writer_finish p s =
    (let s1 = s\<lparr>wr_is_done := True\<rparr> in if wr_is_writing s1 then Inr (p, s1, []) else writer_Write p s1)"

text \<open>What another operation on the pipe does to the request: its callback, when that operation calls it.\<close>

definition writer_after :: "pipe_result \<Rightarrow> WriterState \<Rightarrow> writer_result" where
  "writer_after r s =
    sum_bind r (\<lambda>(p1, evs).
      case called_back (wr_id s) evs of
        None \<Rightarrow> Inr (p1, s, evs)
      | Some eof \<Rightarrow>
          sum_bind (writer_callback eof s) (\<lambda>(s2, again).
            if again then sum_bind (writer_Write p1 s2) (\<lambda>(p3, s3, evs3). Inr (p3, s3, evs @ evs3)) else Inr (p1, s2, evs)))"

definition pipe_writer_Close :: "TwibPipe \<Rightarrow> (TwibPipe \<times> PipeEvent list) \<times> Reply" where
  "pipe_writer_Close p = (CloseWriter p, ReplyOk [])"

definition pipe_writer_destroy :: "TwibPipe \<Rightarrow> TwibPipe \<times> PipeEvent list" where
  "pipe_writer_destroy p = CloseWriter p"

section \<open>A request on an open pipe\<close>

text \<open>The states of a request while neither end of the pipe is closed: \<open>got\<close> is what its stream has taken, and the flag
  says whether the stream has finished.\<close>

definition parked :: "TwibPipe \<Rightarrow> bool" where
  "parked p \<longleftrightarrow> (case tp_state p of WritePendingState _ _ \<Rightarrow> True | _ \<Rightarrow> False)"

definition taken :: "Buffer \<Rightarrow> Buffer \<Rightarrow> byte list" where
  "taken input input' = take (length (contents input) - length (contents input')) (contents input)"

inductive writer_reach :: "nat \<Rightarrow> TwibPipe \<Rightarrow> WriterState \<Rightarrow> byte list \<Rightarrow> bool \<Rightarrow> bool" for w where
  open_request: "pipe_ok p \<Longrightarrow> \<not> parked p \<Longrightarrow> \<not> tp_hit_eof p \<Longrightarrow> writer_reach w p (WriterState_new w p) [] False"
| receive: "writer_reach w p s got False \<Longrightarrow> buf_ok input \<Longrightarrow> writer_receive input p s = Some (input', Inr (p', s', evs)) \<Longrightarrow>
    writer_reach w p' s' (got @ taken input input') False"
| finish: "writer_reach w p s got False \<Longrightarrow> writer_finish p s = Inr (p', s', evs) \<Longrightarrow> writer_reach w p' s' got True"
| read: "writer_reach w p s got fin \<Longrightarrow> honest cb \<Longrightarrow> writer_after (pipe_Read p cb) s = Inr (p', s', evs) \<Longrightarrow>
    writer_reach w p' s' got fin"

definition writer_ok :: "nat \<Rightarrow> TwibPipe \<Rightarrow> WriterState \<Rightarrow> bool" where
  "writer_ok w p s \<longleftrightarrow> pipe_ok p \<and> \<not> tp_hit_eof p \<and> wr_id s = w \<and> buf_ok (wr_buffer s) \<and> limit (wr_buffer s) = None"

definition writer_inv :: "nat \<Rightarrow> TwibPipe \<Rightarrow> WriterState \<Rightarrow> byte list \<Rightarrow> bool \<Rightarrow> bool" where
  "writer_inv w p s got fin \<longleftrightarrow>
    writer_ok w p s \<and> wr_is_done s = fin \<and>
    (if wr_is_writing s
     then (\<exists>d. tp_state p = WritePendingState d w) \<and> wr_size s \<le> length (contents (wr_buffer s)) \<and>
       concat (wr_handed s) @ drop (wr_size s) (contents (wr_buffer s)) = got \<and> wr_replies s = []
     else \<not> parked p \<and> contents (wr_buffer s) = [] \<and> concat (wr_handed s) = got \<and>
       wr_replies s = (if fin then [ReplyOk []] else []))"

lemma called_back_append: "called_back w (xs @ ys) = (case called_back w xs of None \<Rightarrow> called_back w ys | Some e \<Rightarrow> Some e)"
  by (induction w xs rule: called_back.induct) auto

lemma called_back_idle: "called_back w (snd (Read_idle p cb)) = None"
  by (simp add: Read_idle_def Let_def)

lemma parked_idle: "tp_state p = IdleState \<Longrightarrow> \<not> parked (fst (Read_idle p cb))"
  by (simp add: Read_idle_def Let_def parked_def)

lemma pipe_Write_open:
  assumes ok: "pipe_ok p" "\<not> parked p" "\<not> tp_hit_eof p" and d: "d \<noteq> []"
  obtains p' evs where "pipe_Write p d w = Inr (p', evs)" "pipe_ok p'" "\<not> tp_hit_eof p'"
    "called_back w evs = Some False \<and> \<not> parked p' \<or> called_back w evs = None \<and> (\<exists>d'. tp_state p' = WritePendingState d' w)"
proof -
  have "\<exists>p' evs. pipe_Write p d w = Inr (p', evs) \<and>
    (called_back w evs = Some False \<and> \<not> parked p' \<or> called_back w evs = None \<and> (\<exists>d'. tp_state p' = WritePendingState d' w))"
  proof (cases "tp_state p")
    case (ReadPendingState cb)
    with ok have "consumes cb (length d) \<le> length d" by (simp add: pipe_ok_def honest_def)
    with ReadPendingState ok d show ?thesis by (auto simp: pipe_Write_def Let_def parked_def)
  qed (use ok d in \<open>auto simp: pipe_Write_def parked_def split_beta\<close>)
  then obtain p' evs where w: "pipe_Write p d w = Inr (p', evs)"
    "called_back w evs = Some False \<and> \<not> parked p' \<or> called_back w evs = None \<and> (\<exists>d'. tp_state p' = WritePendingState d' w)"
    by blast
  have "pipe_step p (PWrite d w) = Inr (p', evs)" using w by simp
  from pipe_step_frame [OF ok(1) _ this] ok(3) show thesis by (intro that [OF w(1) _ _ w(2)]) simp_all
qed

lemma pipe_Read_open:
  assumes ok: "pipe_ok p" and h: "honest cb" and R: "pipe_Read p cb = Inr (p', evs)"
  shows "\<not> parked p \<Longrightarrow> called_back w evs = None \<and> \<not> parked p'"
    and "tp_state p = WritePendingState d w \<Longrightarrow>
      called_back w evs = Some False \<and> \<not> parked p' \<or> called_back w evs = None \<and> (\<exists>d'. tp_state p' = WritePendingState d' w)"
proof -
  show "called_back w evs = None \<and> \<not> parked p'" if "\<not> parked p"
    using that R parked_idle [of p cb] called_back_idle [of w p cb]
    by (auto simp: pipe_Read_def parked_def split: PipeState.splits)
  assume st: "tp_state p = WritePendingState d w"
  from ok st h show "called_back w evs = Some False \<and> \<not> parked p' \<or>
      called_back w evs = None \<and> (\<exists>d'. tp_state p' = WritePendingState d' w)"
  proof (cases rule: pipe_Read_pending)
    case (flushed p1)
    with R parked_idle [of p1 cb] called_back_idle [of w p1 cb] show ?thesis by auto
  next
    case (parked p1 offered d' r3 p3 evs3 k)
    from parked(5) have "buf_ok (tp_buffer p1)" by (simp add: pipe_ok_def)
    note f = Flush_refine [OF this parked(8)]
    from f(6,7) R parked(9) show ?thesis by (cases r3) (auto simp: PipeObjects.parked_def)
  qed
qed

lemma begin_simps [simp]:
  assumes "buf_ok (wr_buffer s)"
  shows "contents (wr_buffer (writer_begin s)) = contents (wr_buffer s)" "buf_ok (wr_buffer (writer_begin s))"
    "limit (wr_buffer (writer_begin s)) = limit (wr_buffer s)" "wr_size (writer_begin s) = length (contents (wr_buffer s))"
    "wr_is_writing (writer_begin s)" "wr_id (writer_begin s) = wr_id s" "wr_is_done (writer_begin s) = wr_is_done s"
    "wr_replies (writer_begin s) = wr_replies s" "wr_handed (writer_begin s) = wr_handed s @ [contents (wr_buffer s)]"
  using assms by (simp_all add: writer_begin_def Let_def)

text \<open>\<open>Write\<close> hands over what the buffer has, and leaves the request waiting for the pipe or with nothing to do.\<close>

lemma writer_Write_ok:
  assumes ok: "writer_ok w p s" and st: "\<not> parked p" "\<not> wr_is_writing s" "wr_replies s = []"
    and got: "concat (wr_handed s) @ contents (wr_buffer s) = got"
  shows "\<exists>p' s' evs. writer_Write p s = Inr (p', s', evs) \<and> writer_inv w p' s' got (wr_is_done s)"
proof (cases "contents (wr_buffer s) = []")
  case True
  with assms show ?thesis by (subst writer_Write.simps) (auto simp: writer_ok_def writer_inv_def respond_def)
next
  case False
  from ok have b: "buf_ok (wr_buffer s)" "pipe_ok p" "\<not> tp_hit_eof p" "wr_id s = w" "limit (wr_buffer s) = None"
    by (simp_all add: writer_ok_def)
  let ?s1 = "writer_begin s"
  obtain p1 evs where W: "pipe_Write p (contents (wr_buffer s)) w = Inr (p1, evs)" "pipe_ok p1" "\<not> tp_hit_eof p1"
    and cb: "called_back w evs = Some False \<and> \<not> parked p1 \<or> called_back w evs = None \<and> (\<exists>d'. tp_state p1 = WritePendingState d' w)"
    using pipe_Write_open [OF b(2) st(1) b(3) False] by blast
  let ?s2 = "?s1\<lparr>wr_buffer := MarkRead (wr_buffer ?s1) (wr_size ?s1), wr_is_writing := False\<rparr>"
  have e: "ReadAvailable (wr_buffer ?s2) = 0" "contents (wr_buffer ?s2) = []" using b by simp_all
  from cb consider (waits) d' where "called_back w evs = None" "tp_state p1 = WritePendingState d' w"
    | (written) "called_back w evs = Some False" "\<not> parked p1" by blast
  then show ?thesis
  proof cases
    case waits
    with False W b got st show ?thesis
      by (subst writer_Write.simps) (auto simp: writer_inv_def writer_ok_def)
  next
    case c: written
    show ?thesis
    proof (cases "wr_is_done s")
      case True
      then have "writer_callback False ?s1 = Inr (?s2\<lparr>wr_replies := [ReplyOk []]\<rparr>, False)"
        using e b st by (simp add: writer_callback_def respond_def Let_def)
      with False W b c True got e show ?thesis
        by (subst writer_Write.simps) (auto simp: writer_inv_def writer_ok_def Let_def)
    next
      case nd: False
      then have "writer_callback False ?s1 = Inr (?s2, True)" using e b by (simp add: writer_callback_def Let_def)
      moreover have "writer_Write p1 ?s2 = Inr (p1, ?s2, [])" using e(1) nd b by (subst writer_Write.simps) simp
      ultimately show ?thesis using False W b c nd got e st
        by (subst writer_Write.simps) (auto simp: writer_inv_def writer_ok_def Let_def)
    qed
  qed
qed

lemma writer_receive_ok:
  assumes inv: "writer_inv w p s got False" and i: "buf_ok input"
  shows "\<exists>input' p' s' evs. writer_receive input p s = Some (input', Inr (p', s', evs)) \<and>
    writer_inv w p' s' (got @ taken input input') False \<and> contents input = taken input input' @ contents input' \<and>
    length (taken input input') =
      (if wr_is_writing s then min (length (contents input)) (WriteAvailableHint (wr_buffer s)) else length (contents input))"
proof -
  let ?n = "if wr_is_writing s then min (length (contents input)) (WriteAvailableHint (wr_buffer s)) else length (contents input)"
  from inv have ok: "writer_ok w p s" by (simp add: writer_inv_def)
  then have b: "buf_ok (wr_buffer s)" "limit (wr_buffer s) = None" by (simp_all add: writer_ok_def)
  have n: "?n \<le> length (contents input)" "min (ReadAvailable input) ?n = ?n" using i by auto
  obtain input' b' where R: "Read_Buffer input (wr_buffer s) ?n = Some (True, input', b')"
    "contents input' = drop ?n (contents input)" "contents b' = contents (wr_buffer s) @ take ?n (contents input)"
    "buf_ok b'" "limit b' = None"
    using Read_Buffer_unlimited [OF i b n(1)] by blast
  have t: "taken input input' = take ?n (contents input)" using R(2) n by (simp add: taken_def)
  let ?s = "s\<lparr>wr_buffer := b'\<rparr>"
  have rec: "writer_receive input p s = Some (input', if wr_is_writing s then Inr (p, ?s, []) else writer_Write p ?s)"
    using R(1) n(2) i by (cases "wr_is_writing s") (simp_all add: writer_receive_def Let_def)
  have r: "contents input = taken input input' @ contents input'" "length (taken input input') = ?n" using t R(2) n by simp_all
  show ?thesis
  proof (cases "wr_is_writing s")
    case True
    with inv R t have "writer_inv w p ?s (got @ taken input input') False" by (auto simp: writer_inv_def writer_ok_def)
    with rec True r show ?thesis by auto
  next
    case False
    with inv R t ok have "\<exists>p' s' evs. writer_Write p ?s = Inr (p', s', evs) \<and> writer_inv w p' s' (got @ taken input input') (wr_is_done ?s)"
      by (intro writer_Write_ok) (auto simp: writer_inv_def writer_ok_def)
    with rec False r inv show ?thesis by (auto simp: writer_inv_def)
  qed
qed

lemma writer_finish_ok:
  assumes inv: "writer_inv w p s got False"
  shows "\<exists>p' s' evs. writer_finish p s = Inr (p', s', evs) \<and> writer_inv w p' s' got True"
proof (cases "wr_is_writing s")
  case True
  with inv show ?thesis by (auto simp: writer_finish_def Let_def writer_inv_def writer_ok_def)
next
  case False
  let ?s = "s\<lparr>wr_is_done := True\<rparr>"
  from False inv have "\<exists>p' s' evs. writer_Write p ?s = Inr (p', s', evs) \<and> writer_inv w p' s' got (wr_is_done ?s)"
    by (intro writer_Write_ok) (auto simp: writer_inv_def writer_ok_def)
  with False show ?thesis by (auto simp: writer_finish_def Let_def)
qed

lemma writer_read_ok:
  assumes inv: "writer_inv w p s got fin" and h: "honest cb" and R: "pipe_Read p cb = Inr (p1, evs)"
  shows "\<exists>p' s' evs'. writer_after (pipe_Read p cb) s = Inr (p', s', evs') \<and> writer_inv w p' s' got fin"
proof -
  from inv have ok: "pipe_ok p" "\<not> tp_hit_eof p" "wr_id s = w" "buf_ok (wr_buffer s)" "limit (wr_buffer s) = None"
    by (simp_all add: writer_inv_def writer_ok_def)
  note o = pipe_Read_open [OF ok(1) h R, where w = w]
  have ok1: "pipe_ok p1" "\<not> tp_hit_eof p1" using pipe_Read_ok [OF ok(1) h R] ok(2) by simp_all
  show ?thesis
  proof (cases "called_back w evs")
    case None
    have "writer_inv w p1 s got fin"
      using inv o None ok1 by (auto simp: writer_inv_def writer_ok_def)
    with None R ok show ?thesis by (simp add: writer_after_def)
  next
    case (Some eof)
    from inv o(1) Some have wr: "wr_is_writing s" by (auto simp: writer_inv_def split: if_splits)
    with inv obtain d where "tp_state p = WritePendingState d w" by (auto simp: writer_inv_def)
    with o(2) Some have e: "eof = False" "\<not> parked p1" by auto
    let ?s = "s\<lparr>wr_buffer := MarkRead (wr_buffer s) (wr_size s), wr_is_writing := False\<rparr>"
    from wr inv ok have b: "contents (wr_buffer ?s) = drop (wr_size s) (contents (wr_buffer s))" "buf_ok (wr_buffer ?s)"
      "limit (wr_buffer ?s) = None" by (auto simp: writer_inv_def)
    show ?thesis
    proof (cases "wr_is_done s \<and> contents (wr_buffer ?s) = []")
      case True
      with b wr inv have "writer_callback False s = Inr (?s\<lparr>wr_replies := [ReplyOk []]\<rparr>, False)"
        by (simp add: writer_callback_def respond_def Let_def writer_inv_def)
      with True Some e R ok b wr inv ok1 show ?thesis by (auto simp: writer_after_def writer_inv_def writer_ok_def)
    next
      case False
      with b have cb: "writer_callback False s = Inr (?s, True)" by (auto simp: writer_callback_def Let_def)
      from inv wr ok ok1 b e have "\<exists>p' s' evs. writer_Write p1 ?s = Inr (p', s', evs) \<and> writer_inv w p' s' got (wr_is_done ?s)"
        by (intro writer_Write_ok) (auto simp: writer_inv_def writer_ok_def)
      then obtain p' s' evs' where W: "writer_Write p1 ?s = Inr (p', s', evs')" "writer_inv w p' s' got (wr_is_done ?s)" by blast
      have "wr_is_done ?s = fin" using inv by (simp add: writer_inv_def)
      with W cb Some e R ok show ?thesis by (simp add: writer_after_def)
    qed
  qed
qed

lemma writer_reach_inv: "writer_reach w p s got fin \<Longrightarrow> writer_inv w p s got fin"
proof (induction rule: writer_reach.induct)
  case (open_request p)
  then show ?case by (simp add: writer_inv_def writer_ok_def WriterState_new_def IsWriterClosed_def)
next
  case (receive p s got input input' p' s' evs)
  from writer_receive_ok [OF receive.IH receive.hyps(2)] receive.hyps(3) show ?case by auto
next
  case (finish p s got p' s' evs)
  from writer_finish_ok [OF finish.IH] finish.hyps(2) show ?case by auto
next
  case (read p s got fin cb p' s' evs)
  obtain p1 evs1 where R: "pipe_Read p cb = Inr (p1, evs1)"
    using read.hyps(3) by (cases "pipe_Read p cb") (auto simp: writer_after_def)
  from writer_read_ok [OF read.IH read.hyps(2) R] read.hyps(3) show ?case by auto
qed

text \<open>C20: a write to an open pipe is answered once. At every point of the request what its stream has taken is what was
  handed to the pipe and what waits in the buffer behind it, in order; the request is answered with success when the
  stream has finished and the pipe has taken everything, and not before; and no piece of the stream makes it abort.
  While a write is in flight a piece is only taken as far as the buffer's vector has room.\<close>

theorem pipe_write_answered:
  assumes "writer_reach w p s got fin"
  shows "concat (wr_handed s) @ (if wr_is_writing s then drop (wr_size s) (contents (wr_buffer s)) else []) = got \<and>
    wr_replies s = (if fin \<and> \<not> wr_is_writing s then [ReplyOk []] else []) \<and>
    (wr_is_writing s \<longleftrightarrow> parked p) \<and>
    (\<not> fin \<longrightarrow> (\<exists>p' s' evs. writer_finish p s = Inr (p', s', evs)) \<and>
      (\<forall>input. buf_ok input \<longrightarrow> (\<exists>input' p' s' evs. writer_receive input p s = Some (input', Inr (p', s', evs)) \<and>
        length (taken input input') =
          (if wr_is_writing s then min (length (contents input)) (WriteAvailableHint (wr_buffer s)) else length (contents input)))))"
proof -
  note inv = writer_reach_inv [OF assms]
  have "concat (wr_handed s) @ (if wr_is_writing s then drop (wr_size s) (contents (wr_buffer s)) else []) = got"
    "wr_replies s = (if fin \<and> \<not> wr_is_writing s then [ReplyOk []] else [])" "wr_is_writing s \<longleftrightarrow> parked p"
    using inv by (auto simp: writer_inv_def parked_def split: if_splits)
  moreover have "\<exists>p' s' evs. writer_finish p s = Inr (p', s', evs)" if "\<not> fin"
    using writer_finish_ok [of w p s got] inv that by auto
  moreover have "\<exists>input' p' s' evs. writer_receive input p s = Some (input', Inr (p', s', evs)) \<and>
      length (taken input input') =
        (if wr_is_writing s then min (length (contents input)) (WriteAvailableHint (wr_buffer s)) else length (contents input))"
    if "\<not> fin" "buf_ok input" for input
    using writer_receive_ok [of w p s got input] inv that by auto
  ultimately show ?thesis by blast
qed

section \<open>A pipe that is closed during a request\<close>

lemma step_not_called:
  assumes "\<not> parked p" and "pipe_step p op = Inr (p', evs)" and "\<And>d v. op \<noteq> PWrite d v"
  shows "\<not> parked p' \<and> called_back w evs = None"
proof (cases op)
  case (PRead cb)
  with assms parked_idle [of p cb] called_back_idle [of w p cb] show ?thesis
    by (auto simp: pipe_Read_def parked_def split: PipeState.splits)
qed (use assms in \<open>auto simp: CloseReader_def CloseWriter_def parked_def Let_def split: PipeState.splits\<close>)

lemma run_not_called:
  "\<not> parked p \<Longrightarrow> pipe_run p ops = Inr (p', evs) \<Longrightarrow> list_all (\<lambda>op. \<forall>d v. op \<noteq> PWrite d v) ops \<Longrightarrow> called_back w evs = None"
proof (induction ops arbitrary: p evs)
  case (Cons op ops)
  from Cons.prems obtain p1 evs1 evs2 where s: "pipe_step p op = Inr (p1, evs1)" "pipe_run p1 ops = Inr (p', evs2)" "evs = evs1 @ evs2"
    by (auto split: sum.splits)
  from step_not_called [OF Cons.prems(1) s(1), of w] Cons.prems(3) have "\<not> parked p1 \<and> called_back w evs1 = None" by simp
  with Cons.IH [of p1 evs2] s Cons.prems(3) show ?case by (simp add: called_back_append)
qed simp

lemma CloseReader_parked:
  "tp_state p = WritePendingState d w \<Longrightarrow>
    CloseReader p = (p\<lparr>tp_hit_eof := True, tp_state := IdleState\<rparr>, [EvWrite w True])"
  by (simp add: CloseReader_def)


text \<open>A request whose first piece waits for a reader that takes nothing.\<close>

definition demo_pipe :: TwibPipe where
  "demo_pipe = (TwibPipe_new 0)\<lparr>tp_state := ReadPendingState (ReadCb 0 (\<lambda>_. 0))\<rparr>"

lemma demo_request:
  "\<exists>p s. writer_reach 1 p s [1, 2, 3] False \<and> wr_is_writing s \<and> wr_size s = length (contents (wr_buffer s))"
proof -
  let ?i = "Buffer_of_vector [1, 2, 3]" and ?s = "WriterState_new 1 demo_pipe"
  have p: "pipe_ok demo_pipe" "\<not> parked demo_pipe" "\<not> tp_hit_eof demo_pipe"
    by (simp_all add: demo_pipe_def parked_def pipe_ok_def honest_def TwibPipe_new_def)
  have s: "wr_buffer ?s = Buffer_new" "\<not> wr_is_writing ?s" "wr_id ?s = 1" by (simp_all add: WriterState_new_def)
  obtain i' b' where R: "Read_Buffer ?i Buffer_new 3 = Some (True, i', b')" "contents i' = []" "buf_ok b'" "contents b' = [1, 2, 3]"
    by (rule Read_Buffer_unlimited [of ?i Buffer_new 3]) simp_all
  let ?s1 = "?s\<lparr>wr_buffer := b'\<rparr>"
  let ?p1 = "demo_pipe\<lparr>tp_state := WritePendingState [1, 2, 3] 1\<rparr>"
  have "pipe_Write demo_pipe [1, 2, 3] 1 = Inr (?p1, [EvRead 0 [1, 2, 3] 0])"
    by (simp add: pipe_Write_def demo_pipe_def TwibPipe_new_def)
  then have "writer_Write demo_pipe ?s1 = Inr (?p1, writer_begin ?s1, [EvRead 0 [1, 2, 3] 0])"
    using R s by (subst writer_Write.simps) simp
  then have "writer_receive ?i demo_pipe ?s = Some (i', Inr (?p1, writer_begin ?s1, [EvRead 0 [1, 2, 3] 0]))"
    using R s by (simp add: writer_receive_def Let_def numeral_3_eq_3)
  from receive [OF open_request [OF p] _ this] R have "writer_reach 1 ?p1 (writer_begin ?s1) [1, 2, 3] False" by (simp add: taken_def)
  moreover have "wr_is_writing (writer_begin ?s1)" "wr_size (writer_begin ?s1) = length (contents (wr_buffer (writer_begin ?s1)))"
    using R by simp_all
  ultimately show ?thesis by blast
qed

theorem pipe_write_answered_witness:
  "\<exists>p s. writer_reach 1 p s [1, 2, 3] False \<and> parked p \<and> wr_replies s = [] \<and> concat (wr_handed s) = [1, 2, 3]"
proof -
  obtain p s where r: "writer_reach 1 p s [1, 2, 3] False" "wr_is_writing s" "wr_size s = length (contents (wr_buffer s))"
    using demo_request by blast
  from pipe_write_answered [OF r(1)] r show ?thesis by (intro exI [of _ p] exI [of _ s]) simp
qed


end
