(* ===== verification/DeviceService.thy ===== *)
theory DeviceService
  imports PipeObjects StdMap "HOL-Library.List_Lexorder"
begin

text \<open>
  The device's root object (src/twili/bridge/interfaces/ITwibDeviceInterface.cpp) and the side of the pipes that
  processes use (src/twili/service/IPipe.cpp and ITwiliService.cpp). The kernel's and the services' answers are
  arguments; \<open>Inl\<close> is the code that \<open>twili::Assert\<close> aborts with.
\<close>

section \<open>Processes\<close>

definition TWILI_ERR_WONT_DEBUG_SELF :: u32 where "TWILI_ERR_WONT_DEBUG_SELF = TWILI_RESULT 11"
definition TWILI_ERR_INVALID_PIPE :: u32 where "TWILI_ERR_INVALID_PIPE = TWILI_RESULT 12"
definition TWILI_ERR_PIPE_ALREADY_EXISTS :: u32 where "TWILI_ERR_PIPE_ALREADY_EXISTS = TWILI_RESULT 15"
definition TWILI_ERR_NO_SUCH_PIPE :: u32 where "TWILI_ERR_NO_SUCH_PIPE = TWILI_RESULT 16"
definition TWILI_ERR_UNRECOGNIZED_MONITORED_PROCESS_TYPE :: u32 where
  "TWILI_ERR_UNRECOGNIZED_MONITORED_PROCESS_TYPE = TWILI_RESULT 30"
definition TWILI_ERR_UNKNOWN_FILESYSTEM :: u32 where "TWILI_ERR_UNKNOWN_FILESYSTEM = TWILI_RESULT 35"
definition TWILI_ERR_TODO :: u32 where "TWILI_ERR_TODO = TWILI_RESULT 42"

record ProcessReport =
  rp_process_id :: u64
  rp_result :: u32
  rp_title_id :: u64
  rp_process_name :: "byte list"
  rp_mmu_flags :: u32

text \<open>The struct as it lies in memory; \<open>pad\<close> is the word behind \<open>result\<close>, which nothing sets.\<close>

definition report_bytes :: "byte list \<Rightarrow> ProcessReport \<Rightarrow> byte list" where
  "report_bytes pad r =
    bytes64 (rp_process_id r) @ bytes32 (rp_result r) @ pad @ bytes64 (rp_title_id r) @ rp_process_name r @ bytes32 (rp_mmu_flags r)"

text \<open>The events of a process that is being debugged: of an attachment the title id, the name and the flags.\<close>

type_synonym AttachEvent = "(u64 \<times> byte list \<times> u32) option"

fun attach_events :: "AttachEvent list \<Rightarrow> ProcessReport \<Rightarrow> ProcessReport" where
  "attach_events [] r = r"
| "attach_events (None # es) r = attach_events es r"
| "attach_events (Some (title, name, flags) # es) r =
    attach_events es (r\<lparr>rp_title_id := title, rp_process_name := name, rp_mmu_flags := flags\<rparr>)"

text \<open>\<open>debug pid\<close> is the error of \<open>DebugActiveProcess\<close>, or the events and the code after the last of them.\<close>

definition process_report :: "u64 \<Rightarrow> (u64 \<Rightarrow> u32 + AttachEvent list \<times> u32) \<Rightarrow> u64 \<Rightarrow> ProcessReport" where
  "process_report my_pid debug pid =
    (let r = \<lparr>rp_process_id = pid, rp_result = RESULT_OK, rp_title_id = 0, rp_process_name = replicate 12 0, rp_mmu_flags = 0\<rparr> in
     if pid = my_pid then r\<lparr>rp_result := TWILI_ERR_WONT_DEBUG_SELF\<rparr>
     else (case debug pid of
             Inl e \<Rightarrow> r\<lparr>rp_result := e\<rparr>
           | Inr (es, code) \<Rightarrow>
               (let r1 = attach_events es r in if code \<noteq> 0x8c01 then r1\<lparr>rp_result := code\<rparr> else r1)))"

fun write_reports :: "('t, 'o) ResponseOps \<Rightarrow> byte list list \<Rightarrow> 't response \<Rightarrow> u32 + 't response" where
  "write_reports ops [] s = Inr s"
| "write_reports ops (r # rs) s = sum_bind (SendData ops r s) (write_reports ops rs)"

definition ListProcesses_handler ::
    "('t, 'o) ResponseOps \<Rightarrow> MessageHeader \<Rightarrow> u32 + u64 list \<Rightarrow> u32 + u64 \<Rightarrow> (u64 \<Rightarrow> u32 + AttachEvent list \<times> u32) \<Rightarrow> byte list \<Rightarrow>
     't response \<Rightarrow> u32 + 't response" where
  "ListProcesses_handler ops hdr0 process_list get_pid debug pad s =
    sum_bind process_list (\<lambda>pids. sum_bind get_pid (\<lambda>my_pid.
      sum_bind (BeginOk ops hdr0 (dev_sizeof_ProcessReport * length pids + 8) 0 s) (\<lambda>s1.
      sum_bind (SendData ops (bytes64 (of_nat (length pids))) s1) (\<lambda>s2.
      sum_bind (write_reports ops (map (report_bytes pad \<circ> process_report my_pid debug) pids) s2) (Finalize ops)))))"

datatype TrackerKind = AppletTracked | ShellTracked

definition CreateMonitoredProcess_handler :: "byte list \<Rightarrow> u32 + TrackerKind" where
  "CreateMonitoredProcess_handler type_name =
    (if type_name = str ''applet'' then Inr AppletTracked
     else if type_name = str ''shell'' then Inr ShellTracked
     else Inl TWILI_ERR_UNRECOGNIZED_MONITORED_PROCESS_TYPE)"

text \<open>\<open>FindMonitoredProcess\<close> over the list of monitored processes, each with its pid.\<close>

definition FindMonitoredProcess :: "u64 \<Rightarrow> (u64 \<times> 'p) list \<Rightarrow> 'p option" where
  "FindMonitoredProcess pid procs = map_option snd (find (\<lambda>(p, _). p = pid) procs)"

definition FindProcess :: "u64 \<Rightarrow> (u64 \<times> 'p) list \<Rightarrow> 'p + u64" where
  "FindProcess pid procs = (case FindMonitoredProcess pid procs of Some p \<Rightarrow> Inl p | None \<Rightarrow> Inr pid)"

text \<open>The kernel attaches, or has an error; the monitored process has its entry point.\<close>

definition OpenActiveDebugger_handler ::
    "(u64 \<Rightarrow> u32 + DbgEvent list \<times> u32) \<Rightarrow> (u64 \<times> u64) list \<Rightarrow> u64 \<Rightarrow> u64 set \<Rightarrow> u32 + (u32 + Debugger) \<times> u64 set" where
  "OpenActiveDebugger_handler svc procs pid titles =
    (case svc pid of
       Inl e \<Rightarrow> Inr (Inl e, titles)
     | Inr (es, code) \<Rightarrow>
         sum_bind (Debugger_open es code (FindMonitoredProcess pid procs) titles) (\<lambda>(d, titles1). Inr (Inr d, titles1)))"

definition LaunchUnmonitoredProcess_handler :: "(u32 \<Rightarrow> u64 \<Rightarrow> u64 \<Rightarrow> u32 + u64) \<Rightarrow> u32 \<Rightarrow> u64 \<Rightarrow> u64 \<Rightarrow> Reply" where
  "LaunchUnmonitoredProcess_handler svc flags tid storage =
    (case svc flags tid storage of Inl e \<Rightarrow> ReplyError e | Inr pid \<Rightarrow> ReplyOk [PPod (bytes64 pid)])"

text \<open>The partition that a file system accessor opens.\<close>

datatype Mount = MountSdCard | OpenBis nat

definition filesystem_mount :: "byte list \<Rightarrow> u32 + Mount" where
  "filesystem_mount fs =
    (if fs = str ''sd'' then Inr MountSdCard
     else if fs = str ''nand_user'' then Inr (OpenBis 30)
     else if fs = str ''nand_system'' then Inr (OpenBis 31)
     else Inl TWILI_ERR_UNKNOWN_FILESYSTEM)"

definition OpenFilesystemAccessor_handler :: "(Mount \<Rightarrow> u32 + 'f) \<Rightarrow> byte list \<Rightarrow> u32 + 'f" where
  "OpenFilesystemAccessor_handler svc fs = sum_bind (filesystem_mount fs) svc"

text \<open>\<open>wh_debug_title\<close>: whether a request waits for a title to start.\<close>

definition WaitToDebugTitle_handler :: "(u64 \<Rightarrow> u32) \<Rightarrow> u64 \<Rightarrow> bool \<Rightarrow> Reply option \<times> bool" where
  "WaitToDebugTitle_handler hook tid waiting =
    (if waiting then (Some (ReplyError TWILI_ERR_ALREADY_WAITING), waiting)
     else if hook tid \<noteq> RESULT_OK then (Some (ReplyError (hook tid)), waiting)
     else (None, True))"

definition debug_title_started :: "(u64 \<Rightarrow> u32 + u64) \<Rightarrow> u64 \<Rightarrow> Reply \<times> bool" where
  "debug_title_started get_pid tid =
    (case get_pid tid of Inl e \<Rightarrow> ReplyError e | Inr pid \<Rightarrow> ReplyOk [PPod (bytes64 pid)], False)"

definition WaitToDebugApplication_handler :: Reply where
  "WaitToDebugApplication_handler = ReplyError TWILI_ERR_TODO"

section \<open>Named pipes\<close>

type_synonym NamedPipes = "(byte list \<times> TwibPipe) list"

text \<open>The name ends at the first zero of the buffer, if it has one.\<close>

definition CreateNamedOutputPipe :: "nat \<Rightarrow> byte list \<Rightarrow> NamedPipes \<Rightarrow> u32 \<times> NamedPipes" where
  "CreateNamedOutputPipe pipe_buffer_size_limit name_buffer pipes =
    (let name = takeWhile (\<lambda>b. b \<noteq> 0) name_buffer in
     case map_of pipes name of
       None \<Rightarrow> (RESULT_OK, map_emplace name (TwibPipe_new pipe_buffer_size_limit) pipes)
     | Some _ \<Rightarrow> (TWILI_ERR_PIPE_ALREADY_EXISTS, pipes))"

definition ListNamedPipes_handler :: "NamedPipes \<Rightarrow> Reply" where
  "ListNamedPipes_handler pipes = ReplyOk [PVector (map (PString \<circ> fst) pipes)]"

definition OpenNamedPipe_handler :: "byte list \<Rightarrow> NamedPipes \<Rightarrow> u32 + TwibPipe" where
  "OpenNamedPipe_handler name pipes = (case map_of pipes name of None \<Rightarrow> Inl TWILI_ERR_NO_SUCH_PIPE | Some p \<Rightarrow> Inr p)"

section \<open>The process's side of a pipe\<close>

datatype OpenedPipe = StandardPipe int | ProcessPipe TwibPipe

definition OpenPipe :: "(u64 \<times> TwibPipe \<times> TwibPipe \<times> TwibPipe) list \<Rightarrow> u64 \<Rightarrow> int \<Rightarrow> u32 + OpenedPipe" where
  "OpenPipe procs pid fd =
    (case FindMonitoredProcess pid procs of
       None \<Rightarrow> Inr (StandardPipe fd)
     | Some (tp_stdin, tp_stdout, tp_stderr) \<Rightarrow>
         if fd = 0 then Inr (ProcessPipe tp_stdin)
         else if fd = 1 then Inr (ProcessPipe tp_stdout)
         else if fd = 2 then Inr (ProcessPipe tp_stderr)
         else Inl TWILI_ERR_INVALID_PIPE)"

text \<open>\<open>IPipeTwib::Read\<close> with a buffer of \<open>room\<close> bytes: what its callback takes, and the calls it makes of the
  request's callback, each with its result and the bytes in the buffer.\<close>

definition ipc_Read_cb :: "nat \<Rightarrow> nat \<Rightarrow> ReadCb" where
  "ipc_Read_cb r room = ReadCb r (\<lambda>data_size. if data_size > room then room else data_size)"

definition ipc_Read_calls :: "nat \<Rightarrow> byte list \<Rightarrow> (u32 \<times> byte list) list" where
  "ipc_Read_calls room bs = (if length bs = 0 then [(TWILI_ERR_EOF, [])] else []) @ [(RESULT_OK, take room bs)]"

definition ipc_Write_call :: "bool \<Rightarrow> u32" where
  "ipc_Write_call is_closed = (if is_closed then TWILI_ERR_EOF else RESULT_OK)"

text \<open>\<open>IPipeStandard::Write\<close>; \<open>write written n\<close> is what \<open>write\<close> returns for the \<open>n\<close> bytes from \<open>written\<close> on.\<close>

function standard_Write :: "(nat \<Rightarrow> nat \<Rightarrow> int) \<Rightarrow> nat \<Rightarrow> nat \<Rightarrow> u32" where
  "standard_Write write size_arg written =
    (if written < size_arg then
       (let ret = write written (size_arg - written) in
        if ret \<le> 0 then 1 else standard_Write write size_arg (written + nat ret))
     else RESULT_OK)"
  by pat_completeness auto
termination
  by (relation "measure (\<lambda>(write, size_arg, written). size_arg - written)") auto

declare standard_Write.simps [simp del]

section \<open>Properties\<close>

lemma attach_events_name:
  "length (rp_process_name r) = 12 \<Longrightarrow> list_all (\<lambda>e. case e of None \<Rightarrow> True | Some (_, name, _) \<Rightarrow> length name = 12) es \<Longrightarrow>
    length (rp_process_name (attach_events es r)) = 12 \<and> rp_process_id (attach_events es r) = rp_process_id r"
  by (induction es r rule: attach_events.induct) auto

lemma process_report_shape:
  assumes "\<And>es code. debug pid = Inr (es, code) \<Longrightarrow> list_all (\<lambda>e. case e of None \<Rightarrow> True | Some (_, name, _) \<Rightarrow> length name = 12) es"
  shows "length (rp_process_name (process_report my_pid debug pid)) = 12" "rp_process_id (process_report my_pid debug pid) = pid"
  using assms attach_events_name by (auto simp: process_report_def Let_def split: sum.splits)

lemma length_report_bytes:
  "length pad = 4 \<Longrightarrow> length (rp_process_name r) = 12 \<Longrightarrow> length (report_bytes pad r) = dev_sizeof_ProcessReport"
  by (simp add: report_bytes_def dev_sizeof_ProcessReport_def)

lemma write_reports_eq: "write_reports ops rs = Pack_all ops (map PPod rs)"
proof (induction rs)
  case (Cons r rs)
  show ?case by (rule ext) (simp add: Cons)
qed (simp add: fun_eq_iff)

lemma vals_bytes_pods: "vals_bytes i (map PPod rs) = concat rs" "vals_objects (map PPod rs) = []"
  by (induction rs arbitrary: i) simp_all

lemma pods_size:
  "list_all (\<lambda>r. length r = n) rs \<Longrightarrow> sum_list (map GetSize (map PPod rs)) = n * length rs"
  "sum_list (map GetObjectCount (map PPod rs)) = 0"
  by (induction rs) simp_all

text \<open>C28: the list of processes is written by hand in the format of a vector. Over TCP, \<open>ListProcesses\<close> sends exactly the
  bytes of a successful response with one vector of reports, one for each process in the kernel's order, so the size
  that it announces is the size it writes and the tool reads it as the vector it expects.\<close>

theorem list_processes_packed:
  fixes t :: "'o TcpLink"
  assumes pad: "length pad = 4" and t: "tcp_up t"
    and names: "\<And>pid es code. debug pid = Inr (es, code) \<Longrightarrow>
      list_all (\<lambda>e. case e of None \<Rightarrow> True | Some (_, name, _) \<Rightarrow> length name = 12) es"
  shows "\<exists>rs' t'. ListProcesses_handler tcp_ops hdr0 (Inr pids) (Inr my_pid) debug pad (ResponseState_new c tag, t) = Inr (rs', t') \<and>
    tl_wire t' = tl_wire t @
      response_wire hdr0 c tag [PPodVec dev_sizeof_ProcessReport (map (report_bytes pad \<circ> process_report my_pid debug) pids)] \<and>
    map (rp_process_id \<circ> process_report my_pid debug) pids = pids"
proof -
  let ?rs = "map (report_bytes pad \<circ> process_report my_pid debug) pids"
  have l: "list_all (\<lambda>r. length r = dev_sizeof_ProcessReport) ?rs"
    using length_report_bytes [OF pad process_report_shape(1) [OF names]] by (simp add: list_all_iff)
  have eq: "ListProcesses_handler tcp_ops hdr0 (Inr pids) (Inr my_pid) debug pad s = RespondOk tcp_ops hdr0 [PVector (map PPod ?rs)] s" for s
    using pods_size(1) [OF l] pods_size(2) [of ?rs] by (simp add: ListProcesses_handler_def RespondOk_def write_reports_eq sum_bind_assoc add.commute del: map_map)
  have w: "response_wire hdr0 c tag [PVector (map PPod ?rs)] = response_wire hdr0 c tag [PPodVec dev_sizeof_ProcessReport ?rs]"
    by (simp add: response_wire_def vals_bytes_pods del: map_map)
  have v: "list_all val_ok [PVector (map PPod ?rs)]" by (simp add: list_all_iff)
  have "vals_objects [PVector (map PPod ?rs)] = []" by (simp add: vals_bytes_pods del: map_map)
  then have "length (vals_objects [PVector (map PPod ?rs)]) * 4 \<le> 16384" by (simp only: list.size)
  from response_sent(1) [OF v this t, of hdr0 c tag] have
    "\<exists>rs' t'. RespondOk tcp_ops hdr0 [PVector (map PPod ?rs)] (ResponseState_new c tag, t) = Inr (rs', t') \<and>
      tl_wire t' = tl_wire t @ response_wire hdr0 c tag [PVector (map PPod ?rs)]" by blast
  moreover have "map (rp_process_id \<circ> process_report my_pid debug) pids = pids"
    using process_report_shape(2) [OF names] by (simp add: map_idI)
  ultimately show ?thesis unfolding eq w by blast
qed

theorem list_processes_packed_witness:
  "\<exists>rs' t'. ListProcesses_handler tcp_ops (mh_of_bytes []) (Inr [80, 81]) (Inr 81) (\<lambda>_. Inr ([None, Some (5, replicate 12 65, 7)], 0x8c01))
       [0, 0, 0, 0] (ResponseState_new 3 9, example_tcp) = Inr (rs', t') \<and> length (tl_wire t') = 32 + 8 + 2 * 40"
proof -
  let ?d = "\<lambda>_ :: u64. Inr ([None, Some (5, replicate 12 65, 7)], 0x8c01) :: u32 + AttachEvent list \<times> u32"
  from list_processes_packed [OF _ example_links_up(1), of "[0, 0, 0, 0]" ?d "mh_of_bytes []" "[80, 81]" 81 3 9]
  obtain rs' t' where r: "ListProcesses_handler tcp_ops (mh_of_bytes []) (Inr [80, 81]) (Inr 81) ?d [0, 0, 0, 0]
      (ResponseState_new 3 9, example_tcp) = Inr (rs', t')"
    "tl_wire t' = tl_wire example_tcp @
      response_wire (mh_of_bytes []) 3 9 [PPodVec dev_sizeof_ProcessReport (map (report_bytes [0, 0, 0, 0] \<circ> process_report 81 ?d) [80, 81])]"
    by auto
  have "length (tl_wire t') = 32 + 8 + 2 * 40"
    unfolding r(2) by (simp add: response_wire_def example_tcp_def report_bytes_def process_report_def)
  with r(1) show ?thesis by blast
qed

text \<open>A named pipe that a process creates is there for the host: a new name is listed, in order and once, and opening it
  gives the empty pipe; the other pipes are kept; a name that exists is refused and changes nothing.\<close>

theorem named_pipe_created:
  assumes ok: "map_ok pipes" and create: "CreateNamedOutputPipe lim name_buffer pipes = (code, pipes')"
    and name: "name = takeWhile (\<lambda>b. b \<noteq> 0) name_buffer"
  shows "map_ok pipes' \<and> name \<in> set (map fst pipes') \<and>
    ListNamedPipes_handler pipes' = ReplyOk [PVector (map PString (sorted_list_of_set (insert name (set (map fst pipes)))))] \<and>
    (if name \<in> set (map fst pipes) then code = TWILI_ERR_PIPE_ALREADY_EXISTS \<and> pipes' = pipes
     else code = RESULT_OK \<and> OpenNamedPipe_handler name pipes' = Inr (TwibPipe_new lim)) \<and>
    (\<forall>other. other \<noteq> name \<longrightarrow> OpenNamedPipe_handler other pipes' = OpenNamedPipe_handler other pipes)"
proof -
  have mem: "name \<in> set (map fst pipes) \<longleftrightarrow> map_of pipes name \<noteq> None" by (simp add: map_of_eq_None_iff)
  have c: "(code, pipes') = (if map_of pipes name = None then (RESULT_OK, map_emplace name (TwibPipe_new lim) pipes)
      else (TWILI_ERR_PIPE_ALREADY_EXISTS, pipes))"
    using create by (auto simp: CreateNamedOutputPipe_def Let_def name split: option.splits)
  have ok': "map_ok pipes'" and keys: "set (map fst pipes') = insert name (set (map fst pipes))"
    using c ok mem set_map_emplace [of name "TwibPipe_new lim" pipes] by (auto split: if_splits)
  have "map fst pipes' = sorted_list_of_set (insert name (set (map fst pipes)))"
    using ok' unfolding keys [symmetric] map_ok_def by (simp add: strict_sorted_iff sorted_list_of_set.idem_if_sorted_distinct del: set_map)
  then have "ListNamedPipes_handler pipes' = ReplyOk [PVector (map PString (sorted_list_of_set (insert name (set (map fst pipes)))))]"
    by (simp add: ListNamedPipes_handler_def flip: map_map)
  moreover have "if name \<in> set (map fst pipes) then code = TWILI_ERR_PIPE_ALREADY_EXISTS \<and> pipes' = pipes
     else code = RESULT_OK \<and> OpenNamedPipe_handler name pipes' = Inr (TwibPipe_new lim)"
    using c mem ok by (auto simp: OpenNamedPipe_handler_def split: if_splits)
  moreover have "OpenNamedPipe_handler other pipes' = OpenNamedPipe_handler other pipes" if "other \<noteq> name" for other
    using c ok that by (auto simp: OpenNamedPipe_handler_def split: if_splits)
  ultimately show ?thesis using ok' keys by blast
qed

theorem named_pipe_created_witness:
  "ListNamedPipes_handler (snd (CreateNamedOutputPipe 16 [97, 0, 98] [([98], TwibPipe_new 16)])) =
     ReplyOk [PVector [PString [97], PString [98]]]"
proof -
  have c: "CreateNamedOutputPipe 16 [97, 0, 98] [([98], TwibPipe_new 16)] =
      (RESULT_OK, [([97], TwibPipe_new 16), ([98], TwibPipe_new 16)])"
    by (simp add: CreateNamedOutputPipe_def)
  have "sorted_list_of_set {[97 :: byte], [98]} = [[97], [98]]" by simp
  with named_pipe_created [OF _ c, of "[97]"] show ?thesis unfolding c by (simp add: map_ok_def)
qed

text \<open>A read of a process takes from the pipe exactly the bytes that it copies to the process. At the end of the pipe
  the request's callback is called twice, first with the end and then with success.\<close>

theorem process_read:
  "honest (ipc_Read_cb r room) \<and>
   (bs \<noteq> [] \<longrightarrow> ipc_Read_calls room bs = [(RESULT_OK, take room bs)] \<and> consumes (ipc_Read_cb r room) (length bs) = length (take room bs)) \<and>
   ipc_Read_calls room [] = [(TWILI_ERR_EOF, []), (RESULT_OK, [])] \<and>
   (tp_state p = IdleState \<longrightarrow> contents (tp_buffer p) = [] \<longrightarrow> buf_ok (tp_buffer p) \<longrightarrow> tp_hit_eof p \<longrightarrow>
     pipe_Read p (ipc_Read_cb r room) = Inr (p, [EvEof r]))"
  by (auto simp: ipc_Read_cb_def ipc_Read_calls_def honest_def pipe_Read_def Read_idle_def)

theorem process_read_witness:
  "pipe_Read ((TwibPipe_new 16)\<lparr>tp_hit_eof := True\<rparr>) (ipc_Read_cb 4 32) = Inr ((TwibPipe_new 16)\<lparr>tp_hit_eof := True\<rparr>, [EvEof 4]) \<and>
   ipc_Read_calls 2 [1, 2, 3] = [(RESULT_OK, [1, 2])] \<and> consumes (ipc_Read_cb 4 2) 3 = 2"
  using process_read [of 4 32 "[1]" "(TwibPipe_new 16)\<lparr>tp_hit_eof := True\<rparr>"] process_read [of 4 2 "[1, 2, 3]" "TwibPipe_new 16"]
  by (simp add: TwibPipe_new_def numeral_2_eq_2 numeral_3_eq_3)

end
