(* ===== verification/MessageConnection.thy ===== *)
theory MessageConnection
  imports Protocol
begin

text \<open>
  The message stream between the tool and the daemon and between the daemon and a device on the network
  (src/twib/common/MessageConnection.cpp, SocketMessageConnection.cpp): a message is a header, its payload
  and the ids of its objects. The theory models both directions over a socket and shows that whatever the
  socket splits a stream into, the receiver gets the messages that were sent.

  \<open>RequestInput\<close> of a socket connection returns false, so the loop of \<open>Process\<close> runs once. \<open>None\<close> is the
  copy past the end of a buffer that \<open>Read_Buffer\<close> makes when the target is limited.
\<close>

section \<open>State and operations\<close>

record Message =
  ms_mh :: MessageHeader
  ms_payload :: "byte list"
  ms_object_ids :: "byte list"

record MessageConnection =
  mc_in_buffer :: Buffer
  mc_out_buffer :: Buffer
  mc_mh :: MessageHeader
  mc_payload :: Buffer
  mc_object_ids :: Buffer
  mc_has_current_mh :: bool
  mc_has_current_payload :: bool
  mc_error_flag :: bool

definition MessageConnection_new :: "MessageHeader \<Rightarrow> MessageConnection" where
  "MessageConnection_new mh0 =
    \<lparr>mc_in_buffer = Buffer_new, mc_out_buffer = Buffer_new, mc_mh = mh0, mc_payload = Buffer_new,
     mc_object_ids = Buffer_new, mc_has_current_mh = False, mc_has_current_payload = False, mc_error_flag = False\<rparr>"

text \<open>What the pointer that \<open>Process\<close> returns points to.\<close>

definition current_rq :: "MessageConnection \<Rightarrow> Message" where
  "current_rq c = \<lparr>ms_mh = mc_mh c, ms_payload = GetData (mc_payload c), ms_object_ids = GetData (mc_object_ids c)\<rparr>"

definition process_object_ids :: "MessageConnection \<Rightarrow> (bool \<times> MessageConnection) option" where
  "process_object_ids c =
    (let n = unat (mh_object_count (mc_mh c)) * 4 in
     case Read_Buffer (mc_in_buffer c) (mc_object_ids c) n of
       None \<Rightarrow> None
     | Some (True, b, ids) \<Rightarrow>
         Some (True, c\<lparr>mc_in_buffer := b, mc_object_ids := ids, mc_has_current_mh := False, mc_has_current_payload := False\<rparr>)
     | Some (False, b, ids) \<Rightarrow> Some (False, c\<lparr>mc_in_buffer := snd (Reserve b n), mc_object_ids := ids\<rparr>))"

definition process_payload :: "MessageConnection \<Rightarrow> (bool \<times> MessageConnection) option" where
  "process_payload c =
    (if mc_has_current_payload c then process_object_ids c
     else
       (let n = unat (mh_payload_size (mc_mh c)) in
        case Read_Buffer (mc_in_buffer c) (mc_payload c) n of
          None \<Rightarrow> None
        | Some (True, b, p) \<Rightarrow>
            process_object_ids
              (c\<lparr>mc_in_buffer := b, mc_payload := p, mc_has_current_payload := True, mc_object_ids := Clear (mc_object_ids c)\<rparr>)
        | Some (False, b, p) \<Rightarrow> Some (False, c\<lparr>mc_in_buffer := snd (Reserve b n), mc_payload := p\<rparr>)))"

definition process_message :: "MessageConnection \<Rightarrow> (bool \<times> MessageConnection) option" where
  "process_message c =
    (if ReadAvailable (mc_in_buffer c) = 0 then Some (False, c)
     else if mc_has_current_mh c then process_payload c
     else
       (case Read_header (mc_in_buffer c) of
          Some (mh, b) \<Rightarrow>
            process_payload
              (c\<lparr>mc_in_buffer := b, mc_mh := mh, mc_has_current_mh := True, mc_payload := Clear (mc_payload c),
                 mc_has_current_payload := False\<rparr>)
        | None \<Rightarrow> Some (False, c\<lparr>mc_in_buffer := snd (Reserve (mc_in_buffer c) sizeof_MessageHeader)\<rparr>)))"

definition SendMessage :: "MessageHeader \<Rightarrow> byte list \<Rightarrow> u32 list \<Rightarrow> MessageConnection \<Rightarrow> MessageConnection" where
  "SendMessage mh payload object_ids c =
    c\<lparr>mc_out_buffer := Put (Put (Put (mc_out_buffer c) (mh_bytes mh)) payload) (concat (map bytes32 object_ids))\<rparr>"

text \<open>\<open>got\<close> is what \<open>recv\<close> stored, at most as much as was asked for; nothing means the end of the stream or an
  error. \<open>sent\<close> is what \<open>send\<close> returned.\<close>

definition socket_SignalRead :: "byte list \<Rightarrow> MessageConnection \<Rightarrow> MessageConnection" where
  "socket_SignalRead got c =
    (let b = snd (Reserve (mc_in_buffer c) 8192) in
     if got = [] then c\<lparr>mc_in_buffer := b, mc_error_flag := True\<rparr>
     else c\<lparr>mc_in_buffer := MarkWritten (fill b got) (length got)\<rparr>)"

definition socket_SignalWrite :: "int \<Rightarrow> MessageConnection \<Rightarrow> MessageConnection" where
  "socket_SignalWrite sent c =
    (if ReadAvailable (mc_out_buffer c) > 0 then
       (if sent < 0 then c\<lparr>mc_error_flag := True\<rparr>
        else if sent > 0 then c\<lparr>mc_out_buffer := MarkRead (mc_out_buffer c) (nat sent)\<rparr>
        else c)
     else c)"

definition socket_SignalError :: "MessageConnection \<Rightarrow> MessageConnection" where
  "socket_SignalError c = c\<lparr>mc_error_flag := True\<rparr>"

text \<open>Every \<open>Process\<close> that returns a message reads a header or finishes one that was read.\<close>

definition unread :: "MessageConnection \<Rightarrow> nat" where
  "unread c = 2 * (write_head (mc_in_buffer c) - read_head (mc_in_buffer c)) + (if mc_has_current_mh c then 1 else 0)"

lemma Read_Buffer_unread:
  "Read_Buffer b other n = Some (True, b', o') \<Longrightarrow> write_head b' - read_head b' \<le> write_head b - read_head b"
  by (auto simp: Read_Buffer_def Read_def Let_def split: prod.splits if_splits)

lemma process_object_ids_unread:
  "process_object_ids c = Some (True, c') \<Longrightarrow>
    unread c' \<le> 2 * (write_head (mc_in_buffer c) - read_head (mc_in_buffer c))"
  by (auto simp: process_object_ids_def unread_def Let_def split: option.splits bool.splits dest!: Read_Buffer_unread)

lemma process_payload_unread:
  "process_payload c = Some (True, c') \<Longrightarrow>
    unread c' \<le> 2 * (write_head (mc_in_buffer c) - read_head (mc_in_buffer c))"
  by (auto simp: process_payload_def Let_def split: if_splits option.splits bool.splits
      dest!: process_object_ids_unread Read_Buffer_unread)

lemma process_message_unread: "process_message c = Some (True, c') \<Longrightarrow> unread c' < unread c"
proof -
  assume run: "process_message c = Some (True, c')"
  show ?thesis
  proof (cases "mc_has_current_mh c")
    case True
    with run have "process_payload c = Some (True, c')" by (auto simp: process_message_def split: if_splits)
    with True process_payload_unread show ?thesis by (fastforce simp: unread_def)
  next
    case False
    with run obtain mh b where hdr: "Read_header (mc_in_buffer c) = Some (mh, b)"
      and pay: "process_payload (c\<lparr>mc_in_buffer := b, mc_mh := mh, mc_has_current_mh := True,
        mc_payload := Clear (mc_payload c), mc_has_current_payload := False\<rparr>) = Some (True, c')"
      by (auto simp: process_message_def split: if_splits option.splits)
    have "write_head b - read_head b + 32 = write_head (mc_in_buffer c) - read_head (mc_in_buffer c)"
      using hdr by (auto simp: Read_header_def Read_def sizeof_MessageHeader_def split: if_splits)
    with process_payload_unread [OF pay] show ?thesis by (simp add: unread_def)
  qed
qed

text \<open>The loop of the callers: \<open>while ((rq = connection.Process ()) != nullptr)\<close>.\<close>

function drain :: "MessageConnection \<Rightarrow> (Message list \<times> MessageConnection) option" where
  "drain c =
    (case process_message c of
       None \<Rightarrow> None
     | Some (False, c1) \<Rightarrow> Some ([], c1)
     | Some (True, c1) \<Rightarrow> map_option (\<lambda>(ms, c2). (current_rq c1 # ms, c2)) (drain c1))"
  by pat_completeness auto
termination
  by (relation "measure unread") (auto dest: process_message_unread)

declare drain.simps [simp del]

section \<open>The messages of a stream\<close>

definition msg_bytes :: "Message \<Rightarrow> byte list" where
  "msg_bytes m = mh_bytes (ms_mh m) @ ms_payload m @ ms_object_ids m"

definition msg_ok :: "Message \<Rightarrow> bool" where
  "msg_ok m \<longleftrightarrow> length (ms_payload m) = unat (mh_payload_size (ms_mh m)) \<and>
     length (ms_object_ids m) = unat (mh_object_count (ms_mh m)) * 4"

text \<open>The reference: the whole messages at the front of a stream, and the rest.\<close>

definition msg_size :: "byte list \<Rightarrow> nat" where
  "msg_size bs = 32 + unat (mh_payload_size (mh_of_bytes (take 32 bs))) + unat (mh_object_count (mh_of_bytes (take 32 bs))) * 4"

definition whole :: "byte list \<Rightarrow> bool" where
  "whole bs \<longleftrightarrow> 32 \<le> length bs \<and> msg_size bs \<le> length bs"

definition first_msg :: "byte list \<Rightarrow> Message" where
  "first_msg bs =
    (let mh = mh_of_bytes (take 32 bs); p = unat (mh_payload_size mh) in
     \<lparr>ms_mh = mh, ms_payload = take p (drop 32 bs), ms_object_ids = take (unat (mh_object_count mh) * 4) (drop (32 + p) bs)\<rparr>)"

function frames :: "byte list \<Rightarrow> Message list \<times> byte list" where
  "frames bs =
    (if whole bs then (let (ms, rest) = frames (drop (msg_size bs) bs) in (first_msg bs # ms, rest)) else ([], bs))"
  by pat_completeness auto
termination
  by (relation "measure length") (auto simp: whole_def msg_size_def)

declare frames.simps [simp del]

lemma frames_partial [simp]: "\<not> whole bs \<Longrightarrow> frames bs = ([], bs)"
  by (simp add: frames.simps)

lemma whole_append: "whole x \<Longrightarrow> whole (x @ y) \<and> msg_size (x @ y) = msg_size x \<and> first_msg (x @ y) = first_msg x"
  by (auto simp: whole_def msg_size_def first_msg_def Let_def)

text \<open>A stream may be cut anywhere.\<close>

lemma frames_append:
  "frames (x @ y) = (fst (frames x) @ fst (frames (snd (frames x) @ y)), snd (frames (snd (frames x) @ y)))"
proof (induction x rule: frames.induct)
  case (1 x)
  show ?case
  proof (cases "whole x")
    case True
    then have "drop (msg_size x) (x @ y) = drop (msg_size x) x @ y" by (simp add: whole_def)
    with True 1 whole_append [OF True, of y] show ?thesis
      by (simp add: frames.simps [of x] frames.simps [of "x @ y"] split_beta Let_def)
  qed simp
qed

lemma msg_whole: "msg_ok m \<Longrightarrow> whole (msg_bytes m @ y) \<and> msg_size (msg_bytes m @ y) = length (msg_bytes m) \<and> first_msg (msg_bytes m @ y) = m"
  by (simp add: whole_def msg_size_def first_msg_def msg_bytes_def msg_ok_def Let_def)

lemma frames_messages: "list_all msg_ok ms \<Longrightarrow> frames (concat (map msg_bytes ms) @ y) = (ms @ fst (frames y), snd (frames y))"
proof (induction ms)
  case (Cons m ms)
  then show ?case
    using msg_whole [of m "concat (map msg_bytes ms) @ y"] by (simp add: frames.simps [of "msg_bytes m @ _"])
qed simp

section \<open>The receiver\<close>

text \<open>The bytes that have arrived and do not belong to a message that was returned.\<close>

definition pending :: "MessageConnection \<Rightarrow> byte list" where
  "pending c =
    (if mc_has_current_mh c then mh_bytes (mc_mh c) @ (if mc_has_current_payload c then contents (mc_payload c) else []) else []) @
    contents (mc_in_buffer c)"

definition unlimited :: "Buffer \<Rightarrow> bool" where
  "unlimited b \<longleftrightarrow> buf_ok b \<and> limit b = None"

definition bufs_unlimited :: "MessageConnection \<Rightarrow> bool" where
  "bufs_unlimited c \<longleftrightarrow> unlimited (mc_in_buffer c) \<and> unlimited (mc_payload c) \<and> unlimited (mc_object_ids c)"

text \<open>What holds while a header is being served.\<close>

definition mid_message :: "MessageConnection \<Rightarrow> bool" where
  "mid_message c \<longleftrightarrow> mc_has_current_mh c \<and>
     (if mc_has_current_payload c
      then length (contents (mc_payload c)) = unat (mh_payload_size (mc_mh c)) \<and> contents (mc_object_ids c) = []
      else contents (mc_payload c) = [])"

definition conn_inv :: "MessageConnection \<Rightarrow> bool" where
  "conn_inv c \<longleftrightarrow> bufs_unlimited c \<and>
     (mc_has_current_mh c \<longrightarrow> mid_message c \<and> (contents (mc_in_buffer c) = [] \<longrightarrow> \<not> whole (pending c)))"

lemma Reserve_unlimited [simp]:
  "unlimited b \<Longrightarrow> contents (snd (Reserve b n)) = contents b" "unlimited b \<Longrightarrow> unlimited (snd (Reserve b n))"
  using Reserve_refine [of b n "fst (Reserve b n)" "snd (Reserve b n)"] by (auto simp: unlimited_def)

lemma Read_Buffer_short:
  assumes "unlimited b" "unlimited other" and "length (contents b) < n"
  shows "\<exists>o'. Read_Buffer b other n = Some (False, b, o') \<and> unlimited o' \<and> contents o' = contents other"
  using assms Read_refine(1) [of b n] Reserve_unlimited [of other n]
  by (auto simp: Read_Buffer_def unlimited_def split_beta Let_def)

lemma Read_Buffer_full:
  assumes "unlimited b" "unlimited other" and "n \<le> length (contents b)"
  shows "\<exists>b' o'. Read_Buffer b other n = Some (True, b', o') \<and> unlimited b' \<and> unlimited o' \<and>
    contents b' = drop n (contents b) \<and> contents o' = contents other @ take n (contents b)"
proof -
  have ok: "buf_ok b" "buf_ok other" "limit other = None" using assms(1,2) by (simp_all add: unlimited_def)
  show ?thesis
    by (rule Read_Buffer_unlimited [OF ok assms(3)]) (use assms(1) in \<open>auto simp: unlimited_def\<close>)
qed

text \<open>What a call does to the bytes: it returns the first message, or nothing as long as that is not whole.\<close>

definition serves :: "byte list \<Rightarrow> bool \<times> MessageConnection \<Rightarrow> bool" where
  "serves bs = (\<lambda>(done, c'). bufs_unlimited c' \<and>
     (if done then whole bs \<and> current_rq c' = first_msg bs \<and> \<not> mc_has_current_mh c' \<and> pending c' = drop (msg_size bs) bs
      else \<not> whole bs \<and> pending c' = bs \<and> (mc_has_current_mh c' \<longrightarrow> mid_message c')))"

lemma pending_head:
  assumes "mc_has_current_mh c"
  shows "take 32 (pending c) = mh_bytes (mc_mh c)" "drop 32 (pending c) =
      (if mc_has_current_payload c then contents (mc_payload c) else []) @ contents (mc_in_buffer c)"
    "msg_size (pending c) = 32 + unat (mh_payload_size (mc_mh c)) + unat (mh_object_count (mc_mh c)) * 4"
  using assms by (simp_all add: pending_def msg_size_def)

lemma process_object_ids_serves:
  assumes bufs: "bufs_unlimited c" and mid: "mid_message c" and pay: "mc_has_current_payload c"
  shows "\<exists>r. process_object_ids c = Some r \<and> serves (pending c) r"
proof -
  let ?n = "unat (mh_object_count (mc_mh c)) * 4" and ?p = "unat (mh_payload_size (mc_mh c))"
  have mh: "mc_has_current_mh c" and ids: "contents (mc_object_ids c) = []" and len: "length (contents (mc_payload c)) = ?p"
    using mid pay by (simp_all add: mid_message_def)
  define B where "B = pending c"
  have bs: "B = mh_bytes (mc_mh c) @ contents (mc_payload c) @ contents (mc_in_buffer c)"
    using mh pay by (simp add: B_def pending_def)
  have sz: "msg_size B = 32 + ?p + ?n" unfolding B_def using pending_head(3) [OF mh] .
  have ok: "unlimited (mc_in_buffer c)" "unlimited (mc_object_ids c)" "unlimited (mc_payload c)"
    using bufs by (simp_all add: bufs_unlimited_def)
  have "\<exists>r. process_object_ids c = Some r \<and> serves B r"
  proof (cases "?n \<le> length (contents (mc_in_buffer c))")
    case True
    from Read_Buffer_full [OF ok(1,2) True] obtain b ids' where rd:
      "Read_Buffer (mc_in_buffer c) (mc_object_ids c) ?n = Some (True, b, ids')" "unlimited b" "unlimited ids'"
      "contents b = drop ?n (contents (mc_in_buffer c))" "contents ids' = take ?n (contents (mc_in_buffer c))"
      using ids by auto
    have "whole B" using True len unfolding whole_def sz by (simp add: bs)
    moreover have "first_msg B = \<lparr>ms_mh = mc_mh c, ms_payload = contents (mc_payload c), ms_object_ids = contents ids'\<rparr>"
      using len rd(5) by (simp add: first_msg_def bs Let_def)
    moreover have "drop (msg_size B) B = contents b" unfolding sz using len rd(4) by (simp add: bs)
    ultimately show ?thesis
      using rd ok by (simp add: process_object_ids_def serves_def current_rq_def bufs_unlimited_def pending_def Let_def)
  next
    case False
    then have short: "length (contents (mc_in_buffer c)) < ?n" by simp
    from Read_Buffer_short [OF ok(1,2) this] obtain ids' where rd:
      "Read_Buffer (mc_in_buffer c) (mc_object_ids c) ?n = Some (False, mc_in_buffer c, ids')" "unlimited ids'" "contents ids' = []"
      using ids by auto
    have "\<not> whole B" using short len unfolding whole_def sz by (simp add: bs)
    then show ?thesis
      using rd ok mid pay mh bs by (simp add: process_object_ids_def serves_def bufs_unlimited_def pending_def mid_message_def Let_def)
  qed
  then show ?thesis by (simp add: B_def)
qed

lemma process_payload_serves:
  assumes bufs: "bufs_unlimited c" and mid: "mid_message c"
  shows "\<exists>r. process_payload c = Some r \<and> serves (pending c) r"
proof (cases "mc_has_current_payload c")
  case True
  with process_object_ids_serves [OF assms] show ?thesis by (simp add: process_payload_def)
next
  case False
  let ?p = "unat (mh_payload_size (mc_mh c))"
  have mh: "mc_has_current_mh c" and empty: "contents (mc_payload c) = []"
    using mid False by (simp_all add: mid_message_def)
  have bs: "pending c = mh_bytes (mc_mh c) @ contents (mc_in_buffer c)" using mh False by (simp add: pending_def)
  have ok: "unlimited (mc_in_buffer c)" "unlimited (mc_payload c)" "unlimited (mc_object_ids c)"
    using bufs by (simp_all add: bufs_unlimited_def)
  show ?thesis
  proof (cases "?p \<le> length (contents (mc_in_buffer c))")
    case True
    from Read_Buffer_full [OF ok(1,2) True] obtain b p where rd:
      "Read_Buffer (mc_in_buffer c) (mc_payload c) ?p = Some (True, b, p)" "unlimited b" "unlimited p"
      "contents b = drop ?p (contents (mc_in_buffer c))" "contents p = take ?p (contents (mc_in_buffer c))"
      using empty by auto
    let ?c = "c\<lparr>mc_in_buffer := b, mc_payload := p, mc_has_current_payload := True, mc_object_ids := Clear (mc_object_ids c)\<rparr>"
    have "bufs_unlimited ?c" using rd ok by (simp add: bufs_unlimited_def unlimited_def)
    moreover have "mid_message ?c" using mh rd True by (simp add: mid_message_def)
    moreover have "pending ?c = pending c" using mh rd(4,5) by (simp add: bs) (simp add: pending_def)
    ultimately show ?thesis
      using process_object_ids_serves [of ?c] rd(1) False by (simp add: process_payload_def Let_def)
  next
    case short: False
    then have "length (contents (mc_in_buffer c)) < ?p" by simp
    from Read_Buffer_short [OF ok(1,2) this] obtain p where rd:
      "Read_Buffer (mc_in_buffer c) (mc_payload c) ?p = Some (False, mc_in_buffer c, p)" "unlimited p" "contents p = []"
      using empty by auto
    have "\<not> whole (pending c)" using short pending_head(3) [OF mh] by (simp add: whole_def bs)
    moreover have "pending (c\<lparr>mc_in_buffer := snd (Reserve (mc_in_buffer c) ?p), mc_payload := p\<rparr>) = pending c"
      using mh False ok by (simp add: bs) (simp add: pending_def)
    ultimately show ?thesis
      using rd ok mid False mh
      by (simp add: process_payload_def serves_def bufs_unlimited_def mid_message_def Let_def)
  qed
qed

lemma process_message_serves:
  assumes inv: "conn_inv c"
  shows "\<exists>r. process_message c = Some r \<and> serves (pending c) r"
proof -
  have bufs: "bufs_unlimited c" using inv by (simp add: conn_inv_def)
  then have ok: "unlimited (mc_in_buffer c)" "buf_ok (mc_in_buffer c)" by (simp_all add: bufs_unlimited_def unlimited_def)
  consider (drained) "contents (mc_in_buffer c) = []" | (mid) "contents (mc_in_buffer c) \<noteq> []" "mc_has_current_mh c"
    | (header) "contents (mc_in_buffer c) \<noteq> []" "\<not> mc_has_current_mh c" "32 \<le> length (contents (mc_in_buffer c))"
    | (part) "contents (mc_in_buffer c) \<noteq> []" "\<not> mc_has_current_mh c" "length (contents (mc_in_buffer c)) < 32"
    by linarith
  then show ?thesis
  proof cases
    case drained
    then have "\<not> whole (pending c)" using inv by (cases "mc_has_current_mh c") (auto simp: conn_inv_def pending_def whole_def)
    moreover have "ReadAvailable (mc_in_buffer c) = 0" using drained ok(2) by simp
    then have "process_message c = Some (False, c)" by (simp add: process_message_def)
    ultimately show ?thesis using inv by (simp add: serves_def conn_inv_def)
  next
    case mid
    with inv have "mid_message c" by (simp add: conn_inv_def)
    with process_payload_serves [OF bufs] mid ok(2) show ?thesis by (simp add: process_message_def)
  next
    case header
    obtain b where "Read (mc_in_buffer c) 32 = Some (take 32 (contents (mc_in_buffer c)), b)"
      using Read_Some [OF ok(2) header(3)] .
    then have hd: "Read_header (mc_in_buffer c) = Some (mh_of_bytes (take 32 (contents (mc_in_buffer c))), b)"
      by (simp add: Read_header_def sizeof_MessageHeader_def)
    note r = Read_header_SomeD [OF ok(2) hd]
    let ?c = "c\<lparr>mc_in_buffer := b, mc_mh := mh_of_bytes (take 32 (contents (mc_in_buffer c))), mc_has_current_mh := True,
      mc_payload := Clear (mc_payload c), mc_has_current_payload := False\<rparr>"
    have "bufs_unlimited ?c" using bufs r by (simp add: bufs_unlimited_def unlimited_def)
    moreover have "mid_message ?c" by (simp add: mid_message_def)
    moreover have "pending ?c = pending c" using r(1) header(2) by (simp add: pending_def)
    ultimately show ?thesis
      using process_payload_serves [of ?c] header hd ok(2) by (simp add: process_message_def)
  next
    case part
    then have none: "Read_header (mc_in_buffer c) = None" using ok(2) by simp
    let ?c = "c\<lparr>mc_in_buffer := snd (Reserve (mc_in_buffer c) sizeof_MessageHeader)\<rparr>"
    have "process_message c = Some (False, ?c)" using part none ok(2) by (simp add: process_message_def del: Read_header_None)
    moreover have "serves (pending c) (False, ?c)"
      using part ok(1) bufs by (simp add: serves_def bufs_unlimited_def pending_def whole_def)
    ultimately show ?thesis by blast
  qed
qed

lemma drain_frames:
  "conn_inv c \<Longrightarrow> \<exists>c'. drain c = Some (fst (frames (pending c)), c') \<and> conn_inv c' \<and>
     pending c' = snd (frames (pending c)) \<and> \<not> whole (pending c')"
proof (induction c rule: drain.induct)
  case (1 c)
  obtain got c1 where run: "process_message c = Some (got, c1)" and s: "serves (pending c) (got, c1)"
    using process_message_serves [OF "1.prems"] by fastforce
  show ?case
  proof (cases got)
    case True
    with s have w: "whole (pending c)" "current_rq c1 = first_msg (pending c)" "pending c1 = drop (msg_size (pending c)) (pending c)"
      and "conn_inv c1" by (simp_all add: serves_def conn_inv_def)
    with "1.IH" [of "(got, c1)" got c1] run True obtain c' where
      "drain c1 = Some (fst (frames (pending c1)), c')" "conn_inv c'" "pending c' = snd (frames (pending c1))" "\<not> whole (pending c')"
      by auto
    with run True w show ?thesis
      by (simp add: drain.simps [of c] frames.simps [of "pending c"] split_beta Let_def)
  next
    case False
    with s run show ?thesis by (simp add: drain.simps [of c] serves_def conn_inv_def)
  qed
qed

section \<open>Both ends\<close>

text \<open>A socket that delivers \<open>stream\<close>: at its \<open>i\<close>th turn \<open>recv\<close> stores at most \<open>ns ! i\<close> bytes, as many as there are
  and have room; when there are none left it reports the end of the stream.\<close>

fun receive_run :: "nat list \<Rightarrow> byte list \<Rightarrow> MessageConnection \<Rightarrow> (Message list \<times> byte list \<times> MessageConnection) option" where
  "receive_run [] stream c = Some ([], stream, c)"
| "receive_run (n # ns) stream c =
    (let k = min n (fst (Reserve (mc_in_buffer c) 8192)) in
     case drain (socket_SignalRead (take k stream) c) of
       None \<Rightarrow> None
     | Some (ms, c1) \<Rightarrow> map_option (\<lambda>(ms', rest). (ms @ ms', rest)) (receive_run ns (drop k stream) c1))"

fun send_all :: "(MessageHeader \<times> byte list \<times> u32 list) list \<Rightarrow> MessageConnection \<Rightarrow> MessageConnection" where
  "send_all [] c = c"
| "send_all ((mh, payload, ids) # ms) c = send_all ms (SendMessage mh payload ids c)"

definition message :: "MessageHeader \<times> byte list \<times> u32 list \<Rightarrow> Message" where
  "message = (\<lambda>(mh, payload, ids). \<lparr>ms_mh = mh, ms_payload = payload, ms_object_ids = concat (map bytes32 ids)\<rparr>)"

text \<open>The header describes the message, as every sender of the program sets it.\<close>

definition described :: "MessageHeader \<times> byte list \<times> u32 list \<Rightarrow> bool" where
  "described = (\<lambda>(mh, payload, ids). unat (mh_payload_size mh) = length payload \<and> unat (mh_object_count mh) = length ids)"

lemma length_ids: "length (concat (map bytes32 ids)) = length ids * 4"
  by (induction ids) simp_all

lemma described_ok: "described m \<Longrightarrow> msg_ok (message m)"
  by (auto simp: described_def msg_ok_def message_def length_ids split: prod.splits)

lemma send_all_contents:
  "unlimited (mc_out_buffer c) \<Longrightarrow>
    contents (mc_out_buffer (send_all ms c)) = contents (mc_out_buffer c) @ concat (map (\<lambda>m. msg_bytes (message m)) ms)"
proof (induction ms arbitrary: c)
  case (Cons m ms)
  then show ?case
    by (cases m) (simp add: SendMessage_def unlimited_def msg_bytes_def message_def)
qed simp

lemma SignalRead_pending:
  assumes inv: "conn_inv c" and fits: "length got \<le> fst (Reserve (mc_in_buffer c) 8192)"
  shows "conn_inv (socket_SignalRead got c)" "pending (socket_SignalRead got c) = pending c @ got"
proof -
  obtain room b where R: "Reserve (mc_in_buffer c) 8192 = (room, b)" by fastforce
  have u: "unlimited (mc_in_buffer c)" using inv by (simp add: conn_inv_def bufs_unlimited_def)
  note r = Reserve_refine [OF _ R]
  have b: "contents b = contents (mc_in_buffer c)" "buf_ok b" "limit b = None" "length got \<le> length (bdata b) - write_head b"
    using r u fits R by (simp_all add: unlimited_def)
  note f = fill_MarkWritten [OF b(2,4)]
  show pend: "pending (socket_SignalRead got c) = pending c @ got"
    using f(1) b(1) by (simp add: socket_SignalRead_def R pending_def)
  show "conn_inv (socket_SignalRead got c)"
  proof (cases "got = []")
    case True
    then have "pending (socket_SignalRead got c) = pending c" using pend by simp
    with True inv f b show ?thesis
      by (simp add: socket_SignalRead_def R conn_inv_def bufs_unlimited_def unlimited_def mid_message_def)
  next
    case False
    with inv f b show ?thesis
      by (auto simp: socket_SignalRead_def R conn_inv_def bufs_unlimited_def unlimited_def mid_message_def)
  qed
qed

lemma conn_inv_output: "conn_inv (c\<lparr>mc_out_buffer := b\<rparr>) = conn_inv c" "conn_inv (c\<lparr>mc_error_flag := e\<rparr>) = conn_inv c"
  by (simp_all add: conn_inv_def bufs_unlimited_def mid_message_def pending_def)

lemma receive_run_frames:
  "conn_inv c \<Longrightarrow> \<not> whole (pending c) \<Longrightarrow>
    \<exists>got rest c'. receive_run ns stream c = Some (fst (frames (pending c @ got)), rest, c') \<and> stream = got @ rest"
proof (induction ns arbitrary: stream c)
  case (Cons n ns)
  let ?k = "min n (fst (Reserve (mc_in_buffer c) 8192))"
  let ?c = "socket_SignalRead (take ?k stream) c"
  have c: "conn_inv ?c" "pending ?c = pending c @ take ?k stream"
    using SignalRead_pending [OF Cons.prems(1), of "take ?k stream"] by simp_all
  from drain_frames [OF c(1)] obtain c1 where c1: "drain ?c = Some (fst (frames (pending ?c)), c1)" "conn_inv c1"
    "pending c1 = snd (frames (pending ?c))" "\<not> whole (pending c1)" by blast
  from Cons.IH [OF c1(2,4), of "drop ?k stream"] obtain got rest c' where
    run: "receive_run ns (drop ?k stream) c1 = Some (fst (frames (pending c1 @ got)), rest, c')" "drop ?k stream = got @ rest"
    by blast
  have "frames (pending c @ take ?k stream @ got) =
      (fst (frames (pending ?c)) @ fst (frames (pending c1 @ got)), snd (frames (pending c1 @ got)))"
    using frames_append [of "pending ?c" got] c(2) c1(3) by simp
  moreover have "stream = (take ?k stream @ got) @ rest" using run(2) append_take_drop_id [of ?k stream] by simp
  ultimately show ?case
    using c1(1) run(1) by (intro exI [of _ "take ?k stream @ got"] exI [of _ rest] exI [of _ c']) (simp add: Let_def)
qed simp

lemma MessageConnection_new_inv: "conn_inv (MessageConnection_new mh0)" "pending (MessageConnection_new mh0) = []"
  by (simp_all add: MessageConnection_new_def conn_inv_def bufs_unlimited_def unlimited_def pending_def)

text \<open>C9: messages cross a connection whole and in order. Whatever the sizes of the pieces in which the socket
  delivers the bytes, receiving never fails, and the messages received so far are those whose bytes have arrived:
  once every byte has, they are exactly the messages that were sent.\<close>

theorem messages_cross_connection:
  assumes "\<forall>m \<in> set sent. described m"
  shows "\<exists>got rest c'.
    receive_run ns (GetData (mc_out_buffer (send_all sent (MessageConnection_new mh1)))) (MessageConnection_new mh0) =
      Some (got, rest, c') \<and>
    (\<exists>more. map message sent = got @ more) \<and> (rest = [] \<longrightarrow> got = map message sent)"
proof -
  let ?stream = "concat (map msg_bytes (map message sent))"
  have stream: "GetData (mc_out_buffer (send_all sent (MessageConnection_new mh1))) = ?stream"
    using send_all_contents [of "MessageConnection_new mh1" sent] by (simp add: MessageConnection_new_def unlimited_def comp_def)
  have ok: "list_all msg_ok (map message sent)" using assms described_ok by (auto simp: list_all_iff)
  from receive_run_frames [OF MessageConnection_new_inv(1), of mh0 ns ?stream] MessageConnection_new_inv(2)
  obtain got rest c' where run: "receive_run ns ?stream (MessageConnection_new mh0) = Some (fst (frames got), rest, c')"
    "?stream = got @ rest"
    by (auto simp: whole_def)
  have all: "map message sent = fst (frames (got @ rest))"
    using frames_messages [OF ok, of "[]"] run(2) by (simp add: whole_def)
  then have "\<exists>more. map message sent = fst (frames got) @ more" by (simp add: frames_append [of got rest])
  moreover have "rest = [] \<Longrightarrow> fst (frames got) = map message sent" using all by simp
  ultimately show ?thesis unfolding stream using run(1) by blast
qed

theorem messages_cross_connection_witness:
  "\<exists>got rest c' mh. mh_payload_size mh = 3 \<and> mh_object_count mh = 1 \<and>
    receive_run [10, 30, 7] (GetData (mc_out_buffer (send_all [(mh, [1, 2, 3], [9])] (MessageConnection_new mh)))) (MessageConnection_new mh) =
      Some (got, rest, c') \<and> (rest = [] \<longrightarrow> got = [\<lparr>ms_mh = mh, ms_payload = [1, 2, 3], ms_object_ids = bytes32 9\<rparr>])"
proof -
  let ?mh = "\<lparr>mh_client_id = 7, mh_object_id = 0, mh_command_id = 1, mh_tag = 5, mh_payload_size = 3, mh_object_count = 1, mh_padding = 0\<rparr>"
  have "\<forall>m \<in> set [(?mh, [1, 2, 3], [9])]. described m" by (simp add: described_def)
  from messages_cross_connection [OF this, of "[10, 30, 7]" ?mh ?mh] obtain got rest c' where
    "receive_run [10, 30, 7] (GetData (mc_out_buffer (send_all [(?mh, [1, 2, 3], [9])] (MessageConnection_new ?mh)))) (MessageConnection_new ?mh) =
      Some (got, rest, c')" "rest = [] \<longrightarrow> got = map message [(?mh, [1, 2, 3], [9])]"
    by blast
  then show ?thesis by (intro exI [of _ got] exI [of _ rest] exI [of _ c'] exI [of _ ?mh]) (simp add: message_def)
qed

end
