(* ===== verification/Daemon.thy ===== *)
theory Daemon
  imports MessageConnection StdMap
begin

text \<open>
  \<open>twibd\<close> (src/twib/daemon): the queue of requests and responses between the clients on its frontends and the
  devices on its backends (Daemon.cpp, Messages.cpp), the objects that clients own on devices (BridgeObject.cpp),
  the daemon's own client (LocalClient.cpp), the clients on sockets (SocketFrontend.cpp) and the devices on the
  network (TCPBackend.cpp).

  Clients, devices and bridge objects are indices into stores. A \<open>weak_ptr\<close> is an index too; it can be locked
  while something holds the object. Reference counts are not kept: \<open>collect\<close> runs the destructors of the bridge
  objects that nothing holds any more, and stands wherever the code drops references.

  The queue (moodycamel's) promises an order per producer only, so \<open>Process\<close> may take any job; \<open>k\<close> is its choice.
  The random numbers, the libraries for MsgPack and hashing, and the network are a parameter.
\<close>

section \<open>Data\<close>

record DRequest =
  dq_client :: "nat option"
  dq_device_id :: u32
  dq_object_id :: u32
  dq_command_id :: u32
  dq_tag :: u32
  dq_payload :: "byte list"

record WeakRequest =
  wq_client_id :: u32
  wq_device_id :: u32
  wq_object_id :: u32
  wq_command_id :: u32
  wq_tag :: u32
  wq_payload :: "byte list"

record DResponse =
  dr_client_id :: u32
  dr_device_id :: u32
  dr_object_id :: u32
  dr_result_code :: u32
  dr_tag :: u32
  dr_payload :: "byte list"
  dr_objects :: "nat list"

record BridgeObject =
  bo_device_id :: u32
  bo_object_id :: u32
  bo_valid :: bool
  bo_alive :: bool

record DClient =
  cl_client_id :: u32
  cl_deletion_flag :: bool
  cl_owned_objects :: "nat list"
  cl_connection :: MessageConnection

record DDevice =
  dv_device_id :: u32
  dv_priority :: int
  dv_bridge_type :: "byte list"
  dv_identification :: "byte list"
  dv_deletion_flag :: bool
  dv_ready_flag :: bool
  dv_added_flag :: bool
  dv_pending_requests :: "WeakRequest list"
  dv_response_in :: DResponse
  dv_connection :: MessageConnection

datatype Job = JobAwaken | JobRequest DRequest | JobResponse DResponse

text \<open>\<open>dm_response_map\<close> has the tags of the local client's map and \<open>dm_promises\<close> the responses its promises got;
  \<open>dm_closed\<close> lists the objects whose destructor has asked for them to be closed.\<close>

record Daemon =
  dm_dispatch_queue :: "Job list"
  dm_devices :: "(u32 \<times> nat) list"
  dm_clients :: "(u32 \<times> nat) list"
  dm_rng :: nat
  dm_response_map :: "u32 list"
  dm_promises :: "DResponse list"
  dm_objs :: "nat \<Rightarrow> BridgeObject"
  dm_next_obj :: nat
  dm_closed :: "nat list"
  dm_cl :: "nat \<Rightarrow> DClient"
  dm_next_client :: nat
  dm_frontend_clients :: "nat list"
  dm_dv :: "nat \<Rightarrow> DDevice"
  dm_next_device :: nat
  dm_backend_devices :: "nat list"

record DEnv =
  de_rng :: "nat \<Rightarrow> u32"
  de_hdr0 :: MessageHeader
  de_dump_devices :: "(u32 \<times> byte list \<times> byte list) list \<Rightarrow> byte list"
  de_serial_number :: "byte list \<Rightarrow> byte list"
  de_hash :: "byte list \<Rightarrow> u32"
  de_connect :: "byte list \<Rightarrow> byte list \<Rightarrow> byte list option"

datatype DStop = DNullDeref | DEraseEnd | DOutOfBounds | DOverrun | DNoFreshId

type_synonym daemon_result = "DStop + Daemon"

text \<open>The local client is client 0.\<close>

definition local_client :: nat where
  "local_client = 0"

definition mod_client :: "nat \<Rightarrow> (DClient \<Rightarrow> DClient) \<Rightarrow> Daemon \<Rightarrow> Daemon" where
  "mod_client c f d = d\<lparr>dm_cl := (dm_cl d)(c := f (dm_cl d c))\<rparr>"

definition mod_device :: "nat \<Rightarrow> (DDevice \<Rightarrow> DDevice) \<Rightarrow> Daemon \<Rightarrow> Daemon" where
  "mod_device v f d = d\<lparr>dm_dv := (dm_dv d)(v := f (dm_dv d v))\<rparr>"

definition mod_obj :: "nat \<Rightarrow> (BridgeObject \<Rightarrow> BridgeObject) \<Rightarrow> Daemon \<Rightarrow> Daemon" where
  "mod_obj i f d = d\<lparr>dm_objs := (dm_objs d)(i := f (dm_objs d i))\<rparr>"

section \<open>Messages\<close>

definition respond_error :: "u32 \<Rightarrow> DRequest \<Rightarrow> Daemon \<Rightarrow> DStop + DResponse" where
  "respond_error code rq d =
    (case dq_client rq of
       None \<Rightarrow> Inl DNullDeref
     | Some c \<Rightarrow>
         Inr \<lparr>dr_client_id = cl_client_id (dm_cl d c), dr_device_id = dq_device_id rq, dr_object_id = dq_object_id rq,
              dr_result_code = code, dr_tag = dq_tag rq, dr_payload = [], dr_objects = []\<rparr>)"

definition weak :: "DRequest \<Rightarrow> Daemon \<Rightarrow> WeakRequest" where
  "weak rq d =
    \<lparr>wq_client_id = (case dq_client rq of Some c \<Rightarrow> cl_client_id (dm_cl d c) | None \<Rightarrow> 0xffffffff),
     wq_device_id = dq_device_id rq, wq_object_id = dq_object_id rq, wq_command_id = dq_command_id rq,
     wq_tag = dq_tag rq, wq_payload = dq_payload rq\<rparr>"

definition PostRequest :: "DRequest \<Rightarrow> Daemon \<Rightarrow> Daemon" where
  "PostRequest rq d = d\<lparr>dm_dispatch_queue := dm_dispatch_queue d @ [JobRequest rq]\<rparr>"

definition PostResponse :: "DResponse \<Rightarrow> Daemon \<Rightarrow> Daemon" where
  "PostResponse rs d = d\<lparr>dm_dispatch_queue := dm_dispatch_queue d @ [JobResponse rs]\<rparr>"

definition Awaken :: "Daemon \<Rightarrow> Daemon" where
  "Awaken d = d\<lparr>dm_dispatch_queue := dm_dispatch_queue d @ [JobAwaken]\<rparr>"

definition draw :: "DEnv \<Rightarrow> Daemon \<Rightarrow> u32 \<times> Daemon" where
  "draw env d = (de_rng env (dm_rng d), d\<lparr>dm_rng := dm_rng d + 1\<rparr>)"

text \<open>\<open>LocalClient::SendRequest\<close> and \<open>LocalClient::PostResponse\<close>.\<close>

definition local_SendRequest :: "DEnv \<Rightarrow> DRequest \<Rightarrow> Daemon \<Rightarrow> Daemon" where
  "local_SendRequest env rq d =
    (let (tag, d1) = draw env d in
     PostRequest (rq\<lparr>dq_tag := tag, dq_client := Some local_client\<rparr>)
       (d1\<lparr>dm_response_map := List.insert tag (dm_response_map d1)\<rparr>))"

definition local_PostResponse :: "DResponse \<Rightarrow> Daemon \<Rightarrow> Daemon" where
  "local_PostResponse rs d =
    (if dr_tag rs \<in> set (dm_response_map d)
     then d\<lparr>dm_response_map := removeAll (dr_tag rs) (dm_response_map d), dm_promises := dm_promises d @ [rs]\<rparr>
     else d)"

section \<open>Lifetimes\<close>

fun job_client :: "Job \<Rightarrow> nat list" where
  "job_client (JobRequest rq) = (case dq_client rq of Some c \<Rightarrow> [c] | None \<Rightarrow> [])"
| "job_client _ = []"

fun job_objects :: "Job \<Rightarrow> nat list" where
  "job_objects (JobResponse rs) = dr_objects rs"
| "job_objects _ = []"

text \<open>A client lives in the list of its frontend and in the requests it has sent, a device in the list of its
  backend; a bridge object in responses, the objects of live clients, and the last response of a device.\<close>

definition live_clients :: "Daemon \<Rightarrow> nat list" where
  "live_clients d = local_client # dm_frontend_clients d @ concat (map job_client (dm_dispatch_queue d))"

definition live_device :: "nat \<Rightarrow> Daemon \<Rightarrow> bool" where
  "live_device v d \<longleftrightarrow> v \<in> set (dm_backend_devices d)"

definition held_objects :: "Daemon \<Rightarrow> nat list" where
  "held_objects d =
    concat (map job_objects (dm_dispatch_queue d)) @
    concat (map (\<lambda>c. cl_owned_objects (dm_cl d c)) (live_clients d)) @
    concat (map (\<lambda>v. dr_objects (dv_response_in (dm_dv d v))) (dm_backend_devices d))"

definition close_request :: "BridgeObject \<Rightarrow> DRequest" where
  "close_request ob = \<lparr>dq_client = None, dq_device_id = bo_device_id ob, dq_object_id = bo_object_id ob,
     dq_command_id = CLOSE_COMMAND, dq_tag = 0, dq_payload = []\<rparr>"

definition destroy_object :: "DEnv \<Rightarrow> nat \<Rightarrow> Daemon \<Rightarrow> Daemon" where
  "destroy_object env i d =
    (let ob = dm_objs d i; d1 = mod_obj i (\<lambda>ob. ob\<lparr>bo_alive := False\<rparr>) d in
     if bo_valid ob then local_SendRequest env (close_request ob) (d1\<lparr>dm_closed := dm_closed d1 @ [i]\<rparr>) else d1)"

definition dead_objects :: "Daemon \<Rightarrow> nat list" where
  "dead_objects d = filter (\<lambda>i. bo_alive (dm_objs d i) \<and> i \<notin> set (held_objects d)) [0..<dm_next_obj d]"

definition collect :: "DEnv \<Rightarrow> Daemon \<Rightarrow> Daemon" where
  "collect env d = fold (destroy_object env) (dead_objects d) d"

section \<open>Devices and clients\<close>

definition AddDevice :: "DEnv \<Rightarrow> nat \<Rightarrow> Daemon \<Rightarrow> Daemon" where
  "AddDevice env v d =
    (let key = dv_device_id (dm_dv d v);
         entry = map_of (dm_devices d) key;
         wins = (case entry of
                   None \<Rightarrow> True
                 | Some w \<Rightarrow> \<not> live_device w d \<or> dv_priority (dm_dv d w) \<le> dv_priority (dm_dv d v))
     in if wins
        then local_SendRequest env
               \<lparr>dq_client = None, dq_device_id = key, dq_object_id = 0, dq_command_id = CLOSE_COMMAND, dq_tag = 0, dq_payload = []\<rparr>
               (d\<lparr>dm_devices := map_modify key (\<lambda>_. v) (map_emplace key v (dm_devices d))\<rparr>)
        else d)"

definition RemoveDevice :: "nat \<Rightarrow> Daemon \<Rightarrow> Daemon" where
  "RemoveDevice v d = d\<lparr>dm_devices := map_erase (dv_device_id (dm_dv d v)) (dm_devices d)\<rparr>"

text \<open>The loop that draws an unused id; it has no bound, so it takes fuel.\<close>

fun fresh_client_id :: "nat \<Rightarrow> DEnv \<Rightarrow> Daemon \<Rightarrow> (u32 \<times> Daemon) option" where
  "fresh_client_id 0 env d = None"
| "fresh_client_id (Suc n) env d =
    (let (key, d1) = draw env d in
     if map_of (dm_clients d1) key \<noteq> None then fresh_client_id n env d1 else Some (key, d1))"

definition AddClient :: "nat \<Rightarrow> DEnv \<Rightarrow> nat \<Rightarrow> Daemon \<Rightarrow> daemon_result" where
  "AddClient n env c d =
    (case fresh_client_id n env d of
       None \<Rightarrow> Inl DNoFreshId
     | Some (key, d1) \<Rightarrow>
         Inr ((mod_client c (\<lambda>cl. cl\<lparr>cl_client_id := key\<rparr>) d1)\<lparr>dm_clients := map_modify key (\<lambda>_. c) (map_emplace key c (dm_clients d1))\<rparr>))"

definition RemoveClient :: "nat \<Rightarrow> Daemon \<Rightarrow> daemon_result" where
  "RemoveClient c d =
    (let key = cl_client_id (dm_cl d c) in
     if map_of (dm_clients d) key = None then Inl DEraseEnd else Inr (d\<lparr>dm_clients := map_erase key (dm_clients d)\<rparr>))"

definition GetClient :: "u32 \<Rightarrow> Daemon \<Rightarrow> nat option" where
  "GetClient key d =
    (case map_of (dm_clients d) key of
       None \<Rightarrow> None
     | Some c \<Rightarrow> if c \<notin> set (live_clients d) then None else if cl_deletion_flag (dm_cl d c) then None else Some c)"

section \<open>Clients on sockets\<close>

definition response_header :: "DEnv \<Rightarrow> DResponse \<Rightarrow> MessageHeader" where
  "response_header env rs = (de_hdr0 env)\<lparr>mh_client_id := dr_device_id rs, mh_object_id := dr_object_id rs,
     mh_command_id := dr_result_code rs, mh_tag := dr_tag rs, mh_payload_size := of_nat (length (dr_payload rs)),
     mh_object_count := of_nat (length (dr_objects rs))\<rparr>"

definition socket_PostResponse :: "DEnv \<Rightarrow> nat \<Rightarrow> DResponse \<Rightarrow> Daemon \<Rightarrow> Daemon" where
  "socket_PostResponse env c rs d =
    mod_client c (\<lambda>cl. cl\<lparr>cl_connection :=
      SendMessage (response_header env rs) (dr_payload rs) (map (\<lambda>i. bo_object_id (dm_objs d i)) (dr_objects rs)) (cl_connection cl)\<rparr>) d"

definition client_PostResponse :: "DEnv \<Rightarrow> nat \<Rightarrow> DResponse \<Rightarrow> Daemon \<Rightarrow> Daemon" where
  "client_PostResponse env c rs d = (if c = local_client then local_PostResponse rs d else socket_PostResponse env c rs d)"

definition DClient_new :: "DEnv \<Rightarrow> DClient" where
  "DClient_new env = \<lparr>cl_client_id = 0, cl_deletion_flag = False, cl_owned_objects = [], cl_connection = MessageConnection_new (de_hdr0 env)\<rparr>"

text \<open>\<open>SocketFrontend::ServerMember::SignalRead\<close>: a client connects.\<close>

definition frontend_accept :: "nat \<Rightarrow> DEnv \<Rightarrow> Daemon \<Rightarrow> daemon_result" where
  "frontend_accept n env d =
    (let c = dm_next_client d in
     AddClient n env c
       (d\<lparr>dm_cl := (dm_cl d)(c := DClient_new env), dm_next_client := c + 1, dm_frontend_clients := dm_frontend_clients d @ [c]\<rparr>))"

definition message_request :: "nat \<Rightarrow> Message \<Rightarrow> DRequest" where
  "message_request c m =
    \<lparr>dq_client = Some c, dq_device_id = mh_client_id (ms_mh m), dq_object_id = mh_object_id (ms_mh m),
     dq_command_id = mh_command_id (ms_mh m), dq_tag = mh_tag (ms_mh m), dq_payload = ms_payload m\<rparr>"

text \<open>One turn of the loop over the clients in \<open>SocketFrontend::ServerLogic::Prepare\<close>, and the loop.\<close>

definition frontend_client :: "DEnv \<Rightarrow> nat \<Rightarrow> Daemon \<Rightarrow> daemon_result" where
  "frontend_client env c d =
    (case drain (cl_connection (dm_cl d c)) of
       None \<Rightarrow> Inl DOverrun
     | Some (ms, conn) \<Rightarrow>
         (let d1 = mod_client c (\<lambda>cl. cl\<lparr>cl_connection := conn\<rparr>) d;
              d2 = fold (\<lambda>m. PostRequest (message_request c m)) ms d1;
              d3 = (if mc_error_flag conn then mod_client c (\<lambda>cl. cl\<lparr>cl_deletion_flag := True\<rparr>) d2 else d2)
          in if cl_deletion_flag (dm_cl d3 c)
             then sum_bind (RemoveClient c d3) (\<lambda>d4.
                    Inr (collect env (d4\<lparr>dm_frontend_clients := removeAll c (dm_frontend_clients d4)\<rparr>)))
             else Inr d3))"

fun frontend_clients :: "DEnv \<Rightarrow> nat list \<Rightarrow> Daemon \<Rightarrow> daemon_result" where
  "frontend_clients env [] d = Inr d"
| "frontend_clients env (c # cs) d = sum_bind (frontend_client env c d) (frontend_clients env cs)"

definition frontend_Prepare :: "DEnv \<Rightarrow> Daemon \<Rightarrow> daemon_result" where
  "frontend_Prepare env d = frontend_clients env (dm_frontend_clients d) d"

section \<open>Devices on the network\<close>

definition request_header :: "DEnv \<Rightarrow> DRequest \<Rightarrow> Daemon \<Rightarrow> MessageHeader" where
  "request_header env rq d = (de_hdr0 env)\<lparr>
     mh_client_id := (case dq_client rq of Some c \<Rightarrow> cl_client_id (dm_cl d c) | None \<Rightarrow> 0xffffffff),
     mh_object_id := dq_object_id rq, mh_command_id := dq_command_id rq, mh_tag := dq_tag rq,
     mh_payload_size := of_nat (length (dq_payload rq)), mh_object_count := 0\<rparr>"

definition device_SendRequest :: "DEnv \<Rightarrow> nat \<Rightarrow> DRequest \<Rightarrow> Daemon \<Rightarrow> Daemon" where
  "device_SendRequest env v rq d =
    mod_device v (\<lambda>dv. dv\<lparr>dv_pending_requests := dv_pending_requests dv @ [weak rq d],
      dv_connection := SendMessage (request_header env rq d) (dq_payload rq) [] (dv_connection dv)\<rparr>) d"

definition DResponse_empty :: DResponse where
  "DResponse_empty = \<lparr>dr_client_id = 0, dr_device_id = 0, dr_object_id = 0, dr_result_code = 0, dr_tag = 0, dr_payload = [], dr_objects = []\<rparr>"

definition DDevice_new :: "DEnv \<Rightarrow> DDevice" where
  "DDevice_new env = \<lparr>dv_device_id = 0, dv_priority = 1, dv_bridge_type = str ''tcp'', dv_identification = [],
     dv_deletion_flag = False, dv_ready_flag = False, dv_added_flag = False, dv_pending_requests = [],
     dv_response_in = DResponse_empty, dv_connection = MessageConnection_new (de_hdr0 env)\<rparr>"

text \<open>A connection is made: the device joins the backend and is asked to identify itself (\<open>Begin\<close>).\<close>

definition identify_request :: DRequest where
  "identify_request = \<lparr>dq_client = None, dq_device_id = 0, dq_object_id = 0,
     dq_command_id = device_command_id Dev_IDENTIFY, dq_tag = 0xffffffff, dq_payload = []\<rparr>"

definition connect_device :: "DEnv \<Rightarrow> Daemon \<Rightarrow> Daemon" where
  "connect_device env d =
    (let v = dm_next_device d in
     device_SendRequest env v identify_request
       (d\<lparr>dm_dv := (dm_dv d)(v := DDevice_new env), dm_next_device := v + 1, dm_backend_devices := dm_backend_devices d @ [v]\<rparr>))"

definition Identified :: "DEnv \<Rightarrow> nat \<Rightarrow> DResponse \<Rightarrow> Daemon \<Rightarrow> daemon_result" where
  "Identified env v rs d =
    (if dr_result_code rs \<noteq> 0 then Inr (mod_device v (\<lambda>dv. dv\<lparr>dv_deletion_flag := True\<rparr>) d)
     else if length (dr_payload rs) < 8 then Inl DOutOfBounds
     else
       (let ident = drop 8 (dr_payload rs) in
        Inr (mod_device v (\<lambda>dv. dv\<lparr>dv_identification := ident,
               dv_device_id := de_hash env (de_serial_number env ident), dv_ready_flag := True\<rparr>) d)))"

text \<open>The loop that makes the bridge objects; \<open>done\<close> are the indices made so far. It stops early when the ids run
  out.\<close>

fun make_objects :: "nat \<Rightarrow> u32 \<Rightarrow> byte list \<Rightarrow> nat list \<Rightarrow> Daemon \<Rightarrow> bool \<times> nat list \<times> Daemon" where
  "make_objects 0 device_id ids made d = (True, made, d)"
| "make_objects (Suc n) device_id ids made d =
    (if length ids < 4 then (False, made, d)
     else
       make_objects n device_id (drop 4 ids) (made @ [dm_next_obj d])
         (d\<lparr>dm_objs := (dm_objs d)(dm_next_obj d :=
              \<lparr>bo_device_id = device_id, bo_object_id = word32 (take 4 ids), bo_valid = True, bo_alive = True\<rparr>),
            dm_next_obj := dm_next_obj d + 1\<rparr>))"

text \<open>\<open>response_in\<close> keeps its objects after it was posted: \<open>PostResponse\<close> copies it.\<close>

definition IncomingMessage :: "DEnv \<Rightarrow> nat \<Rightarrow> Message \<Rightarrow> Daemon \<Rightarrow> daemon_result" where
  "IncomingMessage env v m d =
    (let mh = ms_mh m;
         old = dr_objects (dv_response_in (dm_dv d v));
         n = unat (mh_object_count mh);
         (enough, made, d1) = make_objects n (mh_client_id mh) (ms_object_ids m) [] d;
         rs = \<lparr>dr_client_id = mh_client_id mh, dr_device_id = dv_device_id (dm_dv d v), dr_object_id = mh_object_id mh,
               dr_result_code = mh_command_id mh, dr_tag = mh_tag mh, dr_payload = ms_payload m,
               dr_objects = made @ take (n - length made) (drop (length made) old)\<rparr>;
         d2 = collect env (mod_device v (\<lambda>dv. dv\<lparr>dv_response_in := rs\<rparr>) d1)
     in if \<not> enough then Inr d2
        else
          (let d3 = mod_device v (\<lambda>dv. dv\<lparr>dv_pending_requests := filter (\<lambda>w. wq_tag w \<noteq> dr_tag rs) (dv_pending_requests dv)\<rparr>) d2
           in if dr_client_id rs = 0xffffffff then Identified env v rs d3 else Inr (PostResponse rs d3)))"

fun incoming_messages :: "DEnv \<Rightarrow> nat \<Rightarrow> Message list \<Rightarrow> Daemon \<Rightarrow> daemon_result" where
  "incoming_messages env v [] d = Inr d"
| "incoming_messages env v (m # ms) d = sum_bind (IncomingMessage env v m d) (incoming_messages env v ms)"

text \<open>One turn of the loop over the devices in \<open>TCPBackend::ServerLogic::Prepare\<close> after the messages, and the loop.\<close>

definition backend_update :: "DEnv \<Rightarrow> nat \<Rightarrow> Daemon \<Rightarrow> Daemon" where
  "backend_update env v d =
    (let dv = dm_dv d v in
     if dv_deletion_flag dv then
       (let d1 = (if dv_added_flag dv then RemoveDevice v d else d)
        in collect env (d1\<lparr>dm_backend_devices := removeAll v (dm_backend_devices d1)\<rparr>))
     else if dv_ready_flag dv \<and> \<not> dv_added_flag dv
     then mod_device v (\<lambda>dv. dv\<lparr>dv_added_flag := True\<rparr>) (AddDevice env v d)
     else d)"

definition backend_device :: "DEnv \<Rightarrow> nat \<Rightarrow> Daemon \<Rightarrow> daemon_result" where
  "backend_device env v d =
    (case drain (dv_connection (dm_dv d v)) of
       None \<Rightarrow> Inl DOverrun
     | Some (ms, conn) \<Rightarrow>
         sum_bind (incoming_messages env v ms (mod_device v (\<lambda>dv. dv\<lparr>dv_connection := conn\<rparr>) d)) (\<lambda>d1.
           Inr (backend_update env v
             (if mc_error_flag (dv_connection (dm_dv d1 v)) then mod_device v (\<lambda>dv. dv\<lparr>dv_deletion_flag := True\<rparr>) d1 else d1))))"

fun backend_devices :: "DEnv \<Rightarrow> nat list \<Rightarrow> Daemon \<Rightarrow> daemon_result" where
  "backend_devices env [] d = Inr d"
| "backend_devices env (v # vs) d = sum_bind (backend_device env v d) (backend_devices env vs)"

definition backend_Prepare :: "DEnv \<Rightarrow> Daemon \<Rightarrow> daemon_result" where
  "backend_Prepare env d = backend_devices env (dm_backend_devices d) d"

section \<open>The daemon's own object\<close>

text \<open>\<open>LIST_DEVICES\<close> dereferences the pointer it locked without a check.\<close>

fun list_devices :: "Daemon \<Rightarrow> (u32 \<times> nat) list \<Rightarrow> DStop + (u32 \<times> byte list \<times> byte list) list" where
  "list_devices d [] = Inr []"
| "list_devices d ((_, v) # es) =
    (if \<not> live_device v d then Inl DNullDeref
     else sum_bind (list_devices d es) (\<lambda>packs.
       Inr ((dv_device_id (dm_dv d v), dv_bridge_type (dm_dv d v), dv_identification (dm_dv d v)) # packs)))"

definition string_payload :: "byte list \<Rightarrow> byte list" where
  "string_payload s = GetData (Put (Put Buffer_new (bytes64 (of_nat (length s)))) s)"

text \<open>A string: its size and that many bytes.\<close>

definition read_string :: "Buffer \<Rightarrow> (byte list \<times> Buffer) option" where
  "read_string b = (case Read b 8 of None \<Rightarrow> None | Some (bs, b1) \<Rightarrow> Read_string b1 (unat (word64 bs)))"

definition HandleRequest :: "DEnv \<Rightarrow> DRequest \<Rightarrow> Daemon \<Rightarrow> DStop + DResponse \<times> Daemon" where
  "HandleRequest env rq d =
    (if dq_object_id rq \<noteq> 0
     then sum_bind (respond_error TWILI_ERR_PROTOCOL_UNRECOGNIZED_OBJECT rq d) (\<lambda>r. Inr (r, d))
     else if dq_command_id rq = meta_command_id Meta_LIST_DEVICES then
       sum_bind (respond_error 0 rq d) (\<lambda>r.
       sum_bind (list_devices d (dm_devices d)) (\<lambda>packs.
         Inr (r\<lparr>dr_payload := string_payload (de_dump_devices env packs)\<rparr>, d)))
     else if dq_command_id rq = meta_command_id Meta_CONNECT_TCP then
       (case read_string (Buffer_of_vector (dq_payload rq)) of
          None \<Rightarrow> sum_bind (respond_error TWILI_ERR_PROTOCOL_BAD_REQUEST rq d) (\<lambda>r. Inr (r, d))
        | Some (hostname, b) \<Rightarrow>
            (case read_string b of
               None \<Rightarrow> sum_bind (respond_error TWILI_ERR_PROTOCOL_BAD_REQUEST rq d) (\<lambda>r. Inr (r, d))
             | Some (port, _) \<Rightarrow>
                 sum_bind (respond_error 0 rq d) (\<lambda>r.
                   (case de_connect env hostname port of
                      None \<Rightarrow> Inr (r\<lparr>dr_payload := string_payload (str ''Ok'')\<rparr>, connect_device env d)
                    | Some msg \<Rightarrow> Inr (r\<lparr>dr_payload := string_payload msg\<rparr>, d)))))
     else sum_bind (respond_error TWILI_ERR_PROTOCOL_UNRECOGNIZED_FUNCTION rq d) (\<lambda>r. Inr (r, d)))"

section \<open>The dispatch loop\<close>

text \<open>A close request disowns every object of that id, whatever its device.\<close>

definition disown :: "nat \<Rightarrow> u32 \<Rightarrow> Daemon \<Rightarrow> Daemon" where
  "disown c object_id d =
    (let closing = (\<lambda>i. bo_object_id (dm_objs d i) = object_id) in
     mod_client c (\<lambda>cl. cl\<lparr>cl_owned_objects := filter (\<lambda>i. \<not> closing i) (cl_owned_objects cl)\<rparr>)
       (fold (\<lambda>i. mod_obj i (\<lambda>ob. ob\<lparr>bo_valid := False\<rparr>)) (filter closing (cl_owned_objects (dm_cl d c))) d))"

definition dispatch_request :: "DEnv \<Rightarrow> DRequest \<Rightarrow> Daemon \<Rightarrow> daemon_result" where
  "dispatch_request env rq d =
    (case dq_client rq of
       None \<Rightarrow> Inl DNullDeref
     | Some c \<Rightarrow>
         if dq_device_id rq = 0 then sum_bind (HandleRequest env rq d) (\<lambda>(r, d1). Inr (PostResponse r d1))
         else
           (let unrecognized = sum_bind (respond_error TWILI_ERR_PROTOCOL_UNRECOGNIZED_DEVICE rq d) (\<lambda>r. Inr (PostResponse r d)) in
            case map_of (dm_devices d) (dq_device_id rq) of
              None \<Rightarrow> unrecognized
            | Some v \<Rightarrow>
                if \<not> live_device v d \<or> dv_deletion_flag (dm_dv d v) then unrecognized
                else Inr (device_SendRequest env v rq (if dq_command_id rq = CLOSE_COMMAND then disown c (dq_object_id rq) d else d))))"

definition dispatch_response :: "DEnv \<Rightarrow> DResponse \<Rightarrow> Daemon \<Rightarrow> Daemon" where
  "dispatch_response env rs d =
    (case GetClient (dr_client_id rs) d of
       None \<Rightarrow> d
     | Some c \<Rightarrow> client_PostResponse env c rs (mod_client c (\<lambda>cl. cl\<lparr>cl_owned_objects := cl_owned_objects cl @ dr_objects rs\<rparr>) d))"

text \<open>While a job is processed its request or response is still held; the references go at the end.\<close>

definition Process :: "DEnv \<Rightarrow> nat \<Rightarrow> Daemon \<Rightarrow> daemon_result" where
  "Process env k d =
    (let d1 = d\<lparr>dm_dispatch_queue := take k (dm_dispatch_queue d) @ drop (Suc k) (dm_dispatch_queue d)\<rparr> in
     case dm_dispatch_queue d ! k of
       JobAwaken \<Rightarrow> Inr d1
     | JobRequest rq \<Rightarrow> sum_bind (dispatch_request env rq d1) (\<lambda>d2. Inr (collect env d2))
     | JobResponse rs \<Rightarrow> Inr (collect env (dispatch_response env rs d1)))"

definition Daemon_start :: "DEnv \<Rightarrow> Daemon" where
  "Daemon_start env =
    \<lparr>dm_dispatch_queue = [], dm_devices = [], dm_clients = [], dm_rng = 0, dm_response_map = [], dm_promises = [],
     dm_objs = (\<lambda>_. \<lparr>bo_device_id = 0, bo_object_id = 0, bo_valid = False, bo_alive = False\<rparr>), dm_next_obj = 0, dm_closed = [],
     dm_cl = (\<lambda>_. DClient_new env), dm_next_client = 1, dm_frontend_clients = [],
     dm_dv = (\<lambda>_. DDevice_new env), dm_next_device = 0, dm_backend_devices = []\<rparr>"

definition Daemon_new :: "nat \<Rightarrow> DEnv \<Rightarrow> daemon_result" where
  "Daemon_new n env = AddClient n env local_client (Daemon_start env)"

end
