(* ===== verification/DaemonInv.thy ===== *)
theory DaemonInv
  imports Daemon
begin

text \<open>
  The invariants of the daemon. Objects: what something holds is alive, what nothing holds is not, and an object
  has asked to be closed exactly when it died without its client having closed it. Clients: the map of clients has
  exactly the local client and those of the frontends, each under its id. Devices: the map of devices has only
  devices of the backend that were added, each under its id.
\<close>

section \<open>Objects\<close>

definition lives :: "Daemon \<Rightarrow> nat set" where
  "lives d = insert local_client (set (dm_frontend_clients d) \<union> (\<Union>j \<in> set (dm_dispatch_queue d). set (job_client j)))"

definition held :: "Daemon \<Rightarrow> nat set" where
  "held d = (\<Union>j \<in> set (dm_dispatch_queue d). set (job_objects j)) \<union>
     (\<Union>c \<in> lives d. set (cl_owned_objects (dm_cl d c))) \<union>
     (\<Union>v \<in> set (dm_backend_devices d). set (dr_objects (dv_response_in (dm_dv d v))))"

lemma set_live_clients [simp]: "set (live_clients d) = lives d"
  by (auto simp: live_clients_def lives_def)

lemma set_held_objects [simp]: "set (held_objects d) = held d"
  by (auto simp: held_objects_def held_def)

text \<open>Without the last condition: what holds in the middle of an operation.\<close>

definition obj_pre :: "Daemon \<Rightarrow> bool" where
  "obj_pre d \<longleftrightarrow> (\<forall>i. bo_alive (dm_objs d i) \<longrightarrow> i < dm_next_obj d) \<and> (\<forall>i \<in> held d. bo_alive (dm_objs d i)) \<and>
     (\<forall>i. count_list (dm_closed d) i =
        (if i < dm_next_obj d \<and> \<not> bo_alive (dm_objs d i) \<and> bo_valid (dm_objs d i) then 1 else 0))"

definition obj_inv :: "Daemon \<Rightarrow> bool" where
  "obj_inv d \<longleftrightarrow> obj_pre d \<and> (\<forall>i. bo_alive (dm_objs d i) \<longrightarrow> i \<in> held d)"

definition same_objs :: "Daemon \<Rightarrow> Daemon \<Rightarrow> bool" where
  "same_objs d e \<longleftrightarrow> dm_objs e = dm_objs d \<and> dm_next_obj e = dm_next_obj d \<and> dm_closed e = dm_closed d \<and> held e = held d"

lemma same_objs_refl [simp]: "same_objs d d"
  by (simp add: same_objs_def)

lemma same_objs_trans: "same_objs d e \<Longrightarrow> same_objs e f \<Longrightarrow> same_objs d f"
  by (simp add: same_objs_def)

lemma same_objs_inv: "same_objs d e \<Longrightarrow> obj_inv e = obj_inv d"
  by (simp add: same_objs_def obj_inv_def obj_pre_def)

text \<open>Fewer references to the same objects.\<close>

lemma obj_pre_less:
  assumes "obj_pre d" and "dm_objs e = dm_objs d" "dm_next_obj e = dm_next_obj d" "dm_closed e = dm_closed d" "held e \<subseteq> held d"
  shows "obj_pre e"
  using assms by (auto simp: obj_pre_def)

lemma local_SendRequest_same: "same_objs d (local_SendRequest env rq d)"
  by (auto simp: same_objs_def local_SendRequest_def draw_def PostRequest_def held_def lives_def)

lemma destroy_object_eq:
  "dm_objs (destroy_object env i d) = (dm_objs d)(i := (dm_objs d i)\<lparr>bo_alive := False\<rparr>)"
  "dm_next_obj (destroy_object env i d) = dm_next_obj d"
  "dm_closed (destroy_object env i d) = (if bo_valid (dm_objs d i) then dm_closed d @ [i] else dm_closed d)"
  "held (destroy_object env i d) = held d"
proof -
  let ?d1 = "mod_obj i (\<lambda>ob. ob\<lparr>bo_alive := False\<rparr>) d"
  let ?d2 = "?d1\<lparr>dm_closed := dm_closed ?d1 @ [i]\<rparr>"
  have held: "held ?d1 = held d" "held ?d2 = held d" by (simp_all add: held_def lives_def mod_obj_def)
  note s = local_SendRequest_same [of ?d2 env "close_request (dm_objs d i)", unfolded same_objs_def]
  show "dm_objs (destroy_object env i d) = (dm_objs d)(i := (dm_objs d i)\<lparr>bo_alive := False\<rparr>)"
    "dm_next_obj (destroy_object env i d) = dm_next_obj d"
    "dm_closed (destroy_object env i d) = (if bo_valid (dm_objs d i) then dm_closed d @ [i] else dm_closed d)"
    "held (destroy_object env i d) = held d"
    using s held by (simp_all add: destroy_object_def Let_def mod_obj_def)
qed

lemma destroy_object_pre:
  assumes pre: "obj_pre d" and "bo_alive (dm_objs d i)" and "i \<notin> held d"
  shows "obj_pre (destroy_object env i d)"
proof -
  have "i < dm_next_obj d" "count_list (dm_closed d) i = 0" using assms by (simp_all add: obj_pre_def)
  then show ?thesis using assms by (auto simp: obj_pre_def destroy_object_eq count_list_append)
qed

lemma fold_destroy:
  "obj_pre d \<Longrightarrow> distinct is \<Longrightarrow> (\<forall>i \<in> set is. bo_alive (dm_objs d i) \<and> i \<notin> held d) \<Longrightarrow>
    obj_pre (fold (destroy_object env) is d) \<and> held (fold (destroy_object env) is d) = held d \<and>
    (\<forall>i. bo_alive (dm_objs (fold (destroy_object env) is d) i) \<longleftrightarrow> bo_alive (dm_objs d i) \<and> i \<notin> set is)"
proof (induction "is" arbitrary: d)
  case (Cons i "is")
  let ?d = "destroy_object env i d"
  have "obj_pre ?d" using destroy_object_pre Cons.prems by simp
  moreover have "\<forall>j \<in> set is. bo_alive (dm_objs ?d j) \<and> j \<notin> held ?d" using Cons.prems by (auto simp: destroy_object_eq)
  ultimately show ?case using Cons.IH [of ?d] Cons.prems(2) by (auto simp: destroy_object_eq)
qed simp

lemma collect_inv: "obj_pre d \<Longrightarrow> obj_inv (collect env d)"
proof -
  assume pre: "obj_pre d"
  have dead: "distinct (dead_objects d)" "\<forall>i \<in> set (dead_objects d). bo_alive (dm_objs d i) \<and> i \<notin> held d"
    by (simp_all add: dead_objects_def)
  have rest: "i \<in> held d" if "bo_alive (dm_objs d i)" "i \<notin> set (dead_objects d)" for i
    using that pre by (auto simp: dead_objects_def obj_pre_def)
  show ?thesis using fold_destroy [OF pre dead, of env] rest by (simp add: obj_inv_def collect_def)
qed

section \<open>What collecting leaves alone\<close>

definition same_parties :: "Daemon \<Rightarrow> Daemon \<Rightarrow> bool" where
  "same_parties d e \<longleftrightarrow> dm_devices e = dm_devices d \<and> dm_clients e = dm_clients d \<and> dm_cl e = dm_cl d \<and>
     dm_next_client e = dm_next_client d \<and> dm_frontend_clients e = dm_frontend_clients d \<and> dm_dv e = dm_dv d \<and>
     dm_next_device e = dm_next_device d \<and> dm_backend_devices e = dm_backend_devices d"

text \<open>Only requests of the local client join the queue.\<close>

definition only_local :: "Daemon \<Rightarrow> Daemon \<Rightarrow> bool" where
  "only_local d e \<longleftrightarrow> (\<exists>new. dm_dispatch_queue e = dm_dispatch_queue d @ map JobRequest new \<and>
     list_all (\<lambda>rq. dq_client rq = Some local_client) new)"

lemma only_local_refl: "dm_dispatch_queue e = dm_dispatch_queue d \<Longrightarrow> only_local d e"
  by (auto simp: only_local_def intro: exI [of _ "[]"])

lemma only_local_trans: "only_local d e \<Longrightarrow> only_local e f \<Longrightarrow> only_local d f"
proof -
  assume "only_local d e" "only_local e f"
  then obtain xs ys where "dm_dispatch_queue f = dm_dispatch_queue d @ map JobRequest (xs @ ys)"
    "list_all (\<lambda>rq. dq_client rq = Some local_client) (xs @ ys)"
    by (auto simp: only_local_def)
  then show ?thesis unfolding only_local_def by blast
qed

lemma local_SendRequest_only:
  "only_local d (local_SendRequest env rq d)" "same_parties d (local_SendRequest env rq d)"
proof -
  let ?rq = "rq\<lparr>dq_tag := fst (draw env d), dq_client := Some local_client\<rparr>"
  have "dm_dispatch_queue (local_SendRequest env rq d) = dm_dispatch_queue d @ map JobRequest [?rq]"
    by (simp add: local_SendRequest_def draw_def PostRequest_def)
  then show "only_local d (local_SendRequest env rq d)" unfolding only_local_def by (intro exI [of _ "[?rq]"]) simp
  show "same_parties d (local_SendRequest env rq d)"
    by (simp add: local_SendRequest_def draw_def PostRequest_def same_parties_def)
qed

lemma destroy_object_only: "only_local d (destroy_object env i d)" "same_parties d (destroy_object env i d)"
proof -
  let ?d1 = "mod_obj i (\<lambda>ob. ob\<lparr>bo_alive := False\<rparr>) d"
  let ?d2 = "?d1\<lparr>dm_closed := dm_closed ?d1 @ [i]\<rparr>"
  note l = local_SendRequest_only [of ?d2 env "close_request (dm_objs d i)"]
  have "only_local d ?d1" "only_local d ?d2" by (simp_all add: mod_obj_def only_local_refl)
  then show "only_local d (destroy_object env i d)"
    using only_local_trans [OF _ l(1)] by (simp add: destroy_object_def Let_def mod_obj_def)
  show "same_parties d (destroy_object env i d)"
    using l(2) by (simp add: destroy_object_def Let_def mod_obj_def same_parties_def)
qed

lemma collect_only: "only_local d (collect env d)" "same_parties d (collect env d)"
proof -
  have "only_local d (fold (destroy_object env) is d) \<and> same_parties d (fold (destroy_object env) is d)" for "is" d
  proof (induction "is" arbitrary: d)
    case (Cons i "is")
    then show ?case
      using Cons.IH [of "destroy_object env i d"] destroy_object_only [of d env i]
        only_local_trans [of d "destroy_object env i d"]
      by (simp add: same_parties_def)
  qed (simp add: only_local_refl same_parties_def)
  then show "only_local d (collect env d)" "same_parties d (collect env d)" by (simp_all add: collect_def)
qed

section \<open>Clients and devices\<close>

definition queue_ok :: "nat \<Rightarrow> Job list \<Rightarrow> bool" where
  "queue_ok n q \<longleftrightarrow> (\<forall>rq. JobRequest rq \<in> set q \<longrightarrow> (\<exists>c. dq_client rq = Some c \<and> c < n))"

definition registered :: "Daemon \<Rightarrow> bool" where
  "registered d \<longleftrightarrow> (\<forall>key c. map_of (dm_clients d) key = Some c \<longleftrightarrow>
     c \<in> insert local_client (set (dm_frontend_clients d)) \<and> cl_client_id (dm_cl d c) = key)"

lemma registeredD:
  "registered d \<Longrightarrow> map_of (dm_clients d) key = Some c \<longleftrightarrow>
    (c = local_client \<or> c \<in> set (dm_frontend_clients d)) \<and> cl_client_id (dm_cl d c) = key"
  by (simp add: registered_def)

definition client_inv :: "Daemon \<Rightarrow> bool" where
  "client_inv d \<longleftrightarrow> map_ok (dm_clients d) \<and> distinct (dm_frontend_clients d) \<and> local_client \<notin> set (dm_frontend_clients d) \<and>
     0 < dm_next_client d \<and> (\<forall>c \<in> set (dm_frontend_clients d). c < dm_next_client d) \<and>
     registered d \<and> queue_ok (dm_next_client d) (dm_dispatch_queue d)"

definition device_inv :: "Daemon \<Rightarrow> bool" where
  "device_inv d \<longleftrightarrow> map_ok (dm_devices d) \<and> distinct (dm_backend_devices d) \<and>
     (\<forall>v \<in> set (dm_backend_devices d). v < dm_next_device d) \<and>
     (\<forall>key v. map_of (dm_devices d) key = Some v \<longrightarrow>
        v \<in> set (dm_backend_devices d) \<and> dv_device_id (dm_dv d v) = key \<and> dv_added_flag (dm_dv d v))"

definition conns_inv :: "Daemon \<Rightarrow> bool" where
  "conns_inv d \<longleftrightarrow> (\<forall>c \<in> set (dm_frontend_clients d). conn_inv (cl_connection (dm_cl d c))) \<and>
     (\<forall>v \<in> set (dm_backend_devices d). conn_inv (dv_connection (dm_dv d v)))"

definition core_inv :: "Daemon \<Rightarrow> bool" where
  "core_inv d \<longleftrightarrow> client_inv d \<and> device_inv d \<and> conns_inv d"

definition daemon_inv :: "Daemon \<Rightarrow> bool" where
  "daemon_inv d \<longleftrightarrow> obj_inv d \<and> core_inv d"

text \<open>The parts of the state that these conditions read.\<close>

definition same_core :: "Daemon \<Rightarrow> Daemon \<Rightarrow> bool" where
  "same_core d e \<longleftrightarrow> dm_clients e = dm_clients d \<and> dm_frontend_clients e = dm_frontend_clients d \<and> dm_next_client e = dm_next_client d \<and>
     (\<forall>c. cl_client_id (dm_cl e c) = cl_client_id (dm_cl d c)) \<and>
     (\<forall>c. conn_inv (cl_connection (dm_cl e c)) = conn_inv (cl_connection (dm_cl d c))) \<and>
     dm_devices e = dm_devices d \<and> dm_backend_devices e = dm_backend_devices d \<and> dm_next_device e = dm_next_device d \<and>
     (\<forall>v. dv_device_id (dm_dv e v) = dv_device_id (dm_dv d v)) \<and> (\<forall>v. dv_added_flag (dm_dv e v) = dv_added_flag (dm_dv d v)) \<and>
     (\<forall>v. conn_inv (dv_connection (dm_dv e v)) = conn_inv (dv_connection (dm_dv d v))) \<and>
     (queue_ok (dm_next_client d) (dm_dispatch_queue d) \<longrightarrow> queue_ok (dm_next_client d) (dm_dispatch_queue e))"

lemma same_core_refl [simp]: "same_core d d"
  by (simp add: same_core_def)

lemma same_core_trans: "same_core d e \<Longrightarrow> same_core e f \<Longrightarrow> same_core d f"
  by (simp add: same_core_def)

lemma same_core_inv: "same_core d e \<Longrightarrow> core_inv d \<Longrightarrow> core_inv e"
  by (simp add: same_core_def core_inv_def client_inv_def device_inv_def conns_inv_def registered_def)

lemma only_local_core: "only_local d e \<Longrightarrow> same_parties d e \<Longrightarrow> 0 < dm_next_client d \<Longrightarrow> same_core d e"
  by (auto simp: only_local_def same_parties_def same_core_def queue_ok_def list_all_iff local_client_def)

lemma core_next: "core_inv d \<Longrightarrow> 0 < dm_next_client d"
  by (simp add: core_inv_def client_inv_def)

lemma collect_core: "core_inv d \<Longrightarrow> core_inv (collect env d)"
  using only_local_core [OF collect_only] core_next same_core_inv by blast

lemma local_SendRequest_core: "core_inv d \<Longrightarrow> core_inv (local_SendRequest env rq d)"
  using only_local_core [OF local_SendRequest_only] core_next same_core_inv by blast

lemma collect_daemon: "obj_pre d \<Longrightarrow> core_inv d \<Longrightarrow> daemon_inv (collect env d)"
  by (simp add: daemon_inv_def collect_inv collect_core)

lemma same_daemon: "same_objs d e \<Longrightarrow> same_core d e \<Longrightarrow> daemon_inv d \<Longrightarrow> daemon_inv e"
  using same_core_inv by (auto simp: daemon_inv_def same_objs_inv)

section \<open>Clients come and go\<close>

lemma fresh_client_id_Some:
  "fresh_client_id n env d = Some (key, e) \<Longrightarrow> map_of (dm_clients d) key = None \<and> (\<exists>r. e = d\<lparr>dm_rng := r\<rparr>)"
proof (induction n arbitrary: d)
  case (Suc n)
  show ?case
  proof (cases "map_of (dm_clients d) (de_rng env (dm_rng d)) = None")
    case True
    with Suc.prems show ?thesis by (auto simp: draw_def)
  next
    case False
    with Suc.prems have "fresh_client_id n env (d\<lparr>dm_rng := dm_rng d + 1\<rparr>) = Some (key, e)" by (simp add: draw_def)
    from Suc.IH [OF this] show ?thesis by auto
  qed
qed simp

lemma queue_ok_client: "queue_ok n q \<Longrightarrow> j \<in> set q \<Longrightarrow> c \<in> set (job_client j) \<Longrightarrow> c < n"
  by (cases j) (auto simp: queue_ok_def split: option.splits)

lemma lives_bound: "client_inv d \<Longrightarrow> c \<in> lives d \<Longrightarrow> c < dm_next_client d"
  using queue_ok_client by (auto simp: client_inv_def lives_def local_client_def)

lemma frontend_accept_inv:
  assumes inv: "daemon_inv d" and acc: "frontend_accept n env d = Inr e"
  shows "daemon_inv e"
proof -
  let ?c = "dm_next_client d"
  let ?d = "d\<lparr>dm_cl := (dm_cl d)(?c := DClient_new env), dm_next_client := ?c + 1, dm_frontend_clients := dm_frontend_clients d @ [?c]\<rparr>"
  obtain key d1 where fr: "fresh_client_id n env ?d = Some (key, d1)"
    and e: "e = (mod_client ?c (\<lambda>cl. cl\<lparr>cl_client_id := key\<rparr>) d1)\<lparr>dm_clients := map_modify key (\<lambda>_. ?c) (map_emplace key ?c (dm_clients d1))\<rparr>"
    using acc by (auto simp: frontend_accept_def AddClient_def Let_def split: option.splits)
  from fresh_client_id_Some [OF fr] obtain r where none: "map_of (dm_clients d) key = None" and d1: "d1 = ?d\<lparr>dm_rng := r\<rparr>" by auto
  have c: "client_inv d" and dv: "device_inv d" and cn: "conns_inv d" and ob: "obj_inv d"
    using inv by (simp_all add: daemon_inv_def core_inv_def)
  have fresh: "?c \<notin> lives d" "?c \<noteq> local_client" "?c \<notin> set (dm_frontend_clients d)"
    using c lives_bound [OF c, of ?c] by (auto simp: client_inv_def local_client_def)
  have owned: "cl_owned_objects (dm_cl e x) = (if x = ?c then [] else cl_owned_objects (dm_cl d x))" for x
    by (simp add: e d1 mod_client_def DClient_new_def)
  have "lives e = insert ?c (lives d)" by (auto simp: lives_def e d1 mod_client_def)
  then have "(\<Union>c \<in> lives e. set (cl_owned_objects (dm_cl e c))) = (\<Union>c \<in> lives d. set (cl_owned_objects (dm_cl d c)))"
    using fresh(1) by (auto simp: owned split: if_splits)
  then have "held e = held d" by (simp add: held_def) (simp add: e d1 mod_client_def)
  then have "obj_inv e" using ob by (simp add: obj_inv_def obj_pre_def e d1 mod_client_def)
  moreover have "client_inv e"
  proof -
    have "map_of (dm_clients e) k = Some x \<longleftrightarrow> x \<in> insert local_client (set (dm_frontend_clients e)) \<and> cl_client_id (dm_cl e x) = k" for k x
    proof -
      have "map_of (dm_clients d) k = Some x \<longleftrightarrow> (x = local_client \<or> x \<in> set (dm_frontend_clients d)) \<and> cl_client_id (dm_cl d x) = k"
        using c registeredD by (simp add: client_inv_def)
      moreover have "map_ok (dm_clients d)" using c by (simp add: client_inv_def)
      ultimately show ?thesis using none fresh(2,3) by (auto simp: e d1 mod_client_def)
    qed
    then have "registered e" by (simp add: registered_def)
    moreover have "queue_ok (dm_next_client e) (dm_dispatch_queue e)"
      using c by (fastforce simp: client_inv_def queue_ok_def e d1 mod_client_def)
    ultimately show ?thesis
      using c fresh by (simp add: client_inv_def) (auto simp: e d1 mod_client_def)
  qed
  moreover have "device_inv e" using dv by (simp add: device_inv_def e d1 mod_client_def)
  moreover have "conns_inv e"
    using cn fresh(3) MessageConnection_new_inv by (auto simp: conns_inv_def e d1 mod_client_def DClient_new_def)
  ultimately show ?thesis by (simp add: daemon_inv_def core_inv_def)
qed

text \<open>An update of a client that keeps its id, its objects and the state of its connection.\<close>

lemma mod_client_same:
  assumes "\<And>cl. cl_client_id (f cl) = cl_client_id cl" "\<And>cl. cl_owned_objects (f cl) = cl_owned_objects cl"
  shows "same_objs d (mod_client c f d)"
    and "(\<And>cl. conn_inv (cl_connection cl) \<Longrightarrow> conn_inv (cl_connection (f cl))) \<Longrightarrow> core_inv d \<Longrightarrow> core_inv (mod_client c f d)"
proof -
  have owned: "cl_owned_objects (dm_cl (mod_client c f d) x) = cl_owned_objects (dm_cl d x)" for x
    using assms by (simp add: mod_client_def)
  show "same_objs d (mod_client c f d)"
    by (simp add: same_objs_def held_def owned) (simp add: mod_client_def lives_def)
  show "core_inv (mod_client c f d)" if "\<And>cl. conn_inv (cl_connection cl) \<Longrightarrow> conn_inv (cl_connection (f cl))" "core_inv d"
    using that assms by (simp add: core_inv_def client_inv_def device_inv_def conns_inv_def registered_def mod_client_def)
qed

lemma PostRequest_same:
  assumes "c \<in> lives d" and "dq_client rq = Some c"
  shows "same_objs d (PostRequest rq d)" "core_inv d \<Longrightarrow> core_inv (PostRequest rq d)"
proof -
  have "lives (PostRequest rq d) = lives d" using assms by (auto simp: lives_def PostRequest_def)
  then show "same_objs d (PostRequest rq d)" by (auto simp: same_objs_def held_def) (auto simp: PostRequest_def)
  assume inv: "core_inv d"
  then have "c < dm_next_client d" using assms(1) lives_bound by (simp add: core_inv_def)
  with inv assms(2) show "core_inv (PostRequest rq d)"
    by (auto simp: core_inv_def client_inv_def device_inv_def conns_inv_def PostRequest_def queue_ok_def registered_def)
qed

lemma daemon_inv_step:
  assumes "same_objs d e" and "core_inv d \<Longrightarrow> core_inv e" and "daemon_inv d"
  shows "daemon_inv e"
  using assms by (simp add: daemon_inv_def same_objs_inv)

lemma post_messages_inv:
  "daemon_inv d \<Longrightarrow> c \<in> set (dm_frontend_clients d) \<Longrightarrow>
    daemon_inv (fold (\<lambda>m. PostRequest (message_request c m)) ms d) \<and>
    dm_frontend_clients (fold (\<lambda>m. PostRequest (message_request c m)) ms d) = dm_frontend_clients d"
proof (induction ms arbitrary: d)
  case (Cons m ms)
  let ?d = "PostRequest (message_request c m) d"
  have "c \<in> lives d" using Cons.prems by (simp add: lives_def)
  then have "daemon_inv ?d"
    using PostRequest_same [of c d "message_request c m"] daemon_inv_step [of d ?d] Cons.prems(1) by (simp add: message_request_def)
  moreover have "dm_frontend_clients ?d = dm_frontend_clients d" by (simp add: PostRequest_def)
  ultimately show ?case using Cons.IH [of ?d] Cons.prems(2) by simp
qed simp

lemma remove_client_inv:
  assumes inv: "daemon_inv d" and c: "c \<in> set (dm_frontend_clients d)"
  shows "\<exists>e. RemoveClient c d = Inr e \<and>
    daemon_inv (collect env (e\<lparr>dm_frontend_clients := removeAll c (dm_frontend_clients e)\<rparr>))"
proof -
  let ?key = "cl_client_id (dm_cl d c)"
  let ?e = "d\<lparr>dm_clients := map_erase ?key (dm_clients d)\<rparr>"
  let ?f = "?e\<lparr>dm_frontend_clients := removeAll c (dm_frontend_clients ?e)\<rparr>"
  have ci: "client_inv d" and di: "device_inv d" and cn: "conns_inv d" and ob: "obj_pre d"
    using inv by (simp_all add: daemon_inv_def core_inv_def obj_inv_def)
  have reg: "map_of (dm_clients d) ?key = Some c" using ci c registeredD by (simp add: client_inv_def)
  have "held ?f \<subseteq> held d" by (auto simp: held_def lives_def)
  then have "obj_pre ?f" using obj_pre_less [OF ob] by simp
  moreover have "client_inv ?f"
  proof -
    have loc: "c \<noteq> local_client" and mok: "map_ok (dm_clients d)" using ci c by (auto simp: client_inv_def)
    have "map_of (dm_clients ?f) k = Some x \<longleftrightarrow> x \<in> insert local_client (set (dm_frontend_clients ?f)) \<and> cl_client_id (dm_cl ?f x) = k" for k x
    proof -
      have "map_of (dm_clients d) k = Some x \<longleftrightarrow> (x = local_client \<or> x \<in> set (dm_frontend_clients d)) \<and> cl_client_id (dm_cl d x) = k"
        using ci registeredD by (simp add: client_inv_def)
      then have "map_of (dm_clients d) k = Some x \<and> k \<noteq> ?key \<longleftrightarrow>
        (x = local_client \<or> x \<in> set (dm_frontend_clients d) - {c}) \<and> cl_client_id (dm_cl d x) = k"
        using reg loc c by (cases "x = c"; cases "k = ?key") auto
      then show ?thesis by (cases "k = ?key") (simp_all add: mok)
    qed
    then have "registered ?f" by (simp add: registered_def)
    then show ?thesis using ci by (simp add: client_inv_def distinct_removeAll)
  qed
  moreover have "device_inv ?f" "conns_inv ?f" using di cn by (auto simp: device_inv_def conns_inv_def)
  ultimately have "daemon_inv (collect env ?f)" using collect_daemon by (simp add: core_inv_def)
  then show ?thesis using reg by (simp add: RemoveClient_def Let_def)
qed

lemma collect_frontend [simp]: "dm_frontend_clients (collect env d) = dm_frontend_clients d"
  using collect_only(2) [of d env] by (simp add: same_parties_def)

lemma collect_parties [simp]:
  "dm_backend_devices (collect env d) = dm_backend_devices d" "dm_dv (collect env d) = dm_dv d" "dm_cl (collect env d) = dm_cl d"
  "dm_devices (collect env d) = dm_devices d" "dm_clients (collect env d) = dm_clients d"
  using collect_only(2) [of d env] by (simp_all add: same_parties_def)

lemma frontend_client_inv:
  assumes inv: "daemon_inv d" and c: "c \<in> set (dm_frontend_clients d)"
  shows "\<exists>e. frontend_client env c d = Inr e \<and> daemon_inv e \<and>
    set (dm_frontend_clients d) - {c} \<subseteq> set (dm_frontend_clients e) \<and> dm_backend_devices e = dm_backend_devices d"
proof -
  have "conn_inv (cl_connection (dm_cl d c))" using inv c by (simp add: daemon_inv_def core_inv_def conns_inv_def)
  from drain_frames [OF this] obtain ms conn where dr: "drain (cl_connection (dm_cl d c)) = Some (ms, conn)" and conn: "conn_inv conn"
    by blast
  let ?d1 = "mod_client c (\<lambda>cl. cl\<lparr>cl_connection := conn\<rparr>) d"
  let ?d2 = "fold (\<lambda>m. PostRequest (message_request c m)) ms ?d1"
  let ?d3 = "if mc_error_flag conn then mod_client c (\<lambda>cl. cl\<lparr>cl_deletion_flag := True\<rparr>) ?d2 else ?d2"
  have d1: "daemon_inv ?d1"
  proof (rule daemon_inv_step [OF _ _ inv])
    show "same_objs d ?d1" by (rule mod_client_same(1)) simp_all
    show "core_inv ?d1" if "core_inv d" using that by (rule mod_client_same(2) [rotated 3]) (simp_all add: conn)
  qed
  have d2: "daemon_inv ?d2" "dm_frontend_clients ?d2 = dm_frontend_clients d"
    using post_messages_inv [OF d1, of c ms] c by (simp_all add: mod_client_def)
  have "daemon_inv (mod_client c (\<lambda>cl. cl\<lparr>cl_deletion_flag := True\<rparr>) ?d2)"
  proof (rule daemon_inv_step [OF _ _ d2(1)])
    show "same_objs ?d2 (mod_client c (\<lambda>cl. cl\<lparr>cl_deletion_flag := True\<rparr>) ?d2)" by (rule mod_client_same(1)) simp_all
    show "core_inv (mod_client c (\<lambda>cl. cl\<lparr>cl_deletion_flag := True\<rparr>) ?d2)" if "core_inv ?d2"
      using that by (rule mod_client_same(2) [rotated 3]) simp_all
  qed
  with d2 have d3: "daemon_inv ?d3" "dm_frontend_clients ?d3 = dm_frontend_clients d" by (simp_all add: mod_client_def)
  have bk: "dm_backend_devices (fold (\<lambda>m. PostRequest (message_request c m)) ms x) = dm_backend_devices x" for x
    by (induction ms arbitrary: x) (simp_all add: PostRequest_def)
  have back3: "dm_backend_devices ?d3 = dm_backend_devices d" using bk by (simp add: mod_client_def)
  show ?thesis
  proof (cases "cl_deletion_flag (dm_cl ?d3 c)")
    case True
    from remove_client_inv [OF d3(1), of c env] c d3(2) obtain e where e: "RemoveClient c ?d3 = Inr e"
      "daemon_inv (collect env (e\<lparr>dm_frontend_clients := removeAll c (dm_frontend_clients e)\<rparr>))" by auto
    have fr: "dm_frontend_clients e = dm_frontend_clients ?d3" "dm_backend_devices e = dm_backend_devices ?d3"
      using e(1) by (auto simp: RemoveClient_def Let_def split: if_splits)
    have "frontend_client env c d = Inr (collect env (e\<lparr>dm_frontend_clients := removeAll c (dm_frontend_clients e)\<rparr>))"
      using True e(1) by (simp add: frontend_client_def dr Let_def)
    with e(2) fr d3(2) back3 show ?thesis by auto
  next
    case False
    then have "frontend_client env c d = Inr ?d3" by (simp add: frontend_client_def dr Let_def)
    with d3 back3 show ?thesis by auto
  qed
qed

lemma frontend_clients_inv:
  "daemon_inv d \<Longrightarrow> distinct cs \<Longrightarrow> set cs \<subseteq> set (dm_frontend_clients d) \<Longrightarrow>
    \<exists>e. frontend_clients env cs d = Inr e \<and> daemon_inv e"
proof (induction cs arbitrary: d)
  case (Cons c cs)
  then obtain e where e: "frontend_client env c d = Inr e" "daemon_inv e" "set (dm_frontend_clients d) - {c} \<subseteq> set (dm_frontend_clients e)"
    using frontend_client_inv [of d c env] by auto
  with Cons.prems have "distinct cs" "set cs \<subseteq> set (dm_frontend_clients e)" by auto
  from Cons.IH [OF e(2) this] e(1) show ?case by simp
qed simp

lemma frontend_Prepare_inv: "daemon_inv d \<Longrightarrow> \<exists>e. frontend_Prepare env d = Inr e \<and> daemon_inv e"
  using frontend_clients_inv [of d "dm_frontend_clients d" env]
  by (simp add: frontend_Prepare_def daemon_inv_def core_inv_def client_inv_def)

end
