(* ===== verification/DaemonSteps.thy ===== *)
theory DaemonSteps
  imports DaemonInv
begin

text \<open>
  The rest of the daemon's operations keep its invariants: the dispatch loop and the backend. Then the steps of the
  daemon as a relation, and its reachable states. A device is assumed to behave: once added it does not identify
  itself again, and a successful identification has the eight bytes of its size.
\<close>

section \<open>The dispatch loop\<close>

definition pre_inv :: "Daemon \<Rightarrow> bool" where
  "pre_inv d \<longleftrightarrow> obj_pre d \<and> core_inv d"

lemma daemon_pre: "daemon_inv d \<Longrightarrow> pre_inv d"
  by (simp add: daemon_inv_def pre_inv_def obj_inv_def)

lemma collect_pre: "pre_inv d \<Longrightarrow> daemon_inv (collect env d)"
  by (simp add: pre_inv_def collect_daemon)

text \<open>More references to live objects.\<close>

lemma obj_pre_more:
  assumes "obj_pre d" and "dm_objs e = dm_objs d" "dm_next_obj e = dm_next_obj d" "dm_closed e = dm_closed d"
    and "held e \<subseteq> held d \<union> A" and "\<forall>i \<in> A. bo_alive (dm_objs d i)"
  shows "obj_pre e"
proof -
  have "\<forall>i \<in> held e. bo_alive (dm_objs e i)"
    using assms by (auto simp: obj_pre_def)
  then show ?thesis using assms(1-4) by (simp add: obj_pre_def)
qed

lemma take_job:
  assumes "daemon_inv d" and k: "k < length (dm_dispatch_queue d)"
  defines "d1 \<equiv> d\<lparr>dm_dispatch_queue := take k (dm_dispatch_queue d) @ drop (Suc k) (dm_dispatch_queue d)\<rparr>"
  shows "pre_inv d1" "held d1 \<subseteq> held d"
proof -
  have q: "set (dm_dispatch_queue d1) \<subseteq> set (dm_dispatch_queue d)"
    by (auto simp: d1_def dest: in_set_takeD in_set_dropD)
  then have "lives d1 \<subseteq> lives d" by (fastforce simp: lives_def d1_def)
  with q show h: "held d1 \<subseteq> held d" by (fastforce simp: held_def d1_def)
  have "obj_pre d" "core_inv d" using assms(1) by (simp_all add: daemon_inv_def obj_inv_def)
  moreover have "queue_ok n (dm_dispatch_queue d) \<Longrightarrow> queue_ok n (dm_dispatch_queue d1)" for n
    using q by (auto simp: queue_ok_def)
  then have "same_core d d1" by (simp add: same_core_def d1_def)
  ultimately show "pre_inv d1" using obj_pre_less [of d d1] same_core_inv h by (simp add: pre_inv_def d1_def)
qed

lemma queue_head:
  assumes "daemon_inv d" and k: "k < length (dm_dispatch_queue d)"
  shows "dm_dispatch_queue d ! k = JobRequest rq \<Longrightarrow> \<exists>c. dq_client rq = Some c \<and> c < dm_next_client d \<and>
      (\<forall>i \<in> set (cl_owned_objects (dm_cl d c)). bo_alive (dm_objs d i))"
    and "dm_dispatch_queue d ! k = JobResponse rs \<Longrightarrow> \<forall>i \<in> set (dr_objects rs). bo_alive (dm_objs d i)"
proof -
  have alive: "\<forall>i \<in> held d. bo_alive (dm_objs d i)" and q: "queue_ok (dm_next_client d) (dm_dispatch_queue d)"
    using assms(1) by (simp_all add: daemon_inv_def obj_inv_def obj_pre_def core_inv_def client_inv_def)
  have mem: "dm_dispatch_queue d ! k \<in> set (dm_dispatch_queue d)" using k by simp
  {
    assume j: "dm_dispatch_queue d ! k = JobRequest rq"
    with q mem obtain c where c: "dq_client rq = Some c" "c < dm_next_client d" by (auto simp: queue_ok_def)
    then have "c \<in> lives d" using j mem by (auto simp: lives_def intro!: bexI [of _ "JobRequest rq"])
    then have "set (cl_owned_objects (dm_cl d c)) \<subseteq> held d" by (auto simp: held_def)
    with alive c show "\<exists>c. dq_client rq = Some c \<and> c < dm_next_client d \<and>
      (\<forall>i \<in> set (cl_owned_objects (dm_cl d c)). bo_alive (dm_objs d i))" by auto
  next
    assume j: "dm_dispatch_queue d ! k = JobResponse rs"
    then have "set (dr_objects rs) \<subseteq> held d" using mem by (auto simp: held_def intro!: bexI [of _ "JobResponse rs"])
    with alive show "\<forall>i \<in> set (dr_objects rs). bo_alive (dm_objs d i)" by auto
  }
qed

lemma PostResponse_pre:
  assumes "pre_inv d" and "\<forall>i \<in> set (dr_objects rs). bo_alive (dm_objs d i)"
  shows "pre_inv (PostResponse rs d)"
proof -
  have "held (PostResponse rs d) \<subseteq> held d \<union> set (dr_objects rs)" by (auto simp: held_def lives_def PostResponse_def)
  then have "obj_pre (PostResponse rs d)"
    by (rule obj_pre_more [of d _ "set (dr_objects rs)", rotated 4]) (use assms in \<open>simp_all add: pre_inv_def PostResponse_def\<close>)
  moreover have "same_core d (PostResponse rs d)" by (auto simp: same_core_def PostResponse_def queue_ok_def)
  ultimately show ?thesis using assms(1) same_core_inv by (auto simp: pre_inv_def)
qed

lemma respond_error_Some:
  "dq_client rq = Some c \<Longrightarrow> \<exists>r. respond_error code rq d = Inr r \<and> dr_objects r = [] \<and>
    dr_client_id r = cl_client_id (dm_cl d c) \<and> dr_tag r = dq_tag rq \<and> dr_result_code r = code"
  by (simp add: respond_error_def)

text \<open>An update of a device that keeps its id, its flag and its objects.\<close>

lemma mod_device_same:
  assumes "\<And>dv. dv_device_id (f dv) = dv_device_id dv" "\<And>dv. dv_added_flag (f dv) = dv_added_flag dv"
    and "\<And>dv. dv_response_in (f dv) = dv_response_in dv"
  shows "same_objs d (mod_device v f d)"
    and "(\<And>dv. conn_inv (dv_connection dv) \<Longrightarrow> conn_inv (dv_connection (f dv))) \<Longrightarrow> core_inv d \<Longrightarrow> core_inv (mod_device v f d)"
proof -
  have "dv_response_in (dm_dv (mod_device v f d) x) = dv_response_in (dm_dv d x)" for x
    using assms by (simp add: mod_device_def)
  then show "same_objs d (mod_device v f d)"
    by (simp add: same_objs_def held_def) (simp add: mod_device_def lives_def)
  have "dv_device_id (dm_dv (mod_device v f d) x) = dv_device_id (dm_dv d x)"
    "dv_added_flag (dm_dv (mod_device v f d) x) = dv_added_flag (dm_dv d x)" for x
    using assms by (simp_all add: mod_device_def)
  then show "core_inv (mod_device v f d)" if "\<And>dv. conn_inv (dv_connection dv) \<Longrightarrow> conn_inv (dv_connection (f dv))" "core_inv d"
    using that by (simp add: core_inv_def client_inv_def device_inv_def conns_inv_def registered_def) (simp add: mod_device_def)
qed

lemma pre_inv_step: "same_objs d e \<Longrightarrow> (core_inv d \<Longrightarrow> core_inv e) \<Longrightarrow> pre_inv d \<Longrightarrow> pre_inv e"
  by (simp add: pre_inv_def same_objs_def obj_pre_def)

lemma SendMessage_conn [simp]: "conn_inv (SendMessage mh p ids c) = conn_inv c"
  by (simp add: SendMessage_def conn_inv_output)

lemma device_SendRequest_pre: "pre_inv d \<Longrightarrow> pre_inv (device_SendRequest env v rq d)"
  unfolding device_SendRequest_def
  by (rule pre_inv_step, rule mod_device_same(1), simp_all, rule mod_device_same(2), simp_all)

lemma connect_device_pre:
  assumes "pre_inv d"
  shows "pre_inv (connect_device env d)"
proof -
  let ?v = "dm_next_device d"
  let ?d = "d\<lparr>dm_dv := (dm_dv d)(?v := DDevice_new env), dm_next_device := ?v + 1, dm_backend_devices := dm_backend_devices d @ [?v]\<rparr>"
  have fresh: "?v \<notin> set (dm_backend_devices d)" and di: "device_inv d" and cn: "conns_inv d" and ci: "client_inv d" and ob: "obj_pre d"
    using assms by (auto simp: pre_inv_def core_inv_def device_inv_def)
  then have "\<forall>v \<in> set (dm_backend_devices d). dm_dv ?d v = dm_dv d v" by auto
  then have "held ?d \<subseteq> held d" by (auto simp: held_def lives_def DDevice_new_def DResponse_empty_def)
  then have "obj_pre ?d" using obj_pre_less [OF ob] by simp
  moreover have "map_of (dm_devices d) k \<noteq> Some ?v" for k using fresh di by (auto simp: device_inv_def)
  then have "device_inv ?d" using di fresh by (auto simp: device_inv_def less_SucI)
  moreover have "conns_inv ?d" using cn fresh MessageConnection_new_inv by (auto simp: conns_inv_def DDevice_new_def)
  moreover have "client_inv ?d" using ci by (simp add: client_inv_def registered_def)
  ultimately have "pre_inv ?d" by (simp add: pre_inv_def core_inv_def)
  then show ?thesis using device_SendRequest_pre by (simp add: connect_device_def Let_def)
qed

lemma list_devices_Inr: "(\<forall>e \<in> set es. live_device (snd e) d) \<Longrightarrow> \<exists>packs. list_devices d es = Inr packs"
  by (induction es) auto

lemma devices_live: "pre_inv d \<Longrightarrow> \<forall>e \<in> set (dm_devices d). live_device (snd e) d"
  by (auto simp: pre_inv_def core_inv_def device_inv_def live_device_def map_of_mem)

text \<open>The daemon answers every request for its own object, with the client's id, the tag and no objects.\<close>

lemma HandleRequest_Inr:
  assumes "pre_inv d" and c: "dq_client rq = Some c"
  shows "\<exists>r e. HandleRequest env rq d = Inr (r, e) \<and> pre_inv e \<and> dr_objects r = [] \<and>
    dr_client_id r = cl_client_id (dm_cl d c) \<and> dr_tag r = dq_tag rq \<and> dm_cl e = dm_cl d \<and> dm_dispatch_queue e = dm_dispatch_queue d"
proof -
  obtain packs where "list_devices d (dm_devices d) = Inr packs" using list_devices_Inr devices_live assms(1) by blast
  moreover have "dm_cl (connect_device env d) = dm_cl d" "dm_dispatch_queue (connect_device env d) = dm_dispatch_queue d"
    by (simp_all add: connect_device_def Let_def device_SendRequest_def mod_device_def)
  ultimately show ?thesis using assms connect_device_pre
    by (simp add: HandleRequest_def respond_error_def split: option.splits)
qed

lemma fold_invalidate:
  "\<exists>os. fold (\<lambda>i. mod_obj i (\<lambda>ob. ob\<lparr>bo_valid := False\<rparr>)) is e = e\<lparr>dm_objs := os\<rparr> \<and>
    (\<forall>i. bo_alive (os i) = bo_alive (dm_objs e i)) \<and> (\<forall>i. i \<notin> set is \<longrightarrow> os i = dm_objs e i)"
proof (induction "is" arbitrary: e)
  case (Cons j "is")
  let ?e = "mod_obj j (\<lambda>ob. ob\<lparr>bo_valid := False\<rparr>) e"
  from Cons.IH [of ?e] obtain os where os: "fold (\<lambda>i. mod_obj i (\<lambda>ob. ob\<lparr>bo_valid := False\<rparr>)) is ?e = ?e\<lparr>dm_objs := os\<rparr>"
    "\<forall>i. bo_alive (os i) = bo_alive (dm_objs ?e i)" "\<forall>i. i \<notin> set is \<longrightarrow> os i = dm_objs ?e i" by blast
  show ?case by (rule exI [of _ os]) (use os in \<open>auto simp: mod_obj_def [of j]\<close>)
next
  case Nil
  show ?case by (rule exI [of _ "dm_objs e"]) simp
qed

lemma disown_pre:
  assumes pre: "pre_inv d" and alive: "\<forall>i \<in> set (cl_owned_objects (dm_cl d c)). bo_alive (dm_objs d i)"
  shows "pre_inv (disown c x d)"
proof -
  let ?close = "\<lambda>i. bo_object_id (dm_objs d i) = x"
  let ?is = "filter ?close (cl_owned_objects (dm_cl d c))"
  let ?d = "fold (\<lambda>i. mod_obj i (\<lambda>ob. ob\<lparr>bo_valid := False\<rparr>)) ?is d"
  from fold_invalidate [of ?is d] obtain os where os: "?d = d\<lparr>dm_objs := os\<rparr>" "\<forall>i. bo_alive (os i) = bo_alive (dm_objs d i)"
    "\<forall>i. i \<notin> set ?is \<longrightarrow> os i = dm_objs d i" by blast
  let ?e = "disown c x d"
  have e: "?e = mod_client c (\<lambda>cl. cl\<lparr>cl_owned_objects := filter (\<lambda>i. \<not> ?close i) (cl_owned_objects cl)\<rparr>) (d\<lparr>dm_objs := os\<rparr>)"
    using os(1) by (simp add: disown_def Let_def)
  have "set (cl_owned_objects (dm_cl ?e y)) \<subseteq> set (cl_owned_objects (dm_cl d y))" for y by (auto simp: e mod_client_def)
  then have "held ?e \<subseteq> held d" by (fastforce simp: held_def lives_def e mod_client_def)
  moreover have "bo_valid (os i) = bo_valid (dm_objs d i)" if "\<not> bo_alive (dm_objs d i)" for i
    using os(3) alive that by (metis filter_is_subset subset_code(1))
  moreover have "dm_objs ?e = os" "dm_closed ?e = dm_closed d" "dm_next_obj ?e = dm_next_obj d"
    by (simp_all add: e mod_client_def)
  ultimately have "obj_pre ?e" using pre os(2) by (auto simp: pre_inv_def obj_pre_def)
  moreover have "same_core d ?e" by (simp add: e mod_client_def same_core_def)
  ultimately show ?thesis using pre same_core_inv by (auto simp: pre_inv_def)
qed

lemma dispatch_request_pre:
  assumes pre: "pre_inv d" and c: "dq_client rq = Some c"
    and alive: "\<forall>i \<in> set (cl_owned_objects (dm_cl d c)). bo_alive (dm_objs d i)"
  shows "\<exists>e. dispatch_request env rq d = Inr e \<and> pre_inv e"
proof -
  from respond_error_Some [OF c] obtain r where r: "respond_error TWILI_ERR_PROTOCOL_UNRECOGNIZED_DEVICE rq d = Inr r" "dr_objects r = []"
    by blast
  from HandleRequest_Inr [OF pre c] obtain h e where h: "HandleRequest env rq d = Inr (h, e)" "pre_inv e" "dr_objects h = []" by blast
  show ?thesis
    using pre r h PostResponse_pre [of d r] PostResponse_pre [of e h] disown_pre [OF pre alive, of "dq_object_id rq"] device_SendRequest_pre
    by (simp add: dispatch_request_def c Let_def split: option.splits)
qed

lemma dispatch_response_pre:
  assumes pre: "pre_inv d" and alive: "\<forall>i \<in> set (dr_objects rs). bo_alive (dm_objs d i)"
  shows "pre_inv (dispatch_response env rs d)"
proof (cases "GetClient (dr_client_id rs) d")
  case None
  with pre show ?thesis by (simp add: dispatch_response_def)
next
  case (Some c)
  let ?d = "mod_client c (\<lambda>cl. cl\<lparr>cl_owned_objects := cl_owned_objects cl @ dr_objects rs\<rparr>) d"
  have "held ?d \<subseteq> held d \<union> set (dr_objects rs)" by (auto simp: held_def lives_def mod_client_def split: if_splits)
  then have "obj_pre ?d" by (rule obj_pre_more [of d _ "set (dr_objects rs)", rotated 4]) (use pre alive in \<open>simp_all add: pre_inv_def mod_client_def\<close>)
  moreover have "same_core d ?d" by (simp add: same_core_def mod_client_def)
  ultimately have d: "pre_inv ?d" using pre same_core_inv by (auto simp: pre_inv_def)
  have "pre_inv (local_PostResponse rs ?d)"
    using d by (rule pre_inv_step [rotated 2]) (simp_all add: local_PostResponse_def same_objs_def held_def lives_def
        core_inv_def client_inv_def device_inv_def conns_inv_def registered_def)
  moreover have "pre_inv (socket_PostResponse env c rs ?d)"
    unfolding socket_PostResponse_def
    using d by (rule pre_inv_step [rotated 2], intro mod_client_same(1)) (simp_all add: mod_client_same(2))
  ultimately show ?thesis by (cases "c = local_client") (simp_all add: dispatch_response_def Some client_PostResponse_def)
qed

lemma Process_inv:
  assumes inv: "daemon_inv d" and k: "k < length (dm_dispatch_queue d)"
  shows "\<exists>e. Process env k d = Inr e \<and> daemon_inv e"
proof -
  let ?d = "d\<lparr>dm_dispatch_queue := take k (dm_dispatch_queue d) @ drop (Suc k) (dm_dispatch_queue d)\<rparr>"
  note t = take_job [OF inv k]
  note q = queue_head [OF inv k]
  show ?thesis
  proof (cases "dm_dispatch_queue d ! k")
    case JobAwaken
    have "obj_inv ?d"
    proof -
      have q: "dm_dispatch_queue d = take k (dm_dispatch_queue d) @ JobAwaken # drop (Suc k) (dm_dispatch_queue d)"
        using k JobAwaken id_take_nth_drop by metis
      have "set (dm_dispatch_queue d) = insert JobAwaken (set (dm_dispatch_queue ?d))" by (subst q) auto
      then have "held ?d = held d" by (simp add: held_def lives_def)
      then show ?thesis using inv t(1) by (simp add: daemon_inv_def obj_inv_def pre_inv_def)
    qed
    with t(1) JobAwaken show ?thesis by (simp add: Process_def Let_def daemon_inv_def pre_inv_def)
  next
    case (JobRequest rq)
    from q(1) [OF this] obtain c where c: "dq_client rq = Some c" "\<forall>i \<in> set (cl_owned_objects (dm_cl ?d c)). bo_alive (dm_objs ?d i)"
      by auto
    from dispatch_request_pre [OF t(1) c] obtain e where "dispatch_request env rq ?d = Inr e" "pre_inv e" by blast
    with JobRequest show ?thesis by (simp add: Process_def Let_def collect_pre)
  next
    case (JobResponse rs)
    have "pre_inv (dispatch_response env rs ?d)" using dispatch_response_pre [OF t(1)] q(2) [OF JobResponse] by simp
    with JobResponse show ?thesis by (simp add: Process_def Let_def collect_pre)
  qed
qed

section \<open>Devices\<close>

lemma Daemon_self: "\<exists>os m. d = d\<lparr>dm_objs := os, dm_next_obj := m\<rparr>" for d :: Daemon
  by (rule exI [of _ "dm_objs d"], rule exI [of _ "dm_next_obj d"]) simp

lemma make_objects_pre:
  assumes "obj_pre d" and "\<forall>i \<in> set made. bo_alive (dm_objs d i)" and "make_objects n k ids made d = (ok, made', d')"
  shows "obj_pre d' \<and> (\<forall>i \<in> set made'. bo_alive (dm_objs d' i)) \<and> (\<forall>i. bo_alive (dm_objs d i) \<longrightarrow> bo_alive (dm_objs d' i)) \<and>
    (\<exists>os m. d' = d\<lparr>dm_objs := os, dm_next_obj := m\<rparr>)"
  using assms
proof (induction n k ids made d rule: make_objects.induct)
  case (1 k ids made d)
  then show ?case by (auto intro: Daemon_self)
next
  case (2 n k ids made d)
  let ?i = "dm_next_obj d"
  let ?d = "d\<lparr>dm_objs := (dm_objs d)(?i := \<lparr>bo_device_id = k, bo_object_id = word32 (take 4 ids), bo_valid = True, bo_alive = True\<rparr>),
    dm_next_obj := ?i + 1\<rparr>"
  show ?case
  proof (cases "length ids < 4")
    case True
    with 2(2-4) show ?thesis by (auto intro: Daemon_self)
  next
    case False
    have h: "held ?d = held d" by (simp add: held_def lives_def)
    have "i < ?i" if "bo_alive (dm_objs d i)" for i using 2(2) that by (simp add: obj_pre_def)
    then have "obj_pre ?d" using 2(2) unfolding obj_pre_def h by (auto simp: less_Suc_eq)
    moreover have "\<forall>i \<in> set (made @ [?i]). bo_alive (dm_objs ?d i)" using 2(3) by simp
    moreover have "make_objects n k (drop 4 ids) (made @ [?i]) ?d = (ok, made', d')" using 2(4) False by simp
    ultimately have "obj_pre d' \<and> (\<forall>i \<in> set made'. bo_alive (dm_objs d' i)) \<and> (\<forall>i. bo_alive (dm_objs ?d i) \<longrightarrow> bo_alive (dm_objs d' i)) \<and>
      (\<exists>os m. d' = ?d\<lparr>dm_objs := os, dm_next_obj := m\<rparr>)" by (rule 2(1) [OF False])
    then show ?thesis by auto
  qed
qed

text \<open>What a device that is not the update's keeps, and the connection and the flag of the one that is.\<close>

definition dv_frame :: "nat \<Rightarrow> Daemon \<Rightarrow> Daemon \<Rightarrow> bool" where
  "dv_frame v d e \<longleftrightarrow> (\<forall>w. w \<noteq> v \<longrightarrow> dm_dv e w = dm_dv d w) \<and> dm_backend_devices e = dm_backend_devices d \<and>
     dv_added_flag (dm_dv e v) = dv_added_flag (dm_dv d v) \<and> dv_connection (dm_dv e v) = dv_connection (dm_dv d v)"

lemma dv_frame_trans: "dv_frame v d e \<Longrightarrow> dv_frame v e f \<Longrightarrow> dv_frame v d f"
  by (simp add: dv_frame_def)

definition behaves :: "bool \<Rightarrow> Message \<Rightarrow> bool" where
  "behaves added m \<longleftrightarrow> mh_client_id (ms_mh m) = 0xffffffff \<longrightarrow>
     \<not> added \<and> (mh_command_id (ms_mh m) = 0 \<longrightarrow> 8 \<le> length (ms_payload m))"

lemma mod_device_inv:
  assumes "daemon_inv d" "\<And>dv. dv_device_id (f dv) = dv_device_id dv" "\<And>dv. dv_added_flag (f dv) = dv_added_flag dv"
    and "\<And>dv. dv_response_in (f dv) = dv_response_in dv" "\<And>dv. conn_inv (dv_connection dv) \<Longrightarrow> conn_inv (dv_connection (f dv))"
  shows "daemon_inv (mod_device v f d)"
  by (rule daemon_inv_step [OF mod_device_same(1) mod_device_same(2)]) (use assms in auto)

lemma Identified_inv:
  assumes inv: "daemon_inv d" and "\<not> dv_added_flag (dm_dv d v)" and "dr_result_code rs = 0 \<longrightarrow> 8 \<le> length (dr_payload rs)"
  shows "\<exists>e. Identified env v rs d = Inr e \<and> daemon_inv e \<and> dv_frame v d e"
proof (cases "dr_result_code rs = 0")
  case False
  then show ?thesis using mod_device_inv [OF inv, of "\<lambda>dv. dv\<lparr>dv_deletion_flag := True\<rparr>" v]
    by (simp add: Identified_def dv_frame_def mod_device_def)
next
  case True
  let ?id = "drop 8 (dr_payload rs)"
  let ?e = "mod_device v (\<lambda>dv. dv\<lparr>dv_identification := ?id, dv_device_id := de_hash env (de_serial_number env ?id), dv_ready_flag := True\<rparr>) d"
  have "map_of (dm_devices d) k \<noteq> Some v" for k
    using inv assms(2) by (auto simp: daemon_inv_def core_inv_def device_inv_def)
  then have "device_inv ?e" using inv by (auto simp: daemon_inv_def core_inv_def device_inv_def mod_device_def)
  moreover have "client_inv ?e" "conns_inv ?e"
    using inv by (auto simp: daemon_inv_def core_inv_def client_inv_def conns_inv_def registered_def mod_device_def)
  moreover have "dv_response_in (dm_dv ?e w) = dv_response_in (dm_dv d w)" for w by (simp add: mod_device_def)
  then have "held ?e = held d" by (simp add: held_def) (simp add: mod_device_def lives_def)
  then have "obj_inv ?e" using inv by (simp add: daemon_inv_def obj_inv_def obj_pre_def) (simp add: mod_device_def)
  ultimately show ?thesis using True assms(3) by (simp add: Identified_def Let_def daemon_inv_def core_inv_def dv_frame_def mod_device_def)
qed

lemma PostResponse_held:
  assumes "daemon_inv d" and "set (dr_objects rs) \<subseteq> held d"
  shows "daemon_inv (PostResponse rs d)"
proof -
  have "held (PostResponse rs d) = held d" using assms(2) by (auto simp: held_def lives_def PostResponse_def)
  then have "obj_inv (PostResponse rs d)" using assms(1) by (simp add: daemon_inv_def obj_inv_def obj_pre_def) (simp add: PostResponse_def)
  moreover have "\<forall>i \<in> held d. bo_alive (dm_objs d i)" using assms(1) by (simp add: daemon_inv_def obj_inv_def obj_pre_def)
  then have "pre_inv (PostResponse rs d)" using PostResponse_pre [OF daemon_pre [OF assms(1)]] assms(2) by blast
  ultimately show ?thesis by (simp add: daemon_inv_def pre_inv_def)
qed

lemma held_collect [simp]: "obj_pre d \<Longrightarrow> held (collect env d) = held d"
proof -
  have "distinct (dead_objects d)" "\<forall>i \<in> set (dead_objects d). bo_alive (dm_objs d i) \<and> i \<notin> held d"
    by (simp_all add: dead_objects_def)
  then show "obj_pre d \<Longrightarrow> ?thesis" using fold_destroy [of d "dead_objects d" env] unfolding collect_def by blast
qed

lemma IncomingMessage_inv:
  assumes inv: "daemon_inv d" and v: "v \<in> set (dm_backend_devices d)" and ok: "behaves (dv_added_flag (dm_dv d v)) m"
  shows "\<exists>e. IncomingMessage env v m d = Inr e \<and> daemon_inv e \<and> dv_frame v d e"
proof -
  let ?mh = "ms_mh m"
  let ?n = "unat (mh_object_count ?mh)"
  let ?old = "dr_objects (dv_response_in (dm_dv d v))"
  obtain enough made d1 where mk: "make_objects ?n (mh_client_id ?mh) (ms_object_ids m) [] d = (enough, made, d1)"
    by (metis prod_cases3)
  have pre: "obj_pre d" "core_inv d" using inv by (simp_all add: daemon_inv_def obj_inv_def)
  from make_objects_pre [OF pre(1) _ mk] obtain os nx where d1: "obj_pre d1" "\<forall>i \<in> set made. bo_alive (dm_objs d1 i)"
    "\<forall>i. bo_alive (dm_objs d i) \<longrightarrow> bo_alive (dm_objs d1 i)" "d1 = d\<lparr>dm_objs := os, dm_next_obj := nx\<rparr>" by auto
  define rs where "rs = \<lparr>dr_client_id = mh_client_id ?mh, dr_device_id = dv_device_id (dm_dv d v), dr_object_id = mh_object_id ?mh,
    dr_result_code = mh_command_id ?mh, dr_tag = mh_tag ?mh, dr_payload = ms_payload m,
    dr_objects = made @ take (?n - length made) (drop (length made) ?old)\<rparr>"
  let ?d = "mod_device v (\<lambda>dv. dv\<lparr>dv_response_in := rs\<rparr>) d1"
  have old: "set ?old \<subseteq> held d" using v by (auto simp: held_def)
  then have "\<forall>i \<in> set ?old. bo_alive (dm_objs d1 i)" using pre(1) d1(3) by (auto simp: obj_pre_def)
  then have alive: "\<forall>i \<in> set (dr_objects rs). bo_alive (dm_objs d1 i)"
    using d1(2) by (auto simp: rs_def dest: in_set_takeD in_set_dropD)
  have h: "held ?d \<subseteq> held d1 \<union> set (dr_objects rs)" "set (dr_objects rs) \<subseteq> held ?d"
    using v by (auto simp: held_def lives_def mod_device_def d1(4) split: if_splits)
  have "obj_pre ?d" by (rule obj_pre_more [OF d1(1) _ _ _ h(1) alive]) (simp_all add: mod_device_def)
  moreover have "same_core d ?d" by (simp add: same_core_def mod_device_def d1(4))
  ultimately have p: "pre_inv ?d" using pre(2) same_core_inv by (auto simp: pre_inv_def)
  let ?d2 = "collect env ?d"
  have d2: "daemon_inv ?d2" "dv_frame v d ?d2" "set (dr_objects rs) \<subseteq> held ?d2"
    using collect_pre [OF p] h(2) p by (simp_all add: dv_frame_def pre_inv_def) (simp_all add: mod_device_def d1(4))
  let ?d3 = "mod_device v (\<lambda>dv. dv\<lparr>dv_pending_requests := filter (\<lambda>w. wq_tag w \<noteq> dr_tag rs) (dv_pending_requests dv)\<rparr>) ?d2"
  have "same_objs ?d2 ?d3" by (rule mod_device_same(1)) simp_all
  then have h3: "set (dr_objects rs) \<subseteq> held ?d3" using d2(3) by (simp add: same_objs_def)
  have "daemon_inv ?d3" by (rule mod_device_inv [OF d2(1)]) simp_all
  moreover have "dv_frame v d ?d3" using d2(2) by (simp add: dv_frame_def mod_device_def)
  ultimately have d3: "daemon_inv ?d3" "dv_frame v d ?d3" "set (dr_objects rs) \<subseteq> held ?d3" using h3 by simp_all
  have im: "IncomingMessage env v m d = (if \<not> enough then Inr ?d2
      else if mh_client_id ?mh = 0xffffffff then Identified env v rs ?d3 else Inr (PostResponse rs ?d3))"
    by (simp add: IncomingMessage_def Let_def mk rs_def)
  consider "\<not> enough" | "enough" "mh_client_id ?mh = 0xffffffff" | "enough" "mh_client_id ?mh \<noteq> 0xffffffff" by blast
  then show ?thesis
  proof cases
    case 1
    with im have "IncomingMessage env v m d = Inr ?d2" by simp
    with d2(1,2) show ?thesis by blast
  next
    case 2
    have "\<not> dv_added_flag (dm_dv d v)" "mh_command_id ?mh = 0 \<longrightarrow> 8 \<le> length (ms_payload m)"
      using ok 2(2) by (simp_all add: behaves_def)
    then have "\<not> dv_added_flag (dm_dv ?d3 v)" "dr_result_code rs = 0 \<longrightarrow> 8 \<le> length (dr_payload rs)"
      using d3(2) by (simp_all add: dv_frame_def rs_def)
    from Identified_inv [OF d3(1) this] obtain e where e: "Identified env v rs ?d3 = Inr e" "daemon_inv e" "dv_frame v ?d3 e" by blast
    have "IncomingMessage env v m d = Inr e" unfolding im using 2 e(1) by simp
    with e(2) dv_frame_trans [OF d3(2) e(3)] show ?thesis by blast
  next
    case 3
    with im have "IncomingMessage env v m d = Inr (PostResponse rs ?d3)" by simp
    moreover have "dv_frame v d (PostResponse rs ?d3)" using d3(2) by (simp add: dv_frame_def PostResponse_def)
    ultimately show ?thesis using PostResponse_held [OF d3(1,3)] by blast
  qed
qed

lemma dv_frame_backend: "dv_frame v d e \<Longrightarrow> dm_backend_devices e = dm_backend_devices d \<and> dv_added_flag (dm_dv e v) = dv_added_flag (dm_dv d v)"
  by (simp add: dv_frame_def)

lemma incoming_messages_inv:
  "daemon_inv d \<Longrightarrow> v \<in> set (dm_backend_devices d) \<Longrightarrow> list_all (behaves (dv_added_flag (dm_dv d v))) ms \<Longrightarrow>
    \<exists>e. incoming_messages env v ms d = Inr e \<and> daemon_inv e \<and> dv_frame v d e"
proof (induction ms arbitrary: d)
  case (Cons m ms)
  then obtain d1 where d1: "IncomingMessage env v m d = Inr d1" "daemon_inv d1" "dv_frame v d d1"
    using IncomingMessage_inv [of d v m env] by auto
  with Cons.prems dv_frame_backend [OF d1(3)] obtain e where e: "incoming_messages env v ms d1 = Inr e" "daemon_inv e" "dv_frame v d1 e"
    using Cons.IH [of d1] by auto
  have "dv_frame v d e" by (rule dv_frame_trans [OF d1(3) e(3)])
  with d1(1) e(1,2) show ?case by simp
qed (simp add: dv_frame_def)

text \<open>A turn of the loop over the devices leaves the other devices as they are.\<close>

definition other_devices :: "nat \<Rightarrow> Daemon \<Rightarrow> Daemon \<Rightarrow> bool" where
  "other_devices v d e \<longleftrightarrow> (\<forall>w. w \<noteq> v \<longrightarrow> dm_dv e w = dm_dv d w) \<and> set (dm_backend_devices d) - {v} \<subseteq> set (dm_backend_devices e)"

lemma other_devices_trans: "other_devices v d e \<Longrightarrow> other_devices v e f \<Longrightarrow> other_devices v d f"
  by (auto simp: other_devices_def)

lemma dv_frame_other: "dv_frame v d e \<Longrightarrow> other_devices v d e"
  by (auto simp: dv_frame_def other_devices_def)

lemma remove_device_inv:
  assumes inv: "daemon_inv d" and v: "v \<in> set (dm_backend_devices d)"
  defines "d1 \<equiv> if dv_added_flag (dm_dv d v) then RemoveDevice v d else d"
  shows "daemon_inv (collect env (d1\<lparr>dm_backend_devices := removeAll v (dm_backend_devices d1)\<rparr>))"
proof -
  let ?e = "d1\<lparr>dm_backend_devices := removeAll v (dm_backend_devices d1)\<rparr>"
  have ob: "obj_pre d" and di: "device_inv d" and ci: "client_inv d" and cn: "conns_inv d"
    using inv by (simp_all add: daemon_inv_def core_inv_def obj_inv_def)
  have eqs: "dm_cl d1 = dm_cl d" "dm_dv d1 = dm_dv d" "dm_backend_devices d1 = dm_backend_devices d" "dm_objs d1 = dm_objs d"
    "dm_dispatch_queue d1 = dm_dispatch_queue d" "dm_frontend_clients d1 = dm_frontend_clients d" "dm_clients d1 = dm_clients d"
    "dm_next_obj d1 = dm_next_obj d" "dm_closed d1 = dm_closed d" "dm_next_client d1 = dm_next_client d" "dm_next_device d1 = dm_next_device d"
    by (simp_all add: d1_def RemoveDevice_def)
  have "held ?e \<subseteq> held d" by (auto simp: held_def lives_def eqs)
  then have "obj_pre ?e" using obj_pre_less [OF ob] by (simp add: eqs)
  moreover have "client_inv ?e" "conns_inv ?e"
    using ci cn by (simp_all add: client_inv_def conns_inv_def registered_def eqs)
  moreover have "device_inv ?e"
  proof -
    have "map_ok (dm_devices d1)" using di by (simp add: d1_def RemoveDevice_def device_inv_def)
    moreover have "w \<in> set (dm_backend_devices d) - {v} \<and> dv_device_id (dm_dv d w) = k \<and> dv_added_flag (dm_dv d w)"
      if "map_of (dm_devices d1) k = Some w" for k w
    proof -
      from that have m: "map_of (dm_devices d) k = Some w" and k: "dv_added_flag (dm_dv d v) \<longrightarrow> k \<noteq> dv_device_id (dm_dv d v)"
        by (auto simp: d1_def RemoveDevice_def split: if_splits)
      from m di have w: "w \<in> set (dm_backend_devices d)" "dv_device_id (dm_dv d w) = k" "dv_added_flag (dm_dv d w)"
        by (auto simp: device_inv_def)
      with k show ?thesis by auto
    qed
    ultimately show ?thesis using di by (simp add: device_inv_def eqs distinct_removeAll)
  qed
  ultimately show ?thesis by (intro collect_daemon) (simp_all add: core_inv_def)
qed

lemma add_device_inv:
  assumes inv: "daemon_inv d" and v: "v \<in> set (dm_backend_devices d)"
  shows "daemon_inv (mod_device v (\<lambda>dv. dv\<lparr>dv_added_flag := True\<rparr>) (AddDevice env v d))"
    and "dm_backend_devices (AddDevice env v d) = dm_backend_devices d" "dm_dv (AddDevice env v d) = dm_dv d"
proof -
  let ?key = "dv_device_id (dm_dv d v)"
  let ?m = "map_modify ?key (\<lambda>_. v) (map_emplace ?key v (dm_devices d))"
  let ?set = "\<lambda>d. mod_device v (\<lambda>dv. dv\<lparr>dv_added_flag := True\<rparr>) d"
  have ob: "obj_inv d" and di: "device_inv d" and ci: "client_inv d" and cn: "conns_inv d"
    using inv by (simp_all add: daemon_inv_def core_inv_def)
  have marked: "daemon_inv (?set (d\<lparr>dm_devices := m\<rparr>))"
    if m: "map_ok m" "\<And>k w. map_of m k = Some w \<Longrightarrow> w \<in> set (dm_backend_devices d) \<and> dv_device_id (dm_dv d w) = k \<and> (w = v \<or> dv_added_flag (dm_dv d w))" for m
  proof -
    let ?e = "?set (d\<lparr>dm_devices := m\<rparr>)"
    have "dv_response_in (dm_dv ?e x) = dv_response_in (dm_dv d x)" for x by (simp add: mod_device_def)
    then have "held ?e = held d" by (simp add: held_def) (simp add: mod_device_def lives_def)
    then have "same_objs d ?e" by (simp add: same_objs_def) (simp add: mod_device_def)
    then have "obj_inv ?e" using ob same_objs_inv by blast
    moreover have "client_inv ?e" "conns_inv ?e"
      using ci cn by (simp_all add: client_inv_def conns_inv_def registered_def mod_device_def)
    moreover have "device_inv ?e" using di m by (auto simp: device_inv_def mod_device_def)
    ultimately show ?thesis by (simp add: daemon_inv_def core_inv_def)
  qed
  have "map_ok ?m" using di by (simp add: device_inv_def)
  moreover have "w \<in> set (dm_backend_devices d) \<and> dv_device_id (dm_dv d w) = k \<and> (w = v \<or> dv_added_flag (dm_dv d w))"
    if "map_of ?m k = Some w" for k w
  proof -
    have "k = ?key \<and> w = v \<or> map_of (dm_devices d) k = Some w"
      using that di by (cases "k = ?key") (auto simp: device_inv_def split: option.splits)
    then show ?thesis using di v by (auto simp: device_inv_def)
  qed
  ultimately have won: "daemon_inv (?set (d\<lparr>dm_devices := ?m\<rparr>))" by (rule marked)
  have same: "daemon_inv (?set (d\<lparr>dm_devices := dm_devices d\<rparr>))"
    by (rule marked) (use di in \<open>auto simp: device_inv_def\<close>)
  have swap: "?set (local_SendRequest env rq x) = local_SendRequest env rq (?set x)" for rq x
    by (simp add: mod_device_def local_SendRequest_def draw_def PostRequest_def)
  have send: "daemon_inv (local_SendRequest env rq x)" if "daemon_inv x" for rq x
    by (rule daemon_inv_step [OF local_SendRequest_same _ that]) (rule local_SendRequest_core)
  show "daemon_inv (?set (AddDevice env v d))"
    using send [OF won] same by (simp add: AddDevice_def Let_def swap)
  show "dm_backend_devices (AddDevice env v d) = dm_backend_devices d" "dm_dv (AddDevice env v d) = dm_dv d"
    by (simp_all add: AddDevice_def Let_def local_SendRequest_def draw_def PostRequest_def)
qed

lemma backend_update_inv:
  assumes inv: "daemon_inv d" and v: "v \<in> set (dm_backend_devices d)"
  shows "daemon_inv (backend_update env v d) \<and> other_devices v d (backend_update env v d)"
proof -
  consider "dv_deletion_flag (dm_dv d v)" | "\<not> dv_deletion_flag (dm_dv d v)" "dv_ready_flag (dm_dv d v)" "\<not> dv_added_flag (dm_dv d v)"
    | "\<not> dv_deletion_flag (dm_dv d v)" "\<not> (dv_ready_flag (dm_dv d v) \<and> \<not> dv_added_flag (dm_dv d v))" by blast
  then show ?thesis
  proof cases
    case 1
    let ?d = "if dv_added_flag (dm_dv d v) then RemoveDevice v d else d"
    have "backend_update env v d = collect env (?d\<lparr>dm_backend_devices := removeAll v (dm_backend_devices ?d)\<rparr>)"
      using 1 by (simp add: backend_update_def Let_def)
    moreover have "other_devices v d (collect env (?d\<lparr>dm_backend_devices := removeAll v (dm_backend_devices ?d)\<rparr>))"
      by (simp add: other_devices_def RemoveDevice_def)
    ultimately show ?thesis using remove_device_inv [OF inv v, of env] by simp
  next
    case 2
    then have "backend_update env v d = mod_device v (\<lambda>dv. dv\<lparr>dv_added_flag := True\<rparr>) (AddDevice env v d)"
      by (simp add: backend_update_def Let_def)
    with add_device_inv [OF inv v, of env] show ?thesis by (simp add: other_devices_def mod_device_def)
  next
    case 3
    then have "backend_update env v d = d" by (auto simp: backend_update_def Let_def)
    with inv show ?thesis by (simp add: other_devices_def)
  qed
qed

definition device_behaves :: "Daemon \<Rightarrow> nat \<Rightarrow> bool" where
  "device_behaves d v \<longleftrightarrow>
    (case drain (dv_connection (dm_dv d v)) of None \<Rightarrow> True | Some (ms, _) \<Rightarrow> list_all (behaves (dv_added_flag (dm_dv d v))) ms)"

lemma backend_device_inv:
  assumes inv: "daemon_inv d" and v: "v \<in> set (dm_backend_devices d)" and ok: "device_behaves d v"
  shows "\<exists>e. backend_device env v d = Inr e \<and> daemon_inv e \<and> other_devices v d e"
proof -
  have "conn_inv (dv_connection (dm_dv d v))" using inv v by (simp add: daemon_inv_def core_inv_def conns_inv_def)
  from drain_frames [OF this] obtain ms conn where dr: "drain (dv_connection (dm_dv d v)) = Some (ms, conn)" and conn: "conn_inv conn"
    by blast
  let ?d1 = "mod_device v (\<lambda>dv. dv\<lparr>dv_connection := conn\<rparr>) d"
  have d1: "daemon_inv ?d1" by (rule mod_device_inv [OF inv]) (simp_all add: conn)
  have "list_all (behaves (dv_added_flag (dm_dv ?d1 v))) ms" "v \<in> set (dm_backend_devices ?d1)"
    using ok dr v by (simp_all add: device_behaves_def mod_device_def)
  from incoming_messages_inv [OF d1 this(2) this(1), of env] obtain d2 where
    d2: "incoming_messages env v ms ?d1 = Inr d2" "daemon_inv d2" "dv_frame v ?d1 d2" by blast
  let ?d3 = "if mc_error_flag (dv_connection (dm_dv d2 v)) then mod_device v (\<lambda>dv. dv\<lparr>dv_deletion_flag := True\<rparr>) d2 else d2"
  have "daemon_inv (mod_device v (\<lambda>dv. dv\<lparr>dv_deletion_flag := True\<rparr>) d2)" by (rule mod_device_inv [OF d2(2)]) simp_all
  with d2(2) have d3: "daemon_inv ?d3" by simp
  have o3: "other_devices v d ?d3" "v \<in> set (dm_backend_devices ?d3)"
    using d2(3) v by (auto simp: other_devices_def dv_frame_def mod_device_def)
  have "backend_device env v d = Inr (backend_update env v ?d3)" by (simp add: backend_device_def dr d2(1))
  with backend_update_inv [OF d3 o3(2), of env] other_devices_trans [OF o3(1)] show ?thesis by blast
qed

lemma backend_devices_inv:
  "daemon_inv d \<Longrightarrow> distinct vs \<Longrightarrow> set vs \<subseteq> set (dm_backend_devices d) \<Longrightarrow> \<forall>v \<in> set vs. device_behaves d v \<Longrightarrow>
    \<exists>e. backend_devices env vs d = Inr e \<and> daemon_inv e"
proof (induction vs arbitrary: d)
  case (Cons v vs)
  then obtain e where e: "backend_device env v d = Inr e" "daemon_inv e" "other_devices v d e"
    using backend_device_inv [of d v env] by auto
  have "set vs \<subseteq> set (dm_backend_devices e)" using e(3) Cons.prems(2,3) by (auto simp: other_devices_def)
  moreover have "device_behaves e w = device_behaves d w" if "w \<in> set vs" for w
  proof -
    have "w \<noteq> v" using that Cons.prems(2) by auto
    then have "dm_dv e w = dm_dv d w" using e(3) by (simp add: other_devices_def)
    then show ?thesis unfolding device_behaves_def by (simp only:)
  qed
  ultimately show ?case using Cons.IH [OF e(2)] Cons.prems(2,4) e(1) by simp
qed simp

lemma backend_Prepare_inv:
  "daemon_inv d \<Longrightarrow> \<forall>v \<in> set (dm_backend_devices d). device_behaves d v \<Longrightarrow> \<exists>e. backend_Prepare env d = Inr e \<and> daemon_inv e"
  using backend_devices_inv [of d "dm_backend_devices d" env]
  by (simp add: backend_Prepare_def daemon_inv_def core_inv_def device_inv_def)

end
