(* ===== verification/DaemonProps.thy ===== *)
theory DaemonProps
  imports DaemonSteps
begin

text \<open>
  The daemon as a state machine: its steps are the events of its threads, in any order. The properties hold in
  every state that it reaches.
\<close>

section \<open>Steps\<close>

definition client_conn :: "nat \<Rightarrow> MessageConnection \<Rightarrow> Daemon \<Rightarrow> Daemon" where
  "client_conn c conn d = mod_client c (\<lambda>cl. cl\<lparr>cl_connection := conn\<rparr>) d"

definition device_conn :: "nat \<Rightarrow> MessageConnection \<Rightarrow> Daemon \<Rightarrow> Daemon" where
  "device_conn v conn d = mod_device v (\<lambda>dv. dv\<lparr>dv_connection := conn\<rparr>) d"

text \<open>What happens on a socket: bytes arrive, bytes are sent, or there is an error.\<close>

inductive socket_event :: "MessageConnection \<Rightarrow> MessageConnection \<Rightarrow> bool" where
  readable: "length got \<le> fst (Reserve (mc_in_buffer c) 8192) \<Longrightarrow> socket_event c (socket_SignalRead got c)"
| writable: "sent \<le> int (ReadAvailable (mc_out_buffer c)) \<Longrightarrow> socket_event c (socket_SignalWrite sent c)"
| failed: "socket_event c (socket_SignalError c)"

inductive daemon_step :: "DEnv \<Rightarrow> Daemon \<Rightarrow> Daemon \<Rightarrow> bool" for env where
  accept: "frontend_accept n env d = Inr e \<Longrightarrow> daemon_step env d e"
| client_socket: "c \<in> set (dm_frontend_clients d) \<Longrightarrow> socket_event (cl_connection (dm_cl d c)) conn \<Longrightarrow>
    daemon_step env d (client_conn c conn d)"
| clients: "frontend_Prepare env d = Inr e \<Longrightarrow> daemon_step env d e"
| connect: "daemon_step env d (connect_device env d)"
| device_socket: "v \<in> set (dm_backend_devices d) \<Longrightarrow> socket_event (dv_connection (dm_dv d v)) conn \<Longrightarrow>
    daemon_step env d (device_conn v conn d)"
| devices: "\<forall>v \<in> set (dm_backend_devices d). device_behaves d v \<Longrightarrow> backend_Prepare env d = Inr e \<Longrightarrow> daemon_step env d e"
| wake: "daemon_step env d (Awaken d)"
| job: "k < length (dm_dispatch_queue d) \<Longrightarrow> Process env k d = Inr e \<Longrightarrow> daemon_step env d e"

inductive daemon_reachable :: "DEnv \<Rightarrow> Daemon \<Rightarrow> bool" for env where
  start: "Daemon_new n env = Inr d \<Longrightarrow> daemon_reachable env d"
| step: "daemon_reachable env d \<Longrightarrow> daemon_step env d e \<Longrightarrow> daemon_reachable env e"

inductive_cases socket_eventE: "socket_event c conn"

lemma socket_event_inv: "socket_event c conn \<Longrightarrow> conn_inv c \<Longrightarrow> conn_inv conn"
  by (erule socket_eventE)
    (auto simp: SignalRead_pending socket_SignalWrite_def socket_SignalError_def conn_inv_output)

lemma connect_device_inv: "daemon_inv d \<Longrightarrow> daemon_inv (connect_device env d)"
proof -
  assume inv: "daemon_inv d"
  let ?e = "connect_device env d"
  have fresh: "dm_next_device d \<notin> set (dm_backend_devices d)" using inv by (auto simp: daemon_inv_def core_inv_def device_inv_def)
  have "dr_objects (dv_response_in (dm_dv ?e v)) = (if v = dm_next_device d then [] else dr_objects (dv_response_in (dm_dv d v)))" for v
    by (simp add: connect_device_def Let_def device_SendRequest_def mod_device_def DDevice_new_def DResponse_empty_def)
  then have "held ?e = held d" using fresh
    by (auto simp: held_def split: if_splits) (auto simp: connect_device_def Let_def device_SendRequest_def mod_device_def lives_def)
  then have "same_objs d ?e" by (simp add: same_objs_def) (simp add: connect_device_def Let_def device_SendRequest_def mod_device_def)
  moreover have "core_inv ?e" using connect_device_pre [OF daemon_pre [OF inv]] by (simp add: pre_inv_def)
  ultimately show ?thesis using daemon_inv_step [OF _ _ inv] by blast
qed

lemma Awaken_inv: "daemon_inv d \<Longrightarrow> daemon_inv (Awaken d)"
proof (rule daemon_inv_step)
  show "same_objs d (Awaken d)" by (simp add: same_objs_def held_def lives_def Awaken_def)
  have "same_core d (Awaken d)" by (auto simp: same_core_def Awaken_def queue_ok_def)
  then show "core_inv d \<Longrightarrow> core_inv (Awaken d)" by (rule same_core_inv)
qed

lemma daemon_step_inv: "daemon_step env d e \<Longrightarrow> daemon_inv d \<Longrightarrow> daemon_inv e"
proof (induction rule: daemon_step.induct)
  case (accept n d e)
  then show ?case using frontend_accept_inv by blast
next
  case (client_socket c d conn)
  then have "conn_inv conn" using socket_event_inv by (simp add: daemon_inv_def core_inv_def conns_inv_def)
  then show ?case unfolding client_conn_def
    by (intro daemon_inv_step [OF mod_client_same(1) mod_client_same(2) client_socket.prems]) auto
next
  case (clients d e)
  then show ?case using frontend_Prepare_inv [of d env] by auto
next
  case (connect d)
  then show ?case by (rule connect_device_inv)
next
  case (device_socket v d conn)
  then have "conn_inv conn" using socket_event_inv by (simp add: daemon_inv_def core_inv_def conns_inv_def)
  then show ?case unfolding device_conn_def by (intro mod_device_inv [OF device_socket.prems]) auto
next
  case (devices d e)
  then show ?case using backend_Prepare_inv [OF devices.prems devices.hyps(1), of env] by auto
next
  case (wake d)
  then show ?case by (rule Awaken_inv)
next
  case (job k d e)
  then show ?case using Process_inv [of d k env] by auto
qed

lemma Daemon_start_facts: "Daemon_new n env = Inr d \<Longrightarrow> daemon_inv d"
proof -
  assume new: "Daemon_new n env = Inr d"
  let ?s = "Daemon_start env"
  obtain key d1 where fr: "fresh_client_id n env ?s = Some (key, d1)"
    and d: "d = (mod_client local_client (\<lambda>cl. cl\<lparr>cl_client_id := key\<rparr>) d1)\<lparr>dm_clients := map_modify key (\<lambda>_. local_client) (map_emplace key local_client (dm_clients d1))\<rparr>"
    using new by (auto simp: Daemon_new_def AddClient_def split: option.splits)
  from fresh_client_id_Some [OF fr] obtain r where d1: "d1 = ?s\<lparr>dm_rng := r\<rparr>" by auto
  have eq: "dm_clients d = [(key, local_client)]" "dm_dispatch_queue d = []" "dm_frontend_clients d = []" "dm_backend_devices d = []"
    "dm_devices d = []" "dm_next_client d = 1" "dm_next_obj d = 0" "dm_closed d = []" "cl_owned_objects (dm_cl d c) = []"
    "cl_client_id (dm_cl d local_client) = key" "bo_alive (dm_objs d i) = False" for c i
    by (simp_all add: d d1 Daemon_start_def mod_client_def map_modify_def DClient_new_def)
  have "held d = {}" by (simp add: held_def eq)
  then have "obj_inv d" by (simp add: obj_inv_def obj_pre_def eq)
  moreover have "core_inv d"
    by (auto simp: core_inv_def client_inv_def device_inv_def conns_inv_def registered_def queue_ok_def eq map_ok_def split: if_splits)
  ultimately show ?thesis by (simp add: daemon_inv_def)
qed

lemma daemon_reachable_inv: "daemon_reachable env d \<Longrightarrow> daemon_inv d"
  by (induction rule: daemon_reachable.induct) (auto intro: Daemon_start_facts daemon_step_inv)

section \<open>The requests that collecting sends\<close>

definition close_target :: "DRequest \<Rightarrow> u32 \<times> u32 \<times> u32" where
  "close_target rq = (dq_device_id rq, dq_object_id rq, dq_command_id rq)"

definition object_target :: "BridgeObject \<Rightarrow> u32 \<times> u32 \<times> u32" where
  "object_target ob = (bo_device_id ob, bo_object_id ob, CLOSE_COMMAND)"

lemma destroy_object_queue:
  "\<exists>cs. dm_dispatch_queue (destroy_object env i d) = dm_dispatch_queue d @ map JobRequest cs \<and>
    map close_target cs = (if bo_valid (dm_objs d i) then [object_target (dm_objs d i)] else [])"
proof -
  let ?rq = "(close_request (dm_objs d i))\<lparr>dq_tag := de_rng env (dm_rng d), dq_client := Some local_client\<rparr>"
  have "dm_dispatch_queue (destroy_object env i d) = dm_dispatch_queue d @ map JobRequest (if bo_valid (dm_objs d i) then [?rq] else [])"
    by (simp add: destroy_object_def Let_def mod_obj_def local_SendRequest_def draw_def PostRequest_def)
  moreover have "close_target ?rq = object_target (dm_objs d i)"
    by (simp add: close_target_def object_target_def close_request_def)
  ultimately show ?thesis by (intro exI [of _ "if bo_valid (dm_objs d i) then [?rq] else []"]) simp
qed

lemma fold_destroy_queue:
  "distinct is \<Longrightarrow> \<exists>cs. dm_dispatch_queue (fold (destroy_object env) is d) = dm_dispatch_queue d @ map JobRequest cs \<and>
    map close_target cs = map (\<lambda>i. object_target (dm_objs d i)) (filter (\<lambda>i. bo_valid (dm_objs d i)) is)"
proof (induction "is" arbitrary: d)
  case (Cons i "is")
  let ?d = "destroy_object env i d"
  obtain c1 where c1: "dm_dispatch_queue ?d = dm_dispatch_queue d @ map JobRequest c1"
    "map close_target c1 = (if bo_valid (dm_objs d i) then [object_target (dm_objs d i)] else [])"
    using destroy_object_queue by blast
  from Cons.IH [of ?d] Cons.prems obtain c2 where c2: "dm_dispatch_queue (fold (destroy_object env) is ?d) = dm_dispatch_queue ?d @ map JobRequest c2"
    "map close_target c2 = map (\<lambda>i. object_target (dm_objs ?d i)) (filter (\<lambda>i. bo_valid (dm_objs ?d i)) is)" by auto
  have same: "\<forall>j \<in> set is. dm_objs ?d j = dm_objs d j" using Cons.prems by (auto simp: destroy_object_eq)
  then have "filter (\<lambda>i. bo_valid (dm_objs ?d i)) is = filter (\<lambda>i. bo_valid (dm_objs d i)) is" by (auto cong: filter_cong)
  with same c2(2) have "map close_target c2 = map (\<lambda>i. object_target (dm_objs d i)) (filter (\<lambda>i. bo_valid (dm_objs d i)) is)" by simp
  with c1 c2(1) show ?case by (intro exI [of _ "c1 @ c2"]) simp
qed simp

lemma collect_queue:
  "\<exists>cs. dm_dispatch_queue (collect env d) = dm_dispatch_queue d @ map JobRequest cs \<and>
    map close_target cs = map (\<lambda>i. object_target (dm_objs d i)) (filter (\<lambda>i. bo_valid (dm_objs d i)) (dead_objects d))"
  using fold_destroy_queue [of "dead_objects d" env d] by (simp add: collect_def dead_objects_def)

section \<open>Properties\<close>

text \<open>An environment for the examples: the random numbers count up.\<close>

definition demo_header :: MessageHeader where
  "demo_header = \<lparr>mh_client_id = 0, mh_object_id = 0, mh_command_id = 0, mh_tag = 0, mh_payload_size = 0, mh_object_count = 0, mh_padding = 0\<rparr>"

definition demo_daemon_env :: DEnv where
  "demo_daemon_env = \<lparr>de_rng = (\<lambda>n. of_nat n + 7), de_hdr0 = demo_header, de_dump_devices = (\<lambda>_. [0x90]),
     de_serial_number = id, de_hash = (\<lambda>s. of_nat (length s)), de_connect = (\<lambda>_ _. None)\<rparr>"

definition demo_daemon :: Daemon where
  "demo_daemon = (case Daemon_new 1 demo_daemon_env of Inr d \<Rightarrow> Awaken d | Inl _ \<Rightarrow> Daemon_start demo_daemon_env)"

lemma demo_daemon_reachable: "daemon_reachable demo_daemon_env demo_daemon"
proof -
  obtain d where "Daemon_new 1 demo_daemon_env = Inr d"
    by (simp add: Daemon_new_def AddClient_def draw_def Daemon_start_def)
  then show ?thesis using daemon_reachable.start daemon_reachable.step daemon_step.wake by (fastforce simp: demo_daemon_def)
qed

lemma demo_daemon_queue: "dm_dispatch_queue demo_daemon = [JobAwaken]"
  by (simp add: demo_daemon_def Daemon_new_def AddClient_def draw_def Daemon_start_def Awaken_def mod_client_def)

text \<open>C3: the daemon does not fail. In every state that it reaches with devices that behave, whichever job it takes
  next, and on every turn of the loops over the clients and the devices, it dereferences no pointer that is null
  or has expired, erases no iterator past the end and overruns no buffer.\<close>

theorem daemon_safe:
  assumes "daemon_reachable env d"
  shows "(k < length (dm_dispatch_queue d) \<longrightarrow> (\<exists>e. Process env k d = Inr e)) \<and> (\<exists>e. frontend_Prepare env d = Inr e) \<and>
    ((\<forall>v \<in> set (dm_backend_devices d). device_behaves d v) \<longrightarrow> (\<exists>e. backend_Prepare env d = Inr e))"
proof -
  note inv = daemon_reachable_inv [OF assms]
  from Process_inv [OF inv, of k env] frontend_Prepare_inv [OF inv, of env] backend_Prepare_inv [OF inv, of env]
  show ?thesis by blast
qed

theorem daemon_safe_witness:
  "(\<exists>e. Process demo_daemon_env 0 demo_daemon = Inr e) \<and> (\<exists>e. frontend_Prepare demo_daemon_env demo_daemon = Inr e)"
  using daemon_safe [OF demo_daemon_reachable, of 0] by (simp add: demo_daemon_queue)



text \<open>Which requests the daemon answers itself.\<close>

definition answered_here :: "DRequest \<Rightarrow> Daemon \<Rightarrow> bool" where
  "answered_here rq d \<longleftrightarrow> dq_device_id rq = 0 \<or>
    (case map_of (dm_devices d) (dq_device_id rq) of None \<Rightarrow> True | Some v \<Rightarrow> dv_deletion_flag (dm_dv d v))"

lemma dispatch_request_answers:
  assumes pre: "pre_inv d" and c: "dq_client rq = Some c" and here: "answered_here rq d"
  shows "\<exists>r e. dispatch_request env rq d = Inr e \<and> dm_dispatch_queue e = dm_dispatch_queue d @ [JobResponse r] \<and>
    dr_client_id r = cl_client_id (dm_cl d c) \<and> dr_tag r = dq_tag rq \<and> dr_objects r = [] \<and>
    (dq_device_id rq \<noteq> 0 \<longrightarrow> dr_result_code r = TWILI_ERR_PROTOCOL_UNRECOGNIZED_DEVICE \<and> dm_dv e = dm_dv d)"
proof (cases "dq_device_id rq = 0")
  case True
  from HandleRequest_Inr [OF pre c, of env] obtain r e where "HandleRequest env rq d = Inr (r, e)" "dr_objects r = []"
    "dr_client_id r = cl_client_id (dm_cl d c)" "dr_tag r = dq_tag rq" "dm_dispatch_queue e = dm_dispatch_queue d" by blast
  with True c show ?thesis by (simp add: dispatch_request_def PostResponse_def)
next
  case False
  let ?r = "\<lparr>dr_client_id = cl_client_id (dm_cl d c), dr_device_id = dq_device_id rq, dr_object_id = dq_object_id rq,
    dr_result_code = TWILI_ERR_PROTOCOL_UNRECOGNIZED_DEVICE, dr_tag = dq_tag rq, dr_payload = [], dr_objects = []\<rparr>"
  have "dispatch_request env rq d = Inr (PostResponse ?r d)"
    using False here c by (auto simp: dispatch_request_def respond_error_def answered_here_def split: option.splits)
  then show ?thesis by (simp add: PostResponse_def)
qed

text \<open>C13: the daemon answers every request that it does not pass on. For a request for its own object, or for a
  device that it does not know or is about to remove, it posts exactly one response, with the id of the client
  and the tag of the request; apart from requests to close lost objects nothing else joins the queue. A request
  for an unknown device is answered with the code for that.\<close>

theorem daemon_answers:
  assumes "daemon_reachable env d" and "k < length (dm_dispatch_queue d)" and "dm_dispatch_queue d ! k = JobRequest rq"
    and "answered_here rq d"
  shows "\<exists>e r c cs. Process env k d = Inr e \<and> dq_client rq = Some c \<and>
    dm_dispatch_queue e = take k (dm_dispatch_queue d) @ drop (Suc k) (dm_dispatch_queue d) @ JobResponse r # map JobRequest cs \<and>
    list_all (\<lambda>q. dq_command_id q = CLOSE_COMMAND) cs \<and> dr_client_id r = cl_client_id (dm_cl d c) \<and> dr_tag r = dq_tag rq \<and>
    dr_objects r = [] \<and> (dq_device_id rq \<noteq> 0 \<longrightarrow> dr_result_code r = TWILI_ERR_PROTOCOL_UNRECOGNIZED_DEVICE)"
proof -
  note inv = daemon_reachable_inv [OF assms(1)]
  let ?d = "d\<lparr>dm_dispatch_queue := take k (dm_dispatch_queue d) @ drop (Suc k) (dm_dispatch_queue d)\<rparr>"
  from queue_head(1) [OF inv assms(2,3)] obtain c where c: "dq_client rq = Some c" by blast
  have "answered_here rq ?d" using assms(4) by (simp add: answered_here_def split: option.splits)
  from dispatch_request_answers [OF take_job(1) [OF inv assms(2)] c this, of env] obtain r e where
    e: "dispatch_request env rq ?d = Inr e" "dm_dispatch_queue e = dm_dispatch_queue ?d @ [JobResponse r]"
    "dr_client_id r = cl_client_id (dm_cl d c)" "dr_tag r = dq_tag rq" "dr_objects r = []"
    "dq_device_id rq \<noteq> 0 \<longrightarrow> dr_result_code r = TWILI_ERR_PROTOCOL_UNRECOGNIZED_DEVICE" by auto
  obtain cs where cs: "dm_dispatch_queue (collect env e) = dm_dispatch_queue e @ map JobRequest cs"
    "map close_target cs = map (\<lambda>i. object_target (dm_objs e i)) (filter (\<lambda>i. bo_valid (dm_objs e i)) (dead_objects e))"
    using collect_queue by blast
  have "list_all (\<lambda>q. dq_command_id q = CLOSE_COMMAND) cs"
  proof -
    have "close_target q \<in> (\<lambda>i. object_target (dm_objs e i)) ` UNIV" if "q \<in> set cs" for q
      using that arg_cong [OF cs(2), of set] by auto
    then show ?thesis by (force simp: list_all_iff close_target_def object_target_def)
  qed
  moreover have "Process env k d = Inr (collect env e)" using assms(3) e(1) by (simp add: Process_def Let_def)
  ultimately show ?thesis using c cs(1) e by (intro exI [of _ "collect env e"] exI [of _ r] exI [of _ c] exI [of _ cs]) simp
qed

lemma Reserve_unlimited_room: "unlimited b \<Longrightarrow> n \<le> fst (Reserve b n)"
  using Reserve_refine(5) [of b n "fst (Reserve b n)" "snd (Reserve b n)"] by (simp add: unlimited_def fits_def)

text \<open>A client that has connected and sent one message, of 32 bytes.\<close>

lemma drain_error_flag: "drain c = Some (ms, c') \<Longrightarrow> mc_error_flag c' = mc_error_flag c"
proof (induction c arbitrary: ms rule: drain.induct)
  case (1 c)
  have obj: "process_object_ids x = Some (b, y) \<Longrightarrow> mc_error_flag y = mc_error_flag x" for x b y
    by (auto simp: process_object_ids_def Let_def split: option.splits bool.splits)
  have pay: "process_payload x = Some (b, y) \<Longrightarrow> mc_error_flag y = mc_error_flag x" for x b y
    by (auto simp: process_payload_def Let_def split: if_splits option.splits bool.splits dest!: obj)
  have msg: "process_message x = Some (b, y) \<Longrightarrow> mc_error_flag y = mc_error_flag x" for x b y
    by (auto simp: process_message_def split: if_splits option.splits dest!: pay)
  from "1.prems" obtain b y where y: "process_message c = Some (b, y)" by (subst (asm) drain.simps) (auto split: option.splits)
  show ?case
  proof (cases b)
    case True
    with y "1.prems" obtain ms' where "drain y = Some (ms', c')" by (subst (asm) drain.simps) auto
    with "1.IH" y True msg [OF y] show ?thesis by fastforce
  next
    case False
    with y "1.prems" have "c' = y" by (subst (asm) drain.simps) auto
    with msg [OF y] show ?thesis by simp
  qed
qed

lemma drain_one:
  assumes "conn_inv c" "pending c = []" "msg_ok m" "length (msg_bytes m) \<le> fst (Reserve (mc_in_buffer c) 8192)" "\<not> mc_error_flag c"
  shows "\<exists>c2. drain (socket_SignalRead (msg_bytes m) c) = Some ([m], c2) \<and> \<not> mc_error_flag c2"
proof -
  let ?c1 = "socket_SignalRead (msg_bytes m) c"
  have c1: "conn_inv ?c1" "pending ?c1 = msg_bytes m" using SignalRead_pending [OF assms(1,4)] assms(2) by simp_all
  have "fst (frames (msg_bytes m)) = [m]" using frames_messages [of "[m]" "[]"] assms(3) by (simp add: whole_def)
  with drain_frames [OF c1(1)] c1(2) obtain c2 where dr: "drain ?c1 = Some ([m], c2)" by auto
  have "msg_bytes m \<noteq> []" by (metis length_0_conv length_append msg_bytes_def length_mh_bytes add_is_0 zero_neq_numeral)
  then have "mc_error_flag ?c1 = mc_error_flag c" by (simp add: socket_SignalRead_def Let_def)
  with dr drain_error_flag [OF dr] assms(5) show ?thesis by auto
qed

definition demo_message :: Message where
  "demo_message = \<lparr>ms_mh = demo_header\<lparr>mh_client_id := 5, mh_tag := 9\<rparr>, ms_payload = [], ms_object_ids = []\<rparr>"

lemma demo_request_reachable:
  "\<exists>d. daemon_reachable demo_daemon_env d \<and> dm_dispatch_queue d = [JobRequest (message_request 1 demo_message)] \<and> dm_devices d = [] \<and>
    dm_frontend_clients d = [1] \<and> cl_client_id (dm_cl d 1) = 8 \<and> dm_backend_devices d = [] \<and> \<not> cl_deletion_flag (dm_cl d 1) \<and> dm_next_obj d = 0"
proof -
  let ?env = demo_daemon_env
  obtain d0 where d0: "Daemon_new 1 ?env = Inr d0" "dm_clients d0 = [(7, 0)]" "dm_rng d0 = 1" "dm_next_client d0 = 1"
    "dm_frontend_clients d0 = []" "dm_dispatch_queue d0 = []" "dm_next_obj d0 = 0" "dm_devices d0 = []" "dm_backend_devices d0 = []"
    by (simp add: Daemon_new_def AddClient_def draw_def Daemon_start_def mod_client_def local_client_def map_modify_def demo_daemon_env_def)
  obtain d1 where d1: "frontend_accept 1 ?env d0 = Inr d1" "dm_frontend_clients d1 = [1]" "dm_dispatch_queue d1 = []" "dm_devices d1 = []"
    "dm_backend_devices d1 = []" "cl_connection (dm_cl d1 1) = MessageConnection_new demo_header" "cl_client_id (dm_cl d1 1) = 8"
    "cl_deletion_flag (dm_cl d1 1) = False" "dm_next_obj d1 = 0"
    using d0 by (simp add: frontend_accept_def AddClient_def draw_def mod_client_def DClient_new_def demo_daemon_env_def)
  let ?c = "MessageConnection_new demo_header"
  let ?got = "msg_bytes demo_message"
  let ?c1 = "socket_SignalRead ?got ?c"
  have "length ?got = 32" by (simp add: msg_bytes_def demo_message_def)
  then have fits: "length ?got \<le> fst (Reserve (mc_in_buffer ?c) 8192)"
    using Reserve_unlimited_room [of Buffer_new 8192] by (simp add: MessageConnection_new_def unlimited_def)
  have "msg_ok demo_message" by (simp add: msg_ok_def demo_message_def demo_header_def)
  from drain_one [OF MessageConnection_new_inv this fits] obtain c2 where
    dr: "drain ?c1 = Some ([demo_message], c2)" and "\<not> mc_error_flag c2"
    by (auto simp: MessageConnection_new_def)
  define d2 where "d2 = client_conn 1 ?c1 d1"
  have "frontend_Prepare ?env d2 = Inr (PostRequest (message_request 1 demo_message) (mod_client 1 (\<lambda>cl. cl\<lparr>cl_connection := c2\<rparr>) d2))"
    using d1 dr \<open>\<not> mc_error_flag c2\<close>
    by (simp add: frontend_Prepare_def frontend_client_def d2_def client_conn_def mod_client_def Let_def PostRequest_def)
  moreover have "daemon_reachable ?env d2"
  proof -
    have "socket_event (cl_connection (dm_cl d1 1)) ?c1" unfolding d1(6) by (rule socket_event.readable [OF fits])
    then have "daemon_step ?env d1 d2" unfolding d2_def by (rule daemon_step.client_socket [rotated]) (simp add: d1(2))
    then show ?thesis using daemon_reachable.step [OF daemon_reachable.step [OF daemon_reachable.start [OF d0(1)] daemon_step.accept [OF d1(1)]]]
      by blast
  qed
  ultimately have "daemon_reachable ?env (PostRequest (message_request 1 demo_message) (mod_client 1 (\<lambda>cl. cl\<lparr>cl_connection := c2\<rparr>) d2))"
    using daemon_reachable.step daemon_step.clients by blast
  moreover have "dm_dispatch_queue d2 = []" "dm_devices d2 = []" "dm_frontend_clients d2 = [1]" "cl_client_id (dm_cl d2 1) = 8" "dm_backend_devices d2 = []"
    "\<not> cl_deletion_flag (dm_cl d2 1)" "dm_next_obj d2 = 0"
    using d1 by (simp_all add: d2_def client_conn_def mod_client_def)
  ultimately show ?thesis
    by (intro exI [of _ "PostRequest (message_request 1 demo_message) (mod_client 1 (\<lambda>cl. cl\<lparr>cl_connection := c2\<rparr>) d2)"])
      (simp add: PostRequest_def mod_client_def)
qed

theorem daemon_answers_witness:
  "\<exists>d e r cs. dm_dispatch_queue d = [JobRequest (message_request 1 demo_message)] \<and> Process demo_daemon_env 0 d = Inr e \<and>
    dm_dispatch_queue e = JobResponse r # map JobRequest cs \<and> dr_client_id r = 8 \<and> dr_tag r = 9 \<and>
    dr_result_code r = TWILI_ERR_PROTOCOL_UNRECOGNIZED_DEVICE"
proof -
  obtain d where d: "daemon_reachable demo_daemon_env d" "dm_dispatch_queue d = [JobRequest (message_request 1 demo_message)]"
    "dm_devices d = []" "cl_client_id (dm_cl d 1) = 8" using demo_request_reachable by blast
  have "0 < length (dm_dispatch_queue d)" "dm_dispatch_queue d ! 0 = JobRequest (message_request 1 demo_message)"
    "answered_here (message_request 1 demo_message) d" using d by (simp_all add: answered_here_def)
  from daemon_answers [OF d(1) this] obtain e r cs where "Process demo_daemon_env 0 d = Inr e"
    "dm_dispatch_queue e = JobResponse r # map JobRequest cs" "dr_client_id r = 8" "dr_tag r = 9"
    "dr_result_code r = TWILI_ERR_PROTOCOL_UNRECOGNIZED_DEVICE"
    using d(2,4) by (auto simp: message_request_def demo_message_def)
  with d(2) show ?thesis by blast
qed

text \<open>C14: the daemon routes. A request for a device that it knows goes out on that device's connection, with the id of
  the client and the tag of the request, and to no other device; the request is pending there.\<close>

theorem daemon_forwards:
  assumes "daemon_reachable env d" and "k < length (dm_dispatch_queue d)" and "dm_dispatch_queue d ! k = JobRequest rq"
    and "dq_device_id rq \<noteq> 0" and "map_of (dm_devices d) (dq_device_id rq) = Some v" and "\<not> dv_deletion_flag (dm_dv d v)"
  shows "\<exists>e c mh. Process env k d = Inr e \<and> dq_client rq = Some c \<and>
    dv_connection (dm_dv e v) = SendMessage mh (dq_payload rq) [] (dv_connection (dm_dv d v)) \<and>
    mh_client_id mh = cl_client_id (dm_cl d c) \<and> mh_object_id mh = dq_object_id rq \<and> mh_command_id mh = dq_command_id rq \<and>
    mh_tag mh = dq_tag rq \<and> wq_tag (last (dv_pending_requests (dm_dv e v))) = dq_tag rq \<and>
    (\<forall>w. w \<noteq> v \<longrightarrow> dm_dv e w = dm_dv d w)"
proof -
  note inv = daemon_reachable_inv [OF assms(1)]
  let ?d = "d\<lparr>dm_dispatch_queue := take k (dm_dispatch_queue d) @ drop (Suc k) (dm_dispatch_queue d)\<rparr>"
  from queue_head(1) [OF inv assms(2,3)] obtain c where c: "dq_client rq = Some c" by blast
  have live: "live_device v ?d" using inv assms(5) by (auto simp: daemon_inv_def core_inv_def device_inv_def live_device_def)
  let ?d1 = "if dq_command_id rq = CLOSE_COMMAND then disown c (dq_object_id rq) ?d else ?d"
  have "dispatch_request env rq ?d = Inr (device_SendRequest env v rq ?d1)"
    using c live assms(4-6) by (simp add: dispatch_request_def Let_def)
  then have e: "Process env k d = Inr (collect env (device_SendRequest env v rq ?d1))" using assms(3) by (simp add: Process_def Let_def)
  have dis: "dm_dv (disown c x y) = dm_dv y" "cl_client_id (dm_cl (disown c x y) z) = cl_client_id (dm_cl y z)" for x y z
  proof -
    obtain os where "fold (\<lambda>i. mod_obj i (\<lambda>ob. ob\<lparr>bo_valid := False\<rparr>)) (filter (\<lambda>i. bo_object_id (dm_objs y i) = x) (cl_owned_objects (dm_cl y c))) y =
      y\<lparr>dm_objs := os\<rparr>" using fold_invalidate by blast
    then show "dm_dv (disown c x y) = dm_dv y" "cl_client_id (dm_cl (disown c x y) z) = cl_client_id (dm_cl y z)"
      by (simp_all add: disown_def Let_def mod_client_def)
  qed
  have d1: "dm_dv ?d1 = dm_dv d" "cl_client_id (dm_cl ?d1 z) = cl_client_id (dm_cl d z)" for z using dis by simp_all
  show ?thesis
    by (rule exI [of _ "collect env (device_SendRequest env v rq ?d1)"], rule exI [of _ c], rule exI [of _ "request_header env rq ?d1"])
      (simp add: e c device_SendRequest_def mod_device_def d1 request_header_def weak_def)
qed

text \<open>A device that has connected and identified itself: it has five bytes of identification.\<close>

definition demo_identification :: Message where
  "demo_identification = \<lparr>ms_mh = demo_header\<lparr>mh_client_id := 0xffffffff, mh_payload_size := 13\<rparr>,
     ms_payload = replicate 13 0, ms_object_ids = []\<rparr>"

lemma collect_none: "dm_next_obj d = 0 \<Longrightarrow> collect env d = d"
  by (simp add: collect_def dead_objects_def)

lemma demo_device_reachable:
  "\<exists>d rq. daemon_reachable demo_daemon_env d \<and> dm_dispatch_queue d = [JobRequest rq] \<and> dq_device_id rq = 5 \<and> dq_client rq = Some 0 \<and>
    dq_command_id rq = CLOSE_COMMAND \<and> dm_devices d = [(5, 0)] \<and> \<not> dv_deletion_flag (dm_dv d 0)"
proof -
  let ?env = demo_daemon_env and ?m = demo_identification
  obtain d0 where d0: "Daemon_new 1 ?env = Inr d0" "dm_dispatch_queue d0 = []" "dm_devices d0 = []" "dm_backend_devices d0 = []"
    "dm_next_device d0 = 0" "dm_next_obj d0 = 0"
    by (simp add: Daemon_new_def AddClient_def draw_def Daemon_start_def mod_client_def)
  define d1 where "d1 = connect_device ?env d0"
  obtain h where h: "dv_connection (dm_dv d1 0) = SendMessage h [] [] (MessageConnection_new demo_header)"
    using d0(5) by (simp add: d1_def connect_device_def Let_def device_SendRequest_def mod_device_def identify_request_def DDevice_new_def demo_daemon_env_def)
  have d1: "dm_backend_devices d1 = [0]" "dm_dispatch_queue d1 = []" "dm_devices d1 = []" "dm_next_obj d1 = 0"
    "\<not> dv_added_flag (dm_dv d1 0)" "\<not> dv_deletion_flag (dm_dv d1 0)"
    using d0 by (simp_all add: d1_def connect_device_def Let_def device_SendRequest_def mod_device_def DDevice_new_def)
  let ?c = "dv_connection (dm_dv d1 0)"
  have ok: "msg_ok ?m" by (simp add: msg_ok_def demo_identification_def demo_header_def)
  have "length (msg_bytes ?m) = 45" by (simp add: msg_bytes_def demo_identification_def)
  then have fits: "length (msg_bytes ?m) \<le> fst (Reserve (mc_in_buffer ?c) 8192)"
    using Reserve_unlimited_room [of Buffer_new 8192] by (simp add: h SendMessage_def MessageConnection_new_def unlimited_def)
  have "conn_inv ?c" "pending ?c = []" "\<not> mc_error_flag ?c"
    using MessageConnection_new_inv [of demo_header] by (simp_all add: h) (simp_all add: SendMessage_def MessageConnection_new_def pending_def)
  from drain_one [OF this(1,2) ok fits this(3)] obtain c2 where
    dr: "drain (socket_SignalRead (msg_bytes ?m) ?c) = Some ([?m], c2)" "\<not> mc_error_flag c2" by blast
  define d2 where "d2 = device_conn 0 (socket_SignalRead (msg_bytes ?m) ?c) d1"
  have d2: "dm_backend_devices d2 = [0]" "dm_dispatch_queue d2 = []" "dm_devices d2 = []" "dm_next_obj d2 = 0"
    "\<not> dv_added_flag (dm_dv d2 0)" "\<not> dv_deletion_flag (dm_dv d2 0)" "dv_connection (dm_dv d2 0) = socket_SignalRead (msg_bytes ?m) ?c"
    using d1 by (simp_all add: d2_def device_conn_def mod_device_def)
  have "socket_event ?c (socket_SignalRead (msg_bytes ?m) ?c)" by (rule socket_event.readable [OF fits])
  then have "daemon_step ?env d1 d2" unfolding d2_def by (rule daemon_step.device_socket [rotated]) (simp add: d1)
  then have r2: "daemon_reachable ?env d2"
    using daemon_reachable.step [OF daemon_reachable.step [OF daemon_reachable.start [OF d0(1)] daemon_step.connect]] d1_def by blast
  obtain d3 where d3: "incoming_messages ?env 0 [?m] (mod_device 0 (\<lambda>dv. dv\<lparr>dv_connection := c2\<rparr>) d2) = Inr d3"
    "dm_backend_devices d3 = [0]" "dm_dispatch_queue d3 = []" "dm_devices d3 = []" "\<not> dv_added_flag (dm_dv d3 0)" "\<not> dv_deletion_flag (dm_dv d3 0)"
    "dv_ready_flag (dm_dv d3 0)" "dv_device_id (dm_dv d3 0) = 5" "dv_connection (dm_dv d3 0) = c2"
    using d2 by (simp add: IncomingMessage_def Let_def demo_identification_def demo_header_def collect_none mod_device_def Identified_def demo_daemon_env_def)
  have prep: "backend_Prepare ?env d2 = Inr (backend_update ?env 0 d3)"
    using d2 d3(1,9) dr by (simp add: backend_Prepare_def backend_device_def del: incoming_messages.simps)
  have "device_behaves d2 0" using dr d2 by (simp add: device_behaves_def behaves_def demo_identification_def)
  then have "daemon_reachable ?env (backend_update ?env 0 d3)"
    using daemon_reachable.step [OF r2 daemon_step.devices [OF _ prep]] d2(1) by simp
  moreover obtain rq where "dm_dispatch_queue (backend_update ?env 0 d3) = [JobRequest rq]" "dq_device_id rq = 5" "dq_client rq = Some 0"
    "dq_command_id rq = CLOSE_COMMAND" "dm_devices (backend_update ?env 0 d3) = [(5, 0)]" "\<not> dv_deletion_flag (dm_dv (backend_update ?env 0 d3) 0)"
    using d3 by (simp add: backend_update_def Let_def AddDevice_def local_SendRequest_def draw_def PostRequest_def mod_device_def map_modify_def local_client_def)
  ultimately show ?thesis by blast
qed

theorem daemon_forwards_witness:
  "\<exists>d e rq mh conn. dm_dispatch_queue d = [JobRequest rq] \<and> Process demo_daemon_env 0 d = Inr e \<and>
    dv_connection (dm_dv e 0) = SendMessage mh (dq_payload rq) [] conn \<and> mh_command_id mh = CLOSE_COMMAND"
proof -
  obtain d rq where d: "daemon_reachable demo_daemon_env d" "dm_dispatch_queue d = [JobRequest rq]" "dq_device_id rq = 5"
    "dq_command_id rq = CLOSE_COMMAND" "dm_devices d = [(5, 0)]" "\<not> dv_deletion_flag (dm_dv d 0)"
    using demo_device_reachable by blast
  have "0 < length (dm_dispatch_queue d)" "dm_dispatch_queue d ! 0 = JobRequest rq" "dq_device_id rq \<noteq> 0"
    "map_of (dm_devices d) (dq_device_id rq) = Some 0" using d by simp_all
  from daemon_forwards [OF d(1) this d(6)] obtain e mh where "Process demo_daemon_env 0 d = Inr e"
    "dv_connection (dm_dv e 0) = SendMessage mh (dq_payload rq) [] (dv_connection (dm_dv d 0))" "mh_command_id mh = CLOSE_COMMAND"
    using d(4) by auto
  with d(2) show ?thesis by blast
qed

text \<open>C15: the daemon delivers. A response for a client on a socket goes out on that client's connection and to no
  other client: its header has the code and the tag of the response, its payload is that of the response, it has
  the ids of the objects, and the client now owns them.\<close>

theorem daemon_delivers:
  assumes "daemon_reachable env d" and "k < length (dm_dispatch_queue d)" and "dm_dispatch_queue d ! k = JobResponse rs"
    and "c \<in> set (dm_frontend_clients d)" and "cl_client_id (dm_cl d c) = dr_client_id rs" and "\<not> cl_deletion_flag (dm_cl d c)"
  shows "\<exists>e mh. Process env k d = Inr e \<and>
    cl_connection (dm_cl e c) =
      SendMessage mh (dr_payload rs) (map (\<lambda>i. bo_object_id (dm_objs d i)) (dr_objects rs)) (cl_connection (dm_cl d c)) \<and>
    mh_command_id mh = dr_result_code rs \<and> mh_tag mh = dr_tag rs \<and> mh_object_count mh = of_nat (length (dr_objects rs)) \<and>
    cl_owned_objects (dm_cl e c) = cl_owned_objects (dm_cl d c) @ dr_objects rs \<and> (\<forall>x. x \<noteq> c \<longrightarrow> dm_cl e x = dm_cl d x)"
proof -
  note inv = daemon_reachable_inv [OF assms(1)]
  let ?d = "d\<lparr>dm_dispatch_queue := take k (dm_dispatch_queue d) @ drop (Suc k) (dm_dispatch_queue d)\<rparr>"
  have ci: "client_inv d" using inv by (simp add: daemon_inv_def core_inv_def)
  then have "map_of (dm_clients d) (dr_client_id rs) = Some c" using registeredD [of d "dr_client_id rs" c] assms(4,5) by (simp add: client_inv_def)
  moreover have "c \<in> lives ?d" using assms(4) by (simp add: lives_def)
  ultimately have g: "GetClient (dr_client_id rs) ?d = Some c" using assms(6) by (simp add: GetClient_def)
  have loc: "c \<noteq> local_client" using ci assms(4) by (auto simp: client_inv_def)
  have e: "Process env k d = Inr (collect env (dispatch_response env rs ?d))" using assms(3) by (simp add: Process_def Let_def)
  have "dispatch_response env rs ?d = socket_PostResponse env c rs
    (mod_client c (\<lambda>cl. cl\<lparr>cl_owned_objects := cl_owned_objects cl @ dr_objects rs\<rparr>) ?d)"
    using g loc by (simp add: dispatch_response_def client_PostResponse_def)
  then show ?thesis
    by (intro exI [of _ "collect env (dispatch_response env rs ?d)"] exI [of _ "response_header env rs"])
      (simp add: e socket_PostResponse_def mod_client_def response_header_def)
qed

theorem daemon_delivers_witness:
  "\<exists>d e mh conn rs. dm_dispatch_queue d = [JobResponse rs] \<and> Process demo_daemon_env 0 d = Inr e \<and>
    cl_connection (dm_cl e 1) = SendMessage mh [] [] conn \<and> mh_command_id mh = TWILI_ERR_PROTOCOL_UNRECOGNIZED_DEVICE \<and> mh_tag mh = 9"
proof -
  let ?rq = "message_request 1 demo_message"
  obtain d where d: "daemon_reachable demo_daemon_env d" "dm_dispatch_queue d = [JobRequest ?rq]" "dm_devices d = []"
    "dm_frontend_clients d = [1]" "cl_client_id (dm_cl d 1) = 8" "\<not> cl_deletion_flag (dm_cl d 1)" "dm_next_obj d = 0"
    using demo_request_reachable by blast
  let ?r = "\<lparr>dr_client_id = 8, dr_device_id = 5, dr_object_id = dq_object_id ?rq,
    dr_result_code = TWILI_ERR_PROTOCOL_UNRECOGNIZED_DEVICE, dr_tag = 9, dr_payload = [], dr_objects = []\<rparr>"
  let ?e = "PostResponse ?r (d\<lparr>dm_dispatch_queue := []\<rparr>)"
  have "dead_objects ?e = []" using d(7) by (simp add: dead_objects_def PostResponse_def)
  then have run: "Process demo_daemon_env 0 d = Inr ?e"
    using d by (simp add: Process_def Let_def dispatch_request_def message_request_def demo_message_def respond_error_def collect_def)
  have re: "daemon_reachable demo_daemon_env ?e"
    using daemon_reachable.step [OF d(1) daemon_step.job [OF _ run]] d(2) by simp
  have q: "dm_dispatch_queue ?e = [JobResponse ?r]" by (simp add: PostResponse_def)
  have "\<exists>e mh. Process demo_daemon_env 0 ?e = Inr e \<and>
    cl_connection (dm_cl e 1) = SendMessage mh (dr_payload ?r) (map (\<lambda>i. bo_object_id (dm_objs ?e i)) (dr_objects ?r)) (cl_connection (dm_cl ?e 1)) \<and>
    mh_command_id mh = dr_result_code ?r \<and> mh_tag mh = dr_tag ?r \<and> mh_object_count mh = of_nat (length (dr_objects ?r)) \<and>
    cl_owned_objects (dm_cl e 1) = cl_owned_objects (dm_cl ?e 1) @ dr_objects ?r \<and> (\<forall>x. x \<noteq> 1 \<longrightarrow> dm_cl e x = dm_cl ?e x)"
    by (rule daemon_delivers [OF re]) (use d q in \<open>simp_all add: PostResponse_def\<close>)
  then obtain e mh where "Process demo_daemon_env 0 ?e = Inr e" "cl_connection (dm_cl e 1) = SendMessage mh [] [] (cl_connection (dm_cl ?e 1))"
    "mh_command_id mh = TWILI_ERR_PROTOCOL_UNRECOGNIZED_DEVICE" "mh_tag mh = 9" by auto
  with q show ?thesis by blast
qed


definition demo_twice :: Daemon where
  "demo_twice = (Daemon_start demo_daemon_env)\<lparr>dm_devices := [(5, 0)], dm_backend_devices := [0, 1],
     dm_dv := (\<lambda>v. (DDevice_new demo_daemon_env)\<lparr>dv_device_id := 5, dv_ready_flag := True, dv_added_flag := v = 0\<rparr>)\<rparr>"


lemma make_objects_device:
  "make_objects n k ids made d = (ok, made', d') \<Longrightarrow> (\<forall>i \<in> set made. i < dm_next_obj d \<and> bo_device_id (dm_objs d i) = k) \<Longrightarrow>
    (\<forall>i \<in> set made'. i < dm_next_obj d' \<and> bo_device_id (dm_objs d' i) = k) \<and> (4 * n \<le> length ids \<longrightarrow> ok \<and> length made' = length made + n)"
proof (induction n k ids made d rule: make_objects.induct)
  case (2 n k ids made d)
  let ?i = "dm_next_obj d"
  let ?d = "d\<lparr>dm_objs := (dm_objs d)(?i := \<lparr>bo_device_id = k, bo_object_id = word32 (take 4 ids), bo_valid = True, bo_alive = True\<rparr>),
    dm_next_obj := ?i + 1\<rparr>"
  show ?case
  proof (cases "length ids < 4")
    case True
    with 2(2,3) show ?thesis by auto
  next
    case False
    have "\<forall>i \<in> set (made @ [?i]). i < dm_next_obj ?d \<and> bo_device_id (dm_objs ?d i) = k" using 2(3) by (auto simp: less_SucI)
    moreover have "make_objects n k (drop 4 ids) (made @ [?i]) ?d = (ok, made', d')" using 2(2) False by simp
    ultimately show ?thesis using 2(1) [OF False] by auto
  qed
qed simp

lemma collect_kept: "bo_device_id (dm_objs (collect env d) i) = bo_device_id (dm_objs d i)"
proof -
  have "bo_device_id (dm_objs (fold (destroy_object env) is d) i) = bo_device_id (dm_objs d i)" for "is" d
    by (induction "is" arbitrary: d) (simp_all add: destroy_object_eq)
  then show ?thesis by (simp add: collect_def)
qed

text \<open>An object is closed on the wrong device. The objects of a response are given the id of the client instead of
  that of the device they are on, because the two ids share a field of the header. When such an object is lost,
  the request to close it goes to a device of that id; when there is none, no device is told.\<close>

theorem lost_objects_stay_open:
  assumes "IncomingMessage env v m d = Inr e" and "mh_client_id (ms_mh m) = client_id" and "client_id \<noteq> 0xffffffff" and "client_id \<noteq> 0"
    and "length (ms_object_ids m) = 4 * unat (mh_object_count (ms_mh m))"
    and "i \<in> set (dr_objects (dv_response_in (dm_dv e v)))" and "map_of (dm_devices f) client_id = None"
  shows "dq_device_id (close_request (dm_objs e i)) = client_id \<and>
    (\<exists>g. dispatch_request env ((close_request (dm_objs e i))\<lparr>dq_client := Some local_client\<rparr>) f = Inr g \<and> dm_dv g = dm_dv f)"
proof -
  let ?n = "unat (mh_object_count (ms_mh m))"
  obtain ok made d1 where mk: "make_objects ?n client_id (ms_object_ids m) [] d = (ok, made, d1)" by (metis prod_cases3)
  from make_objects_device [OF mk] assms(5) have made: "ok" "length made = ?n" "\<forall>i \<in> set made. bo_device_id (dm_objs d1 i) = client_id" by auto
  define rs where "rs = \<lparr>dr_client_id = client_id, dr_device_id = dv_device_id (dm_dv d v), dr_object_id = mh_object_id (ms_mh m),
    dr_result_code = mh_command_id (ms_mh m), dr_tag = mh_tag (ms_mh m), dr_payload = ms_payload m, dr_objects = made\<rparr>"
  let ?d2 = "collect env (mod_device v (\<lambda>dv. dv\<lparr>dv_response_in := rs\<rparr>) d1)"
  have "e = PostResponse rs (mod_device v (\<lambda>dv. dv\<lparr>dv_pending_requests := filter (\<lambda>w. wq_tag w \<noteq> dr_tag rs) (dv_pending_requests dv)\<rparr>) ?d2)"
    using assms(1-3) made mk by (simp add: IncomingMessage_def Let_def rs_def)
  then have e: "dr_objects (dv_response_in (dm_dv e v)) = made" "dm_objs e = dm_objs ?d2"
    by (simp_all add: PostResponse_def mod_device_def rs_def)
  then have dev: "bo_device_id (dm_objs e i) = client_id" using made(3) assms(6) by (simp add: collect_kept) (simp add: mod_device_def)
  then show ?thesis using assms(4,7) by (simp add: close_request_def dispatch_request_def Let_def respond_error_def PostResponse_def)
qed

definition demo_object_message :: Message where
  "demo_object_message = \<lparr>ms_mh = demo_header\<lparr>mh_client_id := 8, mh_object_count := 1\<rparr>, ms_payload = [], ms_object_ids = [3, 0, 0, 0]\<rparr>"

theorem lost_objects_stay_open_witness:
  "\<exists>(e :: Daemon) i. dr_objects (dv_response_in (dm_dv e 1)) = [i] \<and> dq_device_id (close_request (dm_objs e i)) = 8 \<and>
    (\<exists>g. dispatch_request demo_daemon_env ((close_request (dm_objs e i))\<lparr>dq_client := Some local_client\<rparr>) demo_twice = Inr g \<and> dm_dv g = dm_dv demo_twice)"
proof -
  obtain e where e: "IncomingMessage demo_daemon_env 1 demo_object_message demo_twice = Inr e" "dr_objects (dv_response_in (dm_dv e 1)) = [0]"
    by (simp add: IncomingMessage_def Let_def demo_object_message_def demo_header_def demo_twice_def Daemon_start_def PostResponse_def mod_device_def)
  have "mh_client_id (ms_mh demo_object_message) = 8" "(8 :: u32) \<noteq> 0xffffffff" "(8 :: u32) \<noteq> 0"
    "length (ms_object_ids demo_object_message) = 4 * unat (mh_object_count (ms_mh demo_object_message))"
    "0 \<in> set (dr_objects (dv_response_in (dm_dv e 1)))" "map_of (dm_devices demo_twice) 8 = None"
    using e(2) by (simp_all add: demo_object_message_def demo_header_def demo_twice_def)
  from lost_objects_stay_open [OF e(1) this] e(2) show ?thesis by blast
qed

end
