(* ===== verification/Spec2Isabelle.thy ===== *)
theory Spec2Isabelle
  imports TwibPipe TcpConnection UsbRequest GdbStubProps AppletTrackerProps ShellTracker Interfaces DeviceService DaemonProps
begin

text \<open>
  \<^bold>\<open>Twili and Twib.\<close> The repository has three programs. \<^emph>\<open>twili\<close> (src/twili) runs on the console: it launches and
  monitors processes and serves remote objects over a bridge, which is a TCP connection or a USB interface. \<^emph>\<open>twibd\<close>
  (src/twib/daemon) runs on the host: it routes requests of its clients to the devices it is connected to and the
  responses back. \<^emph>\<open>twib\<close> (src/twib/tool) is the client: it calls remote objects and contains a stub for gdb. All three
  speak one protocol (src/common/Protocol.hpp): a message is a header, a payload and the ids of the objects it passes.
  A call goes from the tool's interfaces through its packing and the message stream to the daemon, from there to the
  device, where the bridge unpacks the arguments, dispatches to a handler and packs the response, which takes the same
  way back. This library models that way as a whole, and the state machines at its ends.

  \<^bold>\<open>Conventions.\<close> An operation of the code is a function on a record with the members of its class; its arguments beside
  the state are those of the code, and then what the code gets from outside: results of system calls, of the kernel and
  of services, and the contents of memory that the code reads uninitialised. \<open>twili::Abort\<close>, exceptions and failed
  assertions are values on the left of a sum; an access outside of an array or through a null pointer is a value too
  (\<open>None\<close>, or an error of its own). Integers are words where their width matters; a \<open>size_t\<close> that only counts bytes
  that exist is a natural number, and the subtractions that can wrap are \<open>size_sub\<close>. Shared pointers are indices into
  a store where several owners change the object. Callbacks are identities, and calling one is an event in a log.

  \<^bold>\<open>The theories.\<close>

  \<^item> \<^bold>\<open>Shared\<close>: \<open>Twili_Prelude\<close> (machine types, little-endian images, sums), \<open>StdMap\<close> (\<open>std::map\<close> with its order),
    \<open>Buffer\<close> (src/common/Buffer.*: the byte queue behind everything; it refines a bounded queue, with the exact
    condition under which one of its reads writes out of bounds) and \<open>Protocol\<close> (src/common/Protocol.hpp, err.hpp).

  \<^item> \<^bold>\<open>The bridge of the device\<close>: \<open>Response\<close> (src/twili/bridge: ResponseOpener, ResponseWriter, Packing, and the
    transports tcp/ResponseState and usb/ResponseState; the locale \<open>response_transport\<close> has the laws of a transport and
    is interpreted on both), \<open>Request\<close> (Unpacking.hpp, RequestHandler.hpp: a request is handled the same however its
    bytes are split), \<open>TcpConnection\<close> (tcp/Connection.cpp: requests on a stream are answered; a header that arrives in
    two parts makes the loop run for ever) and \<open>UsbRequest\<close> (usb/RequestReader.cpp: transfers reach the handler in
    order; a response drops the request that is being received).

  \<^item> \<^bold>\<open>The objects of the device\<close>: \<open>Interfaces\<close> (the calls of src/twib/tool/interfaces and the command tables of
    src/twili/bridge/interfaces; each call finds a handler that takes its arguments and answers what it expects),
    \<open>DeviceHandlers\<close> (the debugger, files, file systems, directories), \<open>TwibPipe\<close> (src/twili/TwibPipe.cpp: every callback
    is called once, bytes keep their order), \<open>PipeObjects\<close> (ITwibPipeReader, ITwibPipeWriter over the pipe) and
    \<open>DeviceService\<close> (ITwibDeviceInterface, and IPipe and ITwiliService for processes).

  \<^item> \<^bold>\<open>Processes\<close>: \<open>ProcessFS\<close> (src/twili/process/fs: the executable made out of an NRO; the locale \<open>stored_file\<close> has
    the laws of a file), \<open>MonitoredProcess\<close>, \<open>AppletTracker\<close> with \<open>AppletTrackerInv\<close> and \<open>AppletTrackerProps\<close> (one
    process at a time holds an external content source, launches are answered, the recursion ends) and
    \<open>ShellTracker\<close>.

  \<^item> \<^bold>\<open>The host\<close>: \<open>MessageConnection\<close> (src/twib/common: messages cross a socket whatever it splits them into),
    \<open>ToolPacking\<close> (src/twib/tool/Packing.hpp, RemoteObject.hpp: what the tool packs is what the device unpacks, and the
    other way round), \<open>Daemon\<close> with \<open>DaemonInv\<close>, \<open>DaemonSteps\<close> and \<open>DaemonProps\<close> (src/twib/daemon: the dispatch
    queue, clients, devices, remote objects, the socket frontend and the TCP backend as a step relation; in every
    reachable state no dangling client or device is used, and an object is closed at most once; requests are answered,
    forwarded and delivered).

  \<^item> \<^bold>\<open>The gdb stub\<close>: \<open>GdbConnection\<close> (src/twib/tool/GdbConnection.cpp: frames, checksums, escapes, hexadecimal),
    \<open>GdbStub\<close> with \<open>GdbStubInv\<close> and \<open>GdbStubProps\<close> (GdbStub.cpp: every packet; the selected thread never dangles,
    \<open>vCont\<close> continues what it names, exceptions are reported, transfers are rebuilt, and which two packets use
    a null thread).

  \<^bold>\<open>Loops and fuel.\<close> Most loops are recursion on the data or have a measure. \<open>Connection_Process\<close> takes a number of
  iterations: enough of it is shown to give the result for complete requests, and no amount for a partial header. A change
  of state in \<open>AppletTracker\<close> may call itself through monitors: one level is enough in every reachable state
  (\<open>change_of_state_ends\<close>). The draw of a client id in \<open>Daemon\<close> has fuel and no result without it, because the code
  may draw for ever; the steps of the daemon are those in which it ends. The name of a thread in \<open>GdbStub\<close> is read in
  chunks up to a zero that the target may not have; its fuel bounds the chunks, and the properties hold for every
  fuel. \<open>target_candidates\<close> is a partial function, and ends for every layout of memory (\<open>target_entry_found\<close>).

  \<^bold>\<open>Hypotheses.\<close> What the theorems assume of code outside of the repository are hypotheses of their statements: a read
  callback takes no more than it is offered, the kernel describes memory in adjacent regions, a socket takes or
  gives at most what it was asked for, a device that was added does not identify itself again.

  \<^bold>\<open>Not modelled.\<close> The vendored lock-free queue (a list here), the platform layers, logging, the command line of the tool,
  and the threads of its clients; the USB backends of the daemon, which are libusb and libusbK transfers around what the
  TCP backend hands to the daemon; named pipes of Windows; set-up of sockets and announcements (TCPBridge.cpp); the
  shims, which run in other processes; crash reports, the services of the console and its configuration; the handlers of
  the device that only collect answers of services (Identify, GetMemoryInfo, Reboot). Data races between threads are
  not modelled: an operation of a thread is one step. Running out of memory is not modelled.
\<close>

end
